(* ===== verification/Prelude.thy ===== *)
theory Prelude
  imports Complex_Main
begin

text \<open>
  What every component of the development shares: the Python exceptions the sources raise or
  catch, results and state-passing actions that carry them, and list lemmas. A Python call that
  may raise is a value of type \<^typ>\<open>'a + 'b\<close> with the exception on the left; a call that also
  changes state returns the state reached \<^emph>\<open>when the exception was raised\<close>, so that a caller
  decides (as the code does) whether that state is kept or rolled back.
\<close>

section \<open>Collections of facts\<close>

named_theorems action_simps \<open>unfolding of the combinators for state-passing calls\<close>
named_theorems table_simps \<open>facts about keyed tables\<close>

section \<open>Exceptions and results\<close>

text \<open>
  Times are rational numbers of seconds: both \<open>datetime\<close> values (seconds since the epoch) and
  the readings of \<open>time.monotonic\<close>. Python floats are modelled by exact rationals.
\<close>

type_synonym seconds = rat

datatype py_exn =
    HTTPException int string
  | HTTPStatusError int
  | TransportError
  | TransientAuthError
  | RateLimitResetError seconds
  | JwtDecodeError
  | JwtExpiredSignatureError
  | JwtInvalidTokenError
  | JwtInvalidKeyError
  | VerifyMismatchError
  | Argon2Error
  | IntegrityError string
  | DataError string
  | DBAPIError string
  | ValueError string
  | TypeError
  | AttributeError
  | KeyError
  | OverflowError
  | RuntimeError
  | TimeoutError
  | CancelledError
  | OtherException string

type_synonym 'a result = "py_exn + 'a"

type_synonym ('s, 'a) action = "'s \<Rightarrow> 'a result \<times> 's"

definition bind_res :: "'a result \<Rightarrow> ('a \<Rightarrow> 'b result) \<Rightarrow> 'b result" where
  "bind_res r f = (case r of Inl e \<Rightarrow> Inl e | Inr x \<Rightarrow> f x)"

lemma bind_res_simps [simp]:
  "bind_res (Inl e) f = Inl e"
  "bind_res (Inr x) f = f x"
  by (simp_all add: bind_res_def)

lemma bind_res_eq_Inr [simp]:
  "bind_res r f = Inr y \<longleftrightarrow> (\<exists>x. r = Inr x \<and> f x = Inr y)"
  by (cases r) auto

definition ret :: "'a \<Rightarrow> ('s, 'a) action" where
  "ret x s = (Inr x, s)"

definition raise_exn :: "py_exn \<Rightarrow> ('s, 'a) action" where
  "raise_exn e s = (Inl e, s)"

definition of_result :: "'a result \<Rightarrow> ('s, 'a) action" where
  "of_result r s = (r, s)"

definition bind_act :: "('s, 'a) action \<Rightarrow> ('a \<Rightarrow> ('s, 'b) action) \<Rightarrow> ('s, 'b) action" where
  "bind_act m f s = (case m s of (Inl e, s') \<Rightarrow> (Inl e, s') | (Inr x, s') \<Rightarrow> f x s')"

definition when_act :: "bool \<Rightarrow> ('s, unit) action \<Rightarrow> ('s, unit) action" where
  "when_act b m = (if b then m else ret ())"

fun for_each :: "'a list \<Rightarrow> ('a \<Rightarrow> ('s, unit) action) \<Rightarrow> ('s, unit) action" where
  "for_each [] f = ret ()"
| "for_each (x # xs) f = bind_act (f x) (\<lambda>_. for_each xs f)"

lemma ret_apply [simp, action_simps]: "ret x s = (Inr x, s)"
  by (simp add: ret_def)

lemma raise_exn_apply [simp, action_simps]: "raise_exn e s = (Inl e, s)"
  by (simp add: raise_exn_def)

lemma of_result_apply [simp, action_simps]: "of_result r s = (r, s)"
  by (simp add: of_result_def)

lemma bind_act_Inl [action_simps]: "m s = (Inl e, s') \<Longrightarrow> bind_act m f s = (Inl e, s')"
  by (simp add: bind_act_def)

lemma bind_act_Inr [action_simps]: "m s = (Inr x, s') \<Longrightarrow> bind_act m f s = f x s'"
  by (simp add: bind_act_def)

lemma bind_act_eq_Inr:
  "bind_act m f s = (Inr y, t) \<longleftrightarrow> (\<exists>x s'. m s = (Inr x, s') \<and> f x s' = (Inr y, t))"
  by (auto simp: bind_act_def split: prod.splits sum.splits)

lemma bind_act_ret [simp, action_simps]: "bind_act (ret x) f s = f x s"
  by (simp add: bind_act_def)

lemma bind_act_raise [simp, action_simps]: "bind_act (raise_exn e) f s = (Inl e, s)"
  by (simp add: bind_act_def)

lemma bind_act_of_result [simp, action_simps]:
  "bind_act (of_result (Inr x)) f s = f x s"
  "bind_act (of_result (Inl e)) f s = (Inl e, s)"
  by (simp_all add: bind_act_def)

text \<open>An invariant kept by an action whatever its outcome, and the rule for sequencing.\<close>

definition preserves :: "('s \<Rightarrow> bool) \<Rightarrow> ('s, 'a) action \<Rightarrow> bool" where
  "preserves I m \<longleftrightarrow> (\<forall>s. I s \<longrightarrow> I (snd (m s)))"

lemma preservesI: "(\<And>s. I s \<Longrightarrow> I (snd (m s))) \<Longrightarrow> preserves I m"
  by (simp add: preserves_def)

lemma preservesD: "preserves I m \<Longrightarrow> I s \<Longrightarrow> I (snd (m s))"
  by (simp add: preserves_def)

lemma preserves_ret [intro, simp]: "preserves I (ret x)"
  by (simp add: preserves_def)

lemma preserves_raise [intro, simp]: "preserves I (raise_exn e)"
  by (simp add: preserves_def)

lemma preserves_of_result [intro, simp]: "preserves I (of_result r)"
  by (simp add: preserves_def)

lemma preserves_bind [intro]:
  assumes "preserves I m" and "\<And>x. preserves I (f x)"
  shows "preserves I (bind_act m f)"
proof (rule preservesI)
  fix s
  assume "I s"
  with assms(1) have "I (snd (m s))" by (rule preservesD)
  with assms(2) show "I (snd (bind_act m f s))"
    by (auto simp: bind_act_def preserves_def split: prod.splits sum.splits)
qed

lemma preserves_when [intro]: "preserves I m \<Longrightarrow> preserves I (when_act b m)"
  by (simp add: when_act_def)

lemma preserves_for_each:
  "(\<And>x. x \<in> set xs \<Longrightarrow> preserves I (f x)) \<Longrightarrow> preserves I (for_each xs f)"
  by (induction xs) auto

section \<open>Lists\<close>

lemma filter_length_less:
  "x \<in> set xs \<Longrightarrow> \<not> P x \<Longrightarrow> length (filter P xs) < length xs"
  by (induction xs) (auto simp: le_imp_less_Suc)

lemma distinct_map_filter [intro]: "distinct (map f xs) \<Longrightarrow> distinct (map f (filter P xs))"
  by (induction xs) auto

lemma filter_singleton_of_distinct:
  "distinct (map f xs) \<Longrightarrow> x \<in> set xs \<Longrightarrow> filter (\<lambda>y. f y = f x) xs = [x]"
proof (induction xs)
  case Nil
  then show ?case by simp
next
  case (Cons a xs)
  show ?case
  proof (cases "a = x")
    case True
    with Cons.prems have "f x \<notin> f ` set xs" by auto
    then have "\<forall>y\<in>set xs. f y \<noteq> f x" by (metis imageI)
    with True show ?thesis by (simp add: filter_empty_conv)
  next
    case False
    with Cons.prems have "x \<in> set xs" and "f a \<noteq> f x" by force+
    with Cons show ?thesis by simp
  qed
qed

lemma dropWhile_dropWhile_idem [simp]: "dropWhile P (dropWhile P xs) = dropWhile P xs"
  by (induction xs) auto

lemma length_filter_update:
  "i < length xs \<Longrightarrow>
   length (filter P (xs[i := y])) + (if P (xs ! i) then 1 else 0)
     = length (filter P xs) + (if P y then 1 else 0)"
proof (induction xs arbitrary: i)
  case Nil
  then show ?case by simp
next
  case (Cons x xs)
  then show ?case by (cases i) auto
qed

lemma dropWhile_hd_fail: "dropWhile P xs \<noteq> [] \<Longrightarrow> \<not> P (hd (dropWhile P xs))"
  by (rule hd_dropWhile)

end
