(* ===== verification/PyString.thy ===== *)
theory PyString
  imports Prelude
begin

text \<open>
  The string methods of the Python standard library that the sources call, on strings of code
  points below 256 (one \<^typ>\<open>char\<close> per code point). HTTP headers are decoded as Latin-1, so there
  the restriction loses nothing. Character classes (\<open>isspace\<close>, \<open>isalnum\<close>, \<open>lower\<close>) follow Python
  on the whole of that range, not on ASCII only.
\<close>

section \<open>Characters\<close>

definition py_isspace :: "char \<Rightarrow> bool" where
  "py_isspace c =
     (let n = of_char c :: nat
      in 9 \<le> n \<and> n \<le> 13 \<or> 28 \<le> n \<and> n \<le> 32 \<or> n = 133 \<or> n = 160)"

definition py_lower_char :: "char \<Rightarrow> char" where
  "py_lower_char c =
     (let n = of_char c :: nat
      in if 65 \<le> n \<and> n \<le> 90 \<or> 192 \<le> n \<and> n \<le> 222 \<and> n \<noteq> 215 then char_of (n + 32) else c)"

definition py_isalnum :: "char \<Rightarrow> bool" where
  "py_isalnum c =
     (let n = of_char c :: nat
      in 48 \<le> n \<and> n \<le> 57 \<or> 65 \<le> n \<and> n \<le> 90 \<or> 97 \<le> n \<and> n \<le> 122
         \<or> n = 170 \<or> n = 178 \<or> n = 179 \<or> n = 181 \<or> n = 185 \<or> n = 186
         \<or> 188 \<le> n \<and> n \<le> 190 \<or> 192 \<le> n \<and> n \<noteq> 215 \<and> n \<noteq> 247)"

section \<open>Strings\<close>

definition py_lower :: "string \<Rightarrow> string" where
  "py_lower = List.map py_lower_char"

definition py_lstrip :: "string \<Rightarrow> string" where
  "py_lstrip = dropWhile py_isspace"

definition py_rstrip :: "string \<Rightarrow> string" where
  "py_rstrip s = rev (dropWhile py_isspace (rev s))"

definition py_strip :: "string \<Rightarrow> string" where
  "py_strip s = py_rstrip (py_lstrip s)"

definition py_strip_chars :: "string \<Rightarrow> string \<Rightarrow> string" where
  "py_strip_chars s cs =
     rev (dropWhile (\<lambda>c. c \<in> set cs) (rev (dropWhile (\<lambda>c. c \<in> set cs) s)))"

definition py_rstrip_chars :: "string \<Rightarrow> string \<Rightarrow> string" where
  "py_rstrip_chars s cs = rev (dropWhile (\<lambda>c. c \<in> set cs) (rev s))"

definition py_startswith :: "string \<Rightarrow> string \<Rightarrow> bool" where
  "py_startswith s p \<longleftrightarrow> take (length p) s = p"

definition py_removeprefix :: "string \<Rightarrow> string \<Rightarrow> string" where
  "py_removeprefix s p = (if py_startswith s p then drop (length p) s else s)"

text \<open>The operator \<open>sub in s\<close>.\<close>

fun py_in :: "string \<Rightarrow> string \<Rightarrow> bool" where
  "py_in sub [] \<longleftrightarrow> sub = []"
| "py_in sub (c # s) \<longleftrightarrow> py_startswith (c # s) sub \<or> py_in sub s"

text \<open>\<open>s.split(c)\<close> for a one-character separator: never the empty list.\<close>

fun py_split :: "char \<Rightarrow> string \<Rightarrow> string list" where
  "py_split c [] = [[]]"
| "py_split c (x # s) =
     (if x = c then [] # py_split c s
      else (case py_split c s of [] \<Rightarrow> [[x]] | w # ws \<Rightarrow> (x # w) # ws))"

text \<open>\<open>s.split(c, 1)\<close> for a separator that occurs in \<open>s\<close>: the parts around its first occurrence.\<close>

definition py_split1 :: "char \<Rightarrow> string \<Rightarrow> string \<times> string" where
  "py_split1 c s = (takeWhile (\<lambda>x. x \<noteq> c) s, tl (dropWhile (\<lambda>x. x \<noteq> c) s))"

text \<open>\<open>s.replace(p, r)\<close> for a nonempty pattern: leftmost, non-overlapping occurrences.\<close>

function py_replace :: "string \<Rightarrow> string \<Rightarrow> string \<Rightarrow> string" where
  "py_replace p r s =
     (if p = [] \<or> s = [] then s
      else if py_startswith s p then r @ py_replace p r (drop (length p) s)
      else hd s # py_replace p r (tl s))"
  by pat_completeness auto
termination
  by (relation "measure (\<lambda>(p, r, s). length s)") auto

declare py_replace.simps [simp del]

definition py_join :: "string \<Rightarrow> string list \<Rightarrow> string" where
  "py_join sep ws = (case ws of [] \<Rightarrow> [] | w # rest \<Rightarrow> w @ concat (map (\<lambda>v. sep @ v) rest))"

section \<open>Facts\<close>

lemma py_startswith_append [simp]: "py_startswith (p @ s) p"
  by (simp add: py_startswith_def)

lemma py_startswith_iff: "py_startswith s p \<longleftrightarrow> (\<exists>t. s = p @ t)"
  by (metis append_eq_conv_conj py_startswith_def append_take_drop_id)

lemma py_startswith_Nil [simp]: "py_startswith s []"
  by (simp add: py_startswith_def)

lemma py_removeprefix_append [simp]: "py_removeprefix (p @ s) p = s"
  by (simp add: py_removeprefix_def)

lemma py_in_iff: "py_in sub s \<longleftrightarrow> (\<exists>a b. s = a @ sub @ b)"
proof (induction s)
  case Nil
  then show ?case by auto
next
  case (Cons c s)
  show ?case
  proof
    assume "py_in sub (c # s)"
    then show "\<exists>a b. c # s = a @ sub @ b"
      using Cons by (metis append_Cons append_Nil py_in.simps(2) py_startswith_iff)
  next
    assume "\<exists>a b. c # s = a @ sub @ b"
    then obtain a b where ab: "c # s = a @ sub @ b" by blast
    show "py_in sub (c # s)"
    proof (cases a)
      case Nil
      with ab have "py_startswith (c # s) sub" by (simp add: py_startswith_iff)
      then show ?thesis by simp
    next
      case (Cons x a')
      with ab Cons.IH show ?thesis by auto
    qed
  qed
qed

lemma py_split_not_Nil [simp]: "py_split c s \<noteq> []"
  by (induction s) (auto split: list.splits)

lemma py_split_no_sep: "c \<notin> set s \<Longrightarrow> py_split c s = [s]"
  by (induction s) auto

lemma py_split_Cons_sep: "py_split c (a @ c # b) = py_split c a @ py_split c b"
  by (induction a) (auto split: list.splits)

lemma py_split1_append [simp]: "c \<notin> set a \<Longrightarrow> py_split1 c (a @ c # b) = (a, b)"
  by (induction a) (auto simp: py_split1_def)

lemma py_split1_complete: "c \<in> set s \<Longrightarrow> s = fst (py_split1 c s) @ c # snd (py_split1 c s)"
proof -
  assume "c \<in> set s"
  then have "dropWhile (\<lambda>x. x \<noteq> c) s \<noteq> []" by (auto simp: dropWhile_eq_Nil_conv)
  moreover from this have "hd (dropWhile (\<lambda>x. x \<noteq> c) s) = c"
    using hd_dropWhile [of "\<lambda>x. x \<noteq> c" s] by simp
  ultimately show ?thesis
    by (metis fst_conv snd_conv hd_Cons_tl py_split1_def takeWhile_dropWhile_id)
qed

lemma py_join_simps [simp]:
  "py_join sep [] = []"
  "py_join sep [w] = w"
  "py_join sep (w # v # ws) = w @ sep @ py_join sep (v # ws)"
  by (simp_all add: py_join_def)

lemma py_join_split: "py_join [c] (py_split c s) = s"
proof (induction s)
  case Nil
  then show ?case by simp
next
  case (Cons x s)
  obtain w ws where "py_split c s = w # ws" by (metis list.exhaust py_split_not_Nil)
  with Cons show ?case by (cases ws) auto
qed

lemma py_rstrip_Nil [simp]: "py_rstrip [] = []"
  by (simp add: py_rstrip_def)

lemma py_strip_Nil [simp]: "py_strip [] = []"
  by (simp add: py_strip_def py_lstrip_def)

lemma py_rstrip_hd: "py_rstrip s \<noteq> [] \<Longrightarrow> hd (py_rstrip s) = hd s"
proof -
  assume ne: "py_rstrip s \<noteq> []"
  have "rev s = takeWhile py_isspace (rev s) @ dropWhile py_isspace (rev s)" by simp
  then have "s = py_rstrip s @ rev (takeWhile py_isspace (rev s))"
    unfolding py_rstrip_def by (metis rev_append rev_rev_ident)
  with ne show ?thesis by (metis hd_append2)
qed

lemma py_strip_hd: "py_strip s \<noteq> [] \<Longrightarrow> \<not> py_isspace (hd (py_strip s))"
  by (metis hd_dropWhile py_lstrip_def py_rstrip_Nil py_rstrip_hd py_strip_def)

lemma py_rstrip_last: "py_rstrip s \<noteq> [] \<Longrightarrow> \<not> py_isspace (last (py_rstrip s))"
  by (simp add: last_rev hd_dropWhile py_rstrip_def)

lemma py_strip_last: "py_strip s \<noteq> [] \<Longrightarrow> \<not> py_isspace (last (py_strip s))"
  by (simp add: py_rstrip_last py_strip_def)

lemma py_strip_id:
  assumes "s \<noteq> []" and "\<not> py_isspace (hd s)" and "\<not> py_isspace (last s)"
  shows "py_strip s = s"
proof -
  from assms have l: "py_lstrip s = s" by (cases s) (auto simp: py_lstrip_def)
  obtain x xs where x: "rev s = x # xs" using assms(1) by (cases "rev s") auto
  then have "x = last s" by (metis hd_rev list.sel(1))
  with assms(3) have "dropWhile py_isspace (x # xs) = x # xs" by simp
  with x have "dropWhile py_isspace (rev s) = rev s" by (simp only:)
  with l show ?thesis by (simp add: py_strip_def py_rstrip_def)
qed

lemma py_strip_idem [simp]: "py_strip (py_strip s) = py_strip s"
proof (cases "py_strip s = []")
  case True
  then show ?thesis by simp
next
  case False
  then show ?thesis by (intro py_strip_id py_strip_hd py_strip_last)
qed

lemma set_py_strip: "set (py_strip s) \<subseteq> set s"
  unfolding py_strip_def py_rstrip_def py_lstrip_def
  by (metis set_dropWhileD set_rev subsetI)

lemma py_strip_decomp: "\<exists>a b. s = a @ py_strip s @ b \<and> (\<forall>c\<in>set a \<union> set b. py_isspace c)"
proof -
  define l where "l = dropWhile py_isspace s"
  have "s = takeWhile py_isspace s @ l" by (simp add: l_def)
  moreover have "rev l = takeWhile py_isspace (rev l) @ dropWhile py_isspace (rev l)" by simp
  then have "l = py_strip s @ rev (takeWhile py_isspace (rev l))"
    by (metis l_def py_lstrip_def py_rstrip_def py_strip_def rev_append rev_rev_ident)
  moreover have "\<forall>c\<in>set (takeWhile py_isspace s) \<union> set (rev (takeWhile py_isspace (rev l))). py_isspace c"
    by (auto dest: set_takeWhileD)
  ultimately show ?thesis by (metis append_assoc)
qed

lemma py_strip_not_blank:
  assumes "c \<in> set s" and "\<not> py_isspace c"
  shows "py_strip s \<noteq> []"
proof
  assume e: "py_strip s = []"
  obtain a b where "s = a @ py_strip s @ b" "\<forall>c\<in>set a \<union> set b. py_isspace c"
    using py_strip_decomp [of s] by blast
  with e assms show False by auto
qed

end
