(* ===== verification/PyJson.thy ===== *)
theory PyJson
  imports PyString
begin

text \<open>
  JSON values as the \<open>json\<close> module and \<open>httpx.Response.json\<close> return them, and the Python idioms
  the sources apply to them: truth values, \<open>or\<close> chains, \<open>dict.get\<close>, \<open>str\<close>. A missing key and a
  \<open>null\<close> are both \<open>None\<close> to \<open>dict.get\<close>, so both are \<open>JNull\<close> here.
\<close>

datatype json =
    JNull
  | JBool bool
  | JInt int
  | JFloat rat
  | JStr string
  | JList "json list"
  | JObj "(string \<times> json) list"

fun py_truthy :: "json \<Rightarrow> bool" where
  "py_truthy JNull = False"
| "py_truthy (JBool b) = b"
| "py_truthy (JInt n) = (n \<noteq> 0)"
| "py_truthy (JFloat x) = (x \<noteq> 0)"
| "py_truthy (JStr s) = (s \<noteq> [])"
| "py_truthy (JList xs) = (xs \<noteq> [])"
| "py_truthy (JObj kvs) = (kvs \<noteq> [])"

definition py_or :: "json \<Rightarrow> json \<Rightarrow> json" where
  "py_or a b = (if py_truthy a then a else b)"

definition is_dict :: "json \<Rightarrow> bool" where
  "is_dict v = (case v of JObj _ \<Rightarrow> True | _ \<Rightarrow> False)"

definition is_list :: "json \<Rightarrow> bool" where
  "is_list v = (case v of JList _ \<Rightarrow> True | _ \<Rightarrow> False)"

definition is_str :: "json \<Rightarrow> bool" where
  "is_str v = (case v of JStr _ \<Rightarrow> True | _ \<Rightarrow> False)"

text \<open>\<open>d.get(k)\<close> of a dict; on any other value the attribute does not exist and Python raises.\<close>

definition dict_get :: "(string \<times> json) list \<Rightarrow> string \<Rightarrow> json" where
  "dict_get kvs k = (case map_of kvs k of None \<Rightarrow> JNull | Some v \<Rightarrow> v)"

definition dict_get_default :: "(string \<times> json) list \<Rightarrow> string \<Rightarrow> json \<Rightarrow> json" where
  "dict_get_default kvs k d = (case map_of kvs k of None \<Rightarrow> d | Some v \<Rightarrow> v)"

definition json_get :: "json \<Rightarrow> string \<Rightarrow> json result" where
  "json_get v k = (case v of JObj kvs \<Rightarrow> Inr (dict_get kvs k) | _ \<Rightarrow> Inl AttributeError)"

text \<open>Decimal notation of an integer.\<close>

fun nat_str :: "nat \<Rightarrow> string" where
  "nat_str n = (if n < 10 then [char_of (48 + n)] else nat_str (n div 10) @ [char_of (48 + n mod 10)])"

declare nat_str.simps [simp del]

text \<open>Decimal notation is unique.\<close>

definition decimal_value :: "string \<Rightarrow> nat" where
  "decimal_value s = foldl (\<lambda>n c. 10 * n + (of_char c - 48)) 0 s"

lemma decimal_value_nat_str: "decimal_value (nat_str n) = n"
proof (induction n rule: nat_str.induct)
  case (1 n)
  have digit: "(of_char (char_of (48 + d) :: char) :: nat) - 48 = d" if "d < 10" for d
    using that by (simp only: of_char_of) simp
  have last: "decimal_value (s @ [ch]) = 10 * decimal_value s + (of_char ch - 48)" for s ch
    by (simp add: decimal_value_def)
  show ?case
  proof (cases "n < 10")
    case True
    then show ?thesis using digit [OF True] last [of "[]"] by (simp only: nat_str.simps [of n] if_True) (simp add: decimal_value_def)
  next
    case False
    have "n mod 10 < 10" by simp
    then show ?thesis using 1 [OF False] False digit last by (simp only: nat_str.simps [of n] if_False) simp
  qed
qed

lemma nat_str_inj: "nat_str m = nat_str n \<longleftrightarrow> m = n"
  by (metis decimal_value_nat_str)

definition int_str :: "int \<Rightarrow> string" where
  "int_str i = (if i < 0 then CHR ''-'' # nat_str (nat (- i)) else nat_str (nat i))"

text \<open>
  \<open>str(v)\<close>. The notation of floats and containers is CPython's \<open>repr\<close>, a parameter here; no
  source relies on more than strings and integers being printed as themselves.
\<close>

fun py_str :: "(json \<Rightarrow> string) \<Rightarrow> json \<Rightarrow> string" where
  "py_str rep (JStr s) = s"
| "py_str rep (JInt n) = int_str n"
| "py_str rep (JBool b) = (if b then ''True'' else ''False'')"
| "py_str rep JNull = ''None''"
| "py_str rep v = rep v"

lemma py_or_simps [simp]:
  "py_or JNull b = b"
  "py_or (JStr []) b = b"
  "s \<noteq> [] \<Longrightarrow> py_or (JStr s) b = JStr s"
  by (simp_all add: py_or_def)

lemma is_dict_simps [simp]:
  "is_dict (JObj kvs)" "\<not> is_dict JNull" "\<not> is_dict (JBool b)" "\<not> is_dict (JInt n)"
  "\<not> is_dict (JFloat x)" "\<not> is_dict (JStr s)" "\<not> is_dict (JList xs)"
  by (simp_all add: is_dict_def)

lemma is_list_simps [simp]:
  "is_list (JList xs)" "\<not> is_list JNull" "\<not> is_list (JBool b)" "\<not> is_list (JInt n)"
  "\<not> is_list (JFloat x)" "\<not> is_list (JStr s)" "\<not> is_list (JObj kvs)"
  by (simp_all add: is_list_def)

lemma is_str_simps [simp]:
  "is_str (JStr s)" "\<not> is_str JNull" "\<not> is_str (JBool b)" "\<not> is_str (JInt n)"
  "\<not> is_str (JFloat x)" "\<not> is_str (JObj kvs)" "\<not> is_str (JList xs)"
  by (simp_all add: is_str_def)

lemma json_get_simps [simp]:
  "json_get (JObj kvs) k = Inr (dict_get kvs k)"
  "\<not> is_dict v \<Longrightarrow> json_get v k = Inl AttributeError"
  by (auto simp: json_get_def is_dict_def split: json.splits)

lemma dict_get_Nil [simp]: "dict_get [] k = JNull"
  by (simp add: dict_get_def)

lemma dict_get_Cons [simp]: "dict_get ((k', v) # kvs) k = (if k = k' then v else dict_get kvs k)"
  by (simp add: dict_get_def)

end
