(* ===== verification/Config.thy ===== *)
theory Config
  imports PyJson
begin

text \<open>
  The two settings classes, \<open>meritmolt/config.py\<close> and \<open>textlake/config.py\<close>: their fields with
  the defaults of the source, the JSON-dict validator, and the database URLs built from them.
  Reading the environment is the library's part (pydantic-settings) and is not modelled: a
  settings value is an argument of everything that uses it.
\<close>

record Settings =
  mm_moltbook_app_key :: "string option"
  mm_moltbook_api_base :: string
  mm_jwt_private_keys :: "(string \<times> string) list"
  mm_jwt_public_keys :: "(string \<times> string) list"
  mm_access_ttl_seconds :: int
  mm_refresh_ttl_seconds :: int
  mm_refresh_max_active_per_agent :: int
  mm_http_timeout_seconds :: rat
  mm_http_retry_max_attempts :: int
  postgres_host :: string
  postgres_port :: int
  postgres_user :: string
  postgres_password :: string
  postgres_db :: string
  mm_use_sqlite_for_tests :: bool
  mm_meritrank_init_on_startup :: bool
  mm_rl_auth_login_limit :: int
  mm_rl_auth_refresh_limit :: int
  mm_rl_writes_burst :: int
  mm_rl_writes_sustain :: int
  mm_rl_reads_burst :: int
  mm_rl_reads_sustain :: int
  mm_rl_bucket_max_keys :: int
  mm_rl_bucket_ttl_seconds :: int
  mm_bp_global_max_concurrent :: nat
  mm_bp_reads_max_concurrent :: nat
  mm_bp_writes_max_concurrent :: nat
  mm_bp_auth_max_concurrent :: nat
  mm_bp_request_deadline_seconds :: rat

text \<open>The four concurrency bounds are \<open>nat\<close>: \<open>asyncio.Semaphore\<close> refuses a negative value.\<close>

definition default_settings :: Settings where
  "default_settings = \<lparr>
     mm_moltbook_app_key = None,
     mm_moltbook_api_base = ''https://www.moltbook.com/api/v1'',
     mm_jwt_private_keys = [],
     mm_jwt_public_keys = [],
     mm_access_ttl_seconds = 900,
     mm_refresh_ttl_seconds = 2592000,
     mm_refresh_max_active_per_agent = 5,
     mm_http_timeout_seconds = 10,
     mm_http_retry_max_attempts = 3,
     postgres_host = ''localhost'',
     postgres_port = 5432,
     postgres_user = ''postgres'',
     postgres_password = '''',
     postgres_db = ''textlake'',
     mm_use_sqlite_for_tests = False,
     mm_meritrank_init_on_startup = True,
     mm_rl_auth_login_limit = 30,
     mm_rl_auth_refresh_limit = 10,
     mm_rl_writes_burst = 20,
     mm_rl_writes_sustain = 60,
     mm_rl_reads_burst = 60,
     mm_rl_reads_sustain = 300,
     mm_rl_bucket_max_keys = 10000,
     mm_rl_bucket_ttl_seconds = 3600,
     mm_bp_global_max_concurrent = 100,
     mm_bp_reads_max_concurrent = 50,
     mm_bp_writes_max_concurrent = 30,
     mm_bp_auth_max_concurrent = 20,
     mm_bp_request_deadline_seconds = 10 \<rparr>"

record CrawlerSettings =
  mb_crawler_api_key :: string
  mb_api_base :: string
  mb_rate_limit_rpm :: int
  mb_concurrency :: int
  mb_http_timeout :: rat
  mb_http_semaphore :: nat
  mb_http_retry_max_attempts :: nat
  cs_postgres_host :: string
  cs_postgres_port :: int
  cs_postgres_user :: string
  cs_postgres_password :: string
  cs_postgres_db :: string

definition default_crawler_settings :: "string \<Rightarrow> CrawlerSettings" where
  "default_crawler_settings key = \<lparr>
     mb_crawler_api_key = key,
     mb_api_base = ''https://www.moltbook.com/api/v1'',
     mb_rate_limit_rpm = 100,
     mb_concurrency = 10,
     mb_http_timeout = 15,
     mb_http_semaphore = 10,
     mb_http_retry_max_attempts = 3,
     cs_postgres_host = ''localhost'',
     cs_postgres_port = 5432,
     cs_postgres_user = ''postgres'',
     cs_postgres_password = '''',
     cs_postgres_db = ''textlake'' \<rparr>"

section \<open>Validators\<close>

definition parse_json_dict :: "(string \<Rightarrow> json result) \<Rightarrow> (json \<Rightarrow> string) \<Rightarrow> json \<Rightarrow> json result" where
  "parse_json_dict json_loads rep v =
     (case v of
        JObj kvs \<Rightarrow> Inr (JObj (map (\<lambda>(k, x). (k, JStr (py_str rep x))) kvs))
      | JStr s \<Rightarrow> json_loads s
      | _ \<Rightarrow> Inl (ValueError ''Must be dict or JSON string''))"

definition no_quotes_in_db_name :: "string \<Rightarrow> string result" where
  "no_quotes_in_db_name v =
     (if py_in [CHR 0x22] v
      then Inl (ValueError ''postgres_db must not contain double-quote characters'')
      else Inr v)"

section \<open>\<open>urllib.parse.quote_plus\<close> and the database URLs\<close>

definition hex_upper :: "nat \<Rightarrow> char" where
  "hex_upper d = (if d < 10 then char_of (48 + d) else char_of (55 + d))"

definition percent_byte :: "nat \<Rightarrow> string" where
  "percent_byte b = [CHR ''%'', hex_upper (b div 16), hex_upper (b mod 16)]"

definition utf8_bytes :: "char \<Rightarrow> nat list" where
  "utf8_bytes c =
     (let n = of_char c :: nat in if n < 128 then [n] else [192 + n div 64, 128 + n mod 64])"

definition url_unreserved :: "char \<Rightarrow> bool" where
  "url_unreserved c =
     (let n = of_char c :: nat
      in 48 \<le> n \<and> n \<le> 57 \<or> 65 \<le> n \<and> n \<le> 90 \<or> 97 \<le> n \<and> n \<le> 122
         \<or> c \<in> {CHR ''_'', CHR ''.'', CHR ''-'', CHR ''~''})"

definition quote_plus_char :: "char \<Rightarrow> string" where
  "quote_plus_char c =
     (if c = CHR '' '' then ''+''
      else if url_unreserved c then [c]
      else concat (map percent_byte (utf8_bytes c)))"

definition quote_plus :: "string \<Rightarrow> string" where
  "quote_plus s = concat (map quote_plus_char s)"

definition pg_url :: "string \<Rightarrow> string \<Rightarrow> string \<Rightarrow> int \<Rightarrow> string \<Rightarrow> string" where
  "pg_url user pw host port db =
     ''postgresql+asyncpg://'' @ user @ '':'' @ quote_plus pw
     @ ''@'' @ host @ '':'' @ int_str port @ ''/'' @ db"

definition database_url :: "Settings \<Rightarrow> string" where
  "database_url st =
     (if mm_use_sqlite_for_tests st then ''sqlite+aiosqlite:///:memory:''
      else pg_url (postgres_user st) (postgres_password st) (postgres_host st)
             (postgres_port st) (postgres_db st))"

definition crawler_database_url :: "CrawlerSettings \<Rightarrow> string" where
  "crawler_database_url st =
     pg_url (cs_postgres_user st) (cs_postgres_password st) (cs_postgres_host st)
       (cs_postgres_port st) (cs_postgres_db st)"

text \<open>
  No character of an encoded password is a URL delimiter: every character is unreserved, a plus
  or part of a percent escape.
\<close>

definition url_safe :: "char \<Rightarrow> bool" where
  "url_safe c \<longleftrightarrow> url_unreserved c \<or> c = CHR ''+'' \<or> c = CHR ''%''"

lemma of_char_less: "(of_char c :: nat) < 256"
  using of_char_mod_256 [of c, where 'a = nat] by (metis mod_less_divisor zero_less_numeral)

lemma hex_upper_safe: "d < 16 \<Longrightarrow> url_safe (hex_upper d)"
  by (auto simp: url_safe_def url_unreserved_def hex_upper_def Let_def)

lemma percent_byte_safe: "b < 256 \<Longrightarrow> \<forall>c\<in>set (percent_byte b). url_safe c"
proof -
  assume "b < 256"
  then have "url_safe (hex_upper (b div 16))" and "url_safe (hex_upper (b mod 16))"
    by (simp_all add: hex_upper_safe less_mult_imp_div_less)
  then show ?thesis by (simp add: percent_byte_def url_safe_def)
qed

lemma utf8_bytes_less: "\<forall>b\<in>set (utf8_bytes c). b < 256"
proof -
  have "(of_char c :: nat) < 256" by (rule of_char_less)
  then have "192 + (of_char c :: nat) div 64 < 256" by linarith
  then show ?thesis by (auto simp: utf8_bytes_def Let_def)
qed

lemma quote_plus_char_safe: "\<forall>d\<in>set (quote_plus_char c). url_safe d"
  using percent_byte_safe utf8_bytes_less
  by (auto simp: quote_plus_char_def url_safe_def)

lemma quote_plus_safe: "c \<in> set (quote_plus s) \<Longrightarrow> url_safe c"
  using quote_plus_char_safe by (auto simp: quote_plus_def)

lemma url_safe_not_delim:
  "url_safe c \<Longrightarrow> c \<noteq> CHR ''@'' \<and> c \<noteq> CHR '':'' \<and> c \<noteq> CHR ''/'' \<and> c \<noteq> CHR ''?'' \<and> c \<noteq> CHR ''#''"
  by (auto simp: url_safe_def url_unreserved_def Let_def)

end
