(* ===== verification/PyIp.thy ===== *)
theory PyIp
  imports PyString
begin

text \<open>
  \<open>ipaddress.ip_address\<close> of the standard library as a validity check: which strings it accepts.
  The sources use it only to decide whether the first hop of \<open>X-Forwarded-For\<close> is an address.
\<close>

definition is_digit :: "char \<Rightarrow> bool" where
  "is_digit c = (let n = of_char c :: nat in 48 \<le> n \<and> n \<le> 57)"

definition is_hex_digit :: "char \<Rightarrow> bool" where
  "is_hex_digit c =
     (let n = of_char c :: nat
      in 48 \<le> n \<and> n \<le> 57 \<or> 65 \<le> n \<and> n \<le> 70 \<or> 97 \<le> n \<and> n \<le> 102)"

definition dec_value :: "string \<Rightarrow> nat" where
  "dec_value s = foldl (\<lambda>a c. 10 * a + (of_char c - 48)) 0 s"

definition ipv4_octet :: "string \<Rightarrow> bool" where
  "ipv4_octet s \<longleftrightarrow>
     s \<noteq> [] \<and> list_all is_digit s \<and> length s \<le> 3 \<and> \<not> (s \<noteq> ''0'' \<and> hd s = CHR ''0'')
     \<and> dec_value s \<le> 255"

definition ipv4_valid :: "string \<Rightarrow> bool" where
  "ipv4_valid s =
     (let octets = py_split (CHR ''.'') s in length octets = 4 \<and> list_all ipv4_octet octets)"

definition hextet :: "string \<Rightarrow> bool" where
  "hextet s \<longleftrightarrow> s \<noteq> [] \<and> list_all is_hex_digit s \<and> length s \<le> 4"

text \<open>The indices of the empty inner parts, those that stand for \<open>::\<close>.\<close>

definition skip_indices :: "string list \<Rightarrow> nat list" where
  "skip_indices parts = filter (\<lambda>i. parts ! i = []) [1 ..< length parts - 1]"

definition ipv6_parts :: "string list \<Rightarrow> bool" where
  "ipv6_parts parts =
     (length parts \<le> 9 \<and>
      (case skip_indices parts of
         [] \<Rightarrow> length parts = 8 \<and> list_all hextet parts
       | [i] \<Rightarrow>
           (let lo = length parts - i - 1;
                hi' = (if hd parts = [] then i - 1 else i);
                lo' = (if last parts = [] then lo - 1 else lo)
            in (hd parts = [] \<longrightarrow> hi' = 0) \<and> (last parts = [] \<longrightarrow> lo' = 0)
               \<and> hi' + lo' < 8
               \<and> list_all hextet (take hi' parts)
               \<and> list_all hextet (drop (length parts - lo') parts))
       | _ \<Rightarrow> False))"

definition ipv6_valid :: "string \<Rightarrow> bool" where
  "ipv6_valid s =
     (let addr = takeWhile (\<lambda>c. c \<noteq> CHR ''%'') s;
          scope = dropWhile (\<lambda>c. c \<noteq> CHR ''%'') s;
          parts = py_split (CHR '':'') addr
      in CHR ''/'' \<notin> set s
         \<and> (scope = [] \<or> tl scope \<noteq> [] \<and> CHR ''%'' \<notin> set (tl scope))
         \<and> 3 \<le> length parts
         \<and> (if CHR ''.'' \<in> set (last parts)
            then ipv4_valid (last parts) \<and> ipv6_parts (butlast parts @ [''0'', ''0''])
            else ipv6_parts parts))"

definition ip_address_valid :: "string \<Rightarrow> bool" where
  "ip_address_valid s \<longleftrightarrow> ipv4_valid s \<or> ipv6_valid s"

lemma ipv4_valid_nonempty: "ipv4_valid s \<Longrightarrow> s \<noteq> []"
  by (auto simp: ipv4_valid_def)

lemma ipv6_valid_nonempty: "ipv6_valid s \<Longrightarrow> s \<noteq> []"
  by (auto simp: ipv6_valid_def)

lemma ip_address_valid_nonempty: "ip_address_valid s \<Longrightarrow> s \<noteq> []"
  using ipv4_valid_nonempty ipv6_valid_nonempty by (auto simp: ip_address_valid_def)

end
