(* ===== verification/Asgi.thy ===== *)
theory Asgi
  imports Config PyIp
begin

text \<open>
  The ASGI interface as the two middlewares use it: the connection scope, the messages given to
  \<open>send\<close>, and \<open>meritmolt/middleware_utils.py\<close>. A response body is kept as the JSON value whose
  text is sent.
\<close>

record scope =
  sc_type :: string
  sc_path :: "string option"
  sc_headers :: "(string \<times> string) list"
  sc_client :: "string option"
  sc_request_id :: "string option"

text \<open>
  \<open>sc_client\<close> is the host of \<open>scope["client"]\<close>; \<open>sc_request_id\<close> is the entry
  \<open>scope["state"]["request_id"]\<close>. \<open>scope.get("path") or "/"\<close>:
\<close>

definition scope_path :: "scope \<Rightarrow> string" where
  "scope_path sc = (case sc_path sc of None \<Rightarrow> ''/'' | Some p \<Rightarrow> if p = [] then ''/'' else p)"

text \<open>The first header with a given (lower-case) name; the loops of the sources stop at it.\<close>

definition find_header :: "scope \<Rightarrow> string \<Rightarrow> string option" where
  "find_header sc name =
     map_option snd (List.find (\<lambda>(n, v). py_lower n = name) (sc_headers sc))"

datatype asgi_message =
    ResponseStart int "(string \<times> string) list"
  | ResponseBody json

definition send_json_response :: "int \<Rightarrow> (string \<times> json) list \<Rightarrow> rat \<Rightarrow> asgi_message list" where
  "send_json_response status body retry_after =
     (let retry_after_int = max 1 \<lceil>retry_after\<rceil>
      in [ResponseStart status
            [(''content-type'', ''application/json''), (''retry-after'', int_str retry_after_int)],
          ResponseBody (JObj body)])"

lemma scope_path_nonempty: "scope_path sc \<noteq> []"
  by (simp add: scope_path_def split: option.split)

end
