(* ===== verification/JwtLib.thy ===== *)
theory JwtLib
  imports Config
begin

text \<open>
  The part of PyJWT the sources call, as a record of functions: the library's code is not in the
  repository, so it is a parameter of every definition that uses it. \<open>jl_header\<close> is
  \<open>jwt.get_unverified_header\<close>; \<open>jl_encode\<close> is \<open>jwt.encode\<close> (payload, key, algorithm, headers);
  \<open>jl_decode\<close> is \<open>jwt.decode\<close> (token, key, algorithms, audience, issuer, required claims) at the
  time of its last argument, which it compares with \<open>exp\<close>, \<open>nbf\<close> and \<open>iat\<close>.
\<close>

type_synonym claims = "(string \<times> json) list"

record jwt_lib =
  jl_header :: "string \<Rightarrow> claims result"
  jl_encode :: "claims \<Rightarrow> string \<Rightarrow> string \<Rightarrow> claims \<Rightarrow> string"
  jl_decode :: "string \<Rightarrow> string \<Rightarrow> string list \<Rightarrow> string \<Rightarrow> string \<Rightarrow> string list \<Rightarrow> seconds \<Rightarrow> claims result"

text \<open>PyJWT's exception classes: which are \<open>InvalidTokenError\<close>, which \<open>PyJWTError\<close>.\<close>

fun is_invalid_token_error :: "py_exn \<Rightarrow> bool" where
  "is_invalid_token_error JwtDecodeError = True"
| "is_invalid_token_error JwtExpiredSignatureError = True"
| "is_invalid_token_error JwtInvalidTokenError = True"
| "is_invalid_token_error _ = False"

definition is_pyjwt_error :: "py_exn \<Rightarrow> bool" where
  "is_pyjwt_error e \<longleftrightarrow> is_invalid_token_error e \<or> e = JwtInvalidKeyError"

text \<open>
  \<open>kid = header.get("kid")\<close> followed by \<open>if not kid or kid not in keys\<close>: the key for a \<open>kid\<close>,
  or nothing. A \<open>kid\<close> that is a list or a dict is not hashable and raises.
\<close>

definition select_key :: "claims \<Rightarrow> (string \<times> string) list \<Rightarrow> (string option) result" where
  "select_key header keys =
     (let kid = dict_get header ''kid''
      in if \<not> py_truthy kid then Inr None
         else case kid of
                JStr k \<Rightarrow> Inr (map_of keys k)
              | JList _ \<Rightarrow> Inl TypeError
              | JObj _ \<Rightarrow> Inl TypeError
              | _ \<Rightarrow> Inr None)"

end
