(* ===== verification/RateLimit.thy ===== *)
theory RateLimit
  imports Asgi JwtLib
begin

text \<open>
  \<open>meritmolt/ratelimit.py\<close>: path classification, the token bucket, the LRU store of buckets with
  a time to live, the choice of the limiting key, and the middleware. Every call of
  \<open>time.monotonic\<close> is an argument. The bucket that \<open>get_or_create\<close> returns is the object held in
  the store, so the middleware writes the updated bucket back (\<open>store_put\<close>).
\<close>

section \<open>Route groups\<close>

datatype RouteGroup = AUTH_LOGIN | AUTH_REFRESH | WRITES | READS | EXEMPT

fun group_value :: "RouteGroup \<Rightarrow> string" where
  "group_value AUTH_LOGIN = ''auth_login''"
| "group_value AUTH_REFRESH = ''auth_refresh''"
| "group_value WRITES = ''writes''"
| "group_value READS = ''reads''"
| "group_value EXEMPT = ''exempt''"

definition classify :: "string \<Rightarrow> RouteGroup" where
  "classify path =
     (if path = ''/'' \<or> path = ''/health'' \<or> path = ''/db'' then EXEMPT
      else if path = ''/v1/auth/login'' then AUTH_LOGIN
      else if path \<in> {''/v1/auth/refresh'', ''/v1/auth/logout''} then AUTH_REFRESH
      else if path = ''/v1/auth/me'' \<or> py_startswith path ''/v1/users/'' then READS
      else if py_startswith path ''/v1/events/'' then WRITES
      else if py_startswith path ''/v1/auth/'' then AUTH_REFRESH
      else EXEMPT)"

section \<open>Token bucket\<close>

text \<open>The floats of the source are rationals here: what holds at the very moment at which a whole token is there may
  fail for doubles.\<close>

record TokenBucket =
  max_tokens :: rat
  refill_rate :: rat
  tokens :: rat
  last_refill :: seconds

definition post_init :: "TokenBucket \<Rightarrow> TokenBucket" where
  "post_init b = (if tokens b = 0 \<and> max_tokens b > 0 then b\<lparr>tokens := max_tokens b\<rparr> else b)"

definition new_bucket :: "rat \<Rightarrow> rat \<Rightarrow> seconds \<Rightarrow> TokenBucket" where
  "new_bucket burst rate now =
     post_init \<lparr>max_tokens = burst, refill_rate = rate, tokens = 0, last_refill = now\<rparr>"

definition refill :: "seconds \<Rightarrow> TokenBucket \<Rightarrow> TokenBucket" where
  "refill now b =
     (let elapsed = now - last_refill b
      in b\<lparr>tokens := min (max_tokens b) (tokens b + elapsed * refill_rate b), last_refill := now\<rparr>)"

definition bucket_try_acquire :: "seconds \<Rightarrow> TokenBucket \<Rightarrow> (bool \<times> seconds) \<times> TokenBucket" where
  "bucket_try_acquire now b0 =
     (let b = refill now b0
      in if tokens b \<ge> 1 then ((True, 0), b\<lparr>tokens := tokens b - 1\<rparr>)
         else if refill_rate b \<le> 0 then ((False, 60), b)
         else ((False, (1 - tokens b) / refill_rate b), b))"

section \<open>Bucket store\<close>

record BucketStore =
  store_max_keys :: int
  store_ttl :: seconds
  store_order :: "(string \<times> TokenBucket \<times> seconds) list"

text \<open>The \<open>OrderedDict\<close> is the list of its items, the oldest first.\<close>

definition new_store :: "int \<Rightarrow> seconds \<Rightarrow> BucketStore" where
  "new_store max_keys ttl = \<lparr>store_max_keys = max_keys, store_ttl = ttl, store_order = []\<rparr>"

definition del_key :: "string \<Rightarrow> (string \<times> 'v) list \<Rightarrow> (string \<times> 'v) list" where
  "del_key key order = filter (\<lambda>(k, _). k \<noteq> key) order"

fun evict :: "int \<Rightarrow> 'v list \<Rightarrow> 'v list" where
  "evict max_keys [] = []"
| "evict max_keys (x # xs) =
     (if int (length (x # xs)) \<ge> max_keys then evict max_keys xs else x # xs)"

definition get_or_create ::
  "seconds \<Rightarrow> seconds \<Rightarrow> string \<Rightarrow> rat \<Rightarrow> rat \<Rightarrow> BucketStore \<Rightarrow> TokenBucket \<times> BucketStore" where
  "get_or_create now now_bucket key burst rate st =
     (let create = (\<lambda>order.
            let bucket = new_bucket burst rate now_bucket
            in (bucket, st\<lparr>store_order := evict (store_max_keys st) order @ [(key, bucket, now)]\<rparr>))
      in case map_of (store_order st) key of
           Some (bucket, created) \<Rightarrow>
             if now - created > store_ttl st then create (del_key key (store_order st))
             else (bucket, st\<lparr>store_order := del_key key (store_order st) @ [(key, bucket, created)]\<rparr>)
         | None \<Rightarrow> create (store_order st))"

definition store_put :: "string \<Rightarrow> TokenBucket \<Rightarrow> BucketStore \<Rightarrow> BucketStore" where
  "store_put key bucket st =
     st\<lparr>store_order := map (\<lambda>(k, b, c). (k, if k = key then bucket else b, c)) (store_order st)\<rparr>"

section \<open>Keys\<close>

definition jwt_issuer :: string where "jwt_issuer = ''meritmolt''"
definition jwt_audience :: string where "jwt_audience = ''meritmolt-api''"
definition jwt_algorithm :: string where "jwt_algorithm = ''ES256''"

definition required_claims :: "string list" where
  "required_claims = [''exp'', ''iat'', ''nbf'', ''sub'']"

definition extract_jwt_sub ::
  "jwt_lib \<Rightarrow> (json \<Rightarrow> string) \<Rightarrow> seconds \<Rightarrow> string \<Rightarrow> Settings \<Rightarrow> (string option) result" where
  "extract_jwt_sub lib rep now token settings =
     (let keys = mm_jwt_public_keys settings
      in if keys = [] then Inr None
         else case bind_res (jl_header lib token) (\<lambda>h. select_key h keys) of
                Inl e \<Rightarrow> if e = JwtDecodeError then Inr None else Inl e
              | Inr None \<Rightarrow> Inr None
              | Inr (Some public_pem) \<Rightarrow>
                  (case jl_decode lib token public_pem [jwt_algorithm] jwt_audience jwt_issuer
                          required_claims now of
                     Inl e \<Rightarrow> if is_pyjwt_error e then Inr None else Inl e
                   | Inr payload \<Rightarrow>
                       (case dict_get payload ''sub'' of
                          JNull \<Rightarrow> Inr None
                        | sub \<Rightarrow> Inr (Some (py_str rep sub)))))"

definition extract_client_ip_from_scope :: "scope \<Rightarrow> string" where
  "extract_client_ip_from_scope sc =
     (let fallback = (case sc_client sc of Some host \<Rightarrow> host | None \<Rightarrow> ''unknown'')
      in case map_option py_strip (find_header sc ''x-forwarded-for'') of
           None \<Rightarrow> fallback
         | Some xff \<Rightarrow>
             if xff = [] then fallback
             else let first = py_strip (hd (py_split (CHR '','') xff))
                  in if ip_address_valid first then first else fallback)"

definition get_bearer_token_from_scope :: "scope \<Rightarrow> string option" where
  "get_bearer_token_from_scope sc =
     (case map_option py_strip (find_header sc ''authorization'') of
        None \<Rightarrow> None
      | Some value \<Rightarrow>
          if py_startswith (py_lower value) ''bearer '' then Some (py_strip (drop 7 value)) else None)"

section \<open>Middleware\<close>

definition build_stores :: "Settings \<Rightarrow> (RouteGroup \<rightharpoonup> BucketStore)" where
  "build_stores settings =
     (let st = new_store (mm_rl_bucket_max_keys settings) (of_int (mm_rl_bucket_ttl_seconds settings))
      in [AUTH_LOGIN \<mapsto> st, AUTH_REFRESH \<mapsto> st, WRITES \<mapsto> st, READS \<mapsto> st])"

fun get_bucket_params :: "RouteGroup \<Rightarrow> Settings \<Rightarrow> rat \<times> rat" where
  "get_bucket_params AUTH_LOGIN s =
     (of_int (mm_rl_auth_login_limit s), of_int (mm_rl_auth_login_limit s) / 3600)"
| "get_bucket_params AUTH_REFRESH s =
     (of_int (mm_rl_auth_refresh_limit s), of_int (mm_rl_auth_refresh_limit s) / 60)"
| "get_bucket_params WRITES s =
     (of_int (mm_rl_writes_burst s), of_int (mm_rl_writes_sustain s) / 60)"
| "get_bucket_params READS s =
     (of_int (mm_rl_reads_burst s), of_int (mm_rl_reads_sustain s) / 60)"
| "get_bucket_params EXEMPT s = (0, 0)"

definition rate_limit_key ::
  "jwt_lib \<Rightarrow> (json \<Rightarrow> string) \<Rightarrow> seconds \<Rightarrow> Settings \<Rightarrow> RouteGroup \<Rightarrow> scope \<Rightarrow> string result" where
  "rate_limit_key lib rep now settings grp sc =
     (if grp \<in> {AUTH_LOGIN, AUTH_REFRESH} then Inr (extract_client_ip_from_scope sc)
      else
        bind_res
          (case get_bearer_token_from_scope sc of
             None \<Rightarrow> Inr None
           | Some bearer \<Rightarrow>
               if bearer = [] then Inr None else extract_jwt_sub lib rep now bearer settings)
          (\<lambda>sub. Inr (case sub of
                       None \<Rightarrow> extract_client_ip_from_scope sc
                     | Some s \<Rightarrow> if s = [] then extract_client_ip_from_scope sc else s)))"

datatype decision = Forward | Respond "asgi_message list"

definition rate_limited_body :: "RouteGroup \<Rightarrow> rat \<Rightarrow> string \<Rightarrow> (string \<times> json) list" where
  "rate_limited_body grp retry_after request_id =
     [(''error'', JStr ''rate_limited''),
      (''detail'', JStr (''Rate limit exceeded for route group '' @ [CHR 0x27] @ group_value grp @ [CHR 0x27])),
      (''retry_after'', JFloat retry_after),
      (''request_id'', JStr request_id)]"

text \<open>
  One request. The state is the dictionary of stores. The clock readings are, in order, that of
  \<open>get_or_create\<close>, of a new bucket's \<open>last_refill\<close>, and of \<open>try_acquire\<close>; \<open>wall\<close> is the time the JWT
  library compares with the claims.
\<close>

record rl_clock =
  clk_store :: seconds
  clk_bucket :: seconds
  clk_acquire :: seconds
  clk_wall :: seconds

definition rate_limit_call ::
  "jwt_lib \<Rightarrow> (json \<Rightarrow> string) \<Rightarrow> Settings \<Rightarrow> rl_clock \<Rightarrow> scope
   \<Rightarrow> (RouteGroup \<rightharpoonup> BucketStore, decision) action" where
  "rate_limit_call lib rep settings clk sc stores =
     (if sc_type sc \<noteq> ''http'' then (Inr Forward, stores)
      else
        let grp = classify (scope_path sc)
        in if grp = EXEMPT then (Inr Forward, stores)
           else
             let request_id = (case sc_request_id sc of None \<Rightarrow> [] | Some r \<Rightarrow> r)
             in case rate_limit_key lib rep (clk_wall clk) settings grp sc of
                  Inl e \<Rightarrow> (Inl e, stores)
                | Inr key \<Rightarrow>
                    (case stores grp of
                       None \<Rightarrow> (Inl KeyError, stores)
                     | Some store \<Rightarrow>
                         let (burst, rate) = get_bucket_params grp settings;
                             (bucket, store1) =
                               get_or_create (clk_store clk) (clk_bucket clk) key burst rate store;
                             ((allowed, retry_after), bucket1) =
                               bucket_try_acquire (clk_acquire clk) bucket;
                             stores1 = stores(grp \<mapsto> store_put key bucket1 store1)
                         in if allowed then (Inr Forward, stores1)
                            else (Inr (Respond (send_json_response 429
                                    (rate_limited_body grp retry_after request_id) retry_after)),
                                  stores1)))"


section \<open>The limiter contract\<close>

text \<open>
  What a client of a limiter relies on: calls never push the level above the capacity or below
  zero, the clock is recorded, an admitted call pays one token, and between calls the level grows
  by at most the rate. The window bound is proved once from these laws.
\<close>

locale limiter =
  fixes acquire :: "seconds \<Rightarrow> 'b \<Rightarrow> (bool \<times> seconds) \<times> 'b"
    and level :: "'b \<Rightarrow> rat" and cap :: "'b \<Rightarrow> rat" and rate :: "'b \<Rightarrow> rat"
    and stamp :: "'b \<Rightarrow> seconds" and inv :: "'b \<Rightarrow> bool"
  assumes acquire_inv: "inv b \<Longrightarrow> stamp b \<le> now \<Longrightarrow> inv (snd (acquire now b))"
    and acquire_stamp: "stamp (snd (acquire now b)) = now"
    and acquire_cap: "cap (snd (acquire now b)) = cap b"
    and acquire_rate: "rate (snd (acquire now b)) = rate b"
    and acquire_pays: "inv b \<Longrightarrow> stamp b \<le> now \<Longrightarrow>
          level (snd (acquire now b)) + (if fst (fst (acquire now b)) then 1 else 0)
            \<le> min (cap b) (level b + rate b * (now - stamp b))"
    and level_nonneg: "inv b \<Longrightarrow> 0 \<le> level b"
    and rate_nonneg: "inv b \<Longrightarrow> 0 \<le> rate b"
begin

fun admissions :: "seconds list \<Rightarrow> 'b \<Rightarrow> nat" where
  "admissions [] b = 0"
| "admissions (t # ts) b =
     (if fst (fst (acquire t b)) then 1 else 0) + admissions ts (snd (acquire t b))"

lemma admissions_level:
  "inv b \<Longrightarrow> sorted (stamp b # ts) \<Longrightarrow>
   of_nat (admissions ts b) \<le> level b + rate b * (last (stamp b # ts) - stamp b)"
proof (induction ts arbitrary: b)
  case Nil
  then show ?case by (simp add: level_nonneg)
next
  case (Cons t ts)
  let ?b = "snd (acquire t b)"
  let ?l = "last (t # ts)"
  have le: "stamp b \<le> t" and s: "sorted (stamp ?b # ts)"
    using Cons.prems by (auto simp: acquire_stamp)
  have "of_nat (admissions ts ?b) \<le> level ?b + rate b * (?l - t)"
    using Cons.IH [OF acquire_inv [OF Cons.prems(1) le] s] by (simp add: acquire_stamp acquire_rate)
  moreover have "level ?b + (if fst (fst (acquire t b)) then 1 else 0)
      \<le> level b + rate b * (t - stamp b)"
    using acquire_pays [OF Cons.prems(1) le] by simp
  moreover have "rate b * (?l - stamp b) = rate b * (?l - t) + rate b * (t - stamp b)"
    by (simp add: algebra_simps)
  ultimately show ?case by (simp split: if_splits)
qed

lemma admissions_window:
  assumes "inv b" and "sorted (stamp b # t # ts)"
  shows "of_nat (admissions (t # ts) b) \<le> cap b + rate b * (last (t # ts) - t)"
proof -
  let ?b = "snd (acquire t b)"
  have le: "stamp b \<le> t" and s: "sorted (stamp ?b # ts)"
    using assms(2) by (auto simp: acquire_stamp)
  have "of_nat (admissions ts ?b) \<le> level ?b + rate b * (last (t # ts) - t)"
    using admissions_level [OF acquire_inv [OF assms(1) le] s]
    by (simp add: acquire_stamp acquire_rate)
  moreover have "level ?b + (if fst (fst (acquire t b)) then 1 else 0) \<le> cap b"
    using acquire_pays [OF assms(1) le] by simp
  ultimately show ?thesis by (simp split: if_splits)
qed

end

section \<open>The token bucket meets the contract\<close>

definition bucket_ok :: "TokenBucket \<Rightarrow> bool" where
  "bucket_ok b \<longleftrightarrow> 0 \<le> tokens b \<and> tokens b \<le> max_tokens b \<and> 0 \<le> refill_rate b"

lemma bucket_okD:
  "bucket_ok b \<Longrightarrow> 0 \<le> tokens b"
  "bucket_ok b \<Longrightarrow> tokens b \<le> max_tokens b"
  "bucket_ok b \<Longrightarrow> 0 \<le> refill_rate b"
  by (simp_all add: bucket_ok_def)

lemma bucket_try_acquire_fields [simp]:
  "max_tokens (snd (bucket_try_acquire now b)) = max_tokens b"
  "refill_rate (snd (bucket_try_acquire now b)) = refill_rate b"
  "last_refill (snd (bucket_try_acquire now b)) = now"
  by (simp_all add: bucket_try_acquire_def refill_def Let_def)

lemma bucket_try_acquire_tokens:
  "tokens (snd (bucket_try_acquire now b)) + (if fst (fst (bucket_try_acquire now b)) then 1 else 0)
     = min (max_tokens b) (tokens b + refill_rate b * (now - last_refill b))"
  by (simp add: bucket_try_acquire_def refill_def Let_def mult.commute)

lemma refill_ok: "bucket_ok b \<Longrightarrow> last_refill b \<le> now \<Longrightarrow> bucket_ok (refill now b)"
  by (auto simp: bucket_ok_def refill_def Let_def)

lemma bucket_try_acquire_ok:
  "bucket_ok b \<Longrightarrow> last_refill b \<le> now \<Longrightarrow> bucket_ok (snd (bucket_try_acquire now b))"
  using refill_ok [of b now] by (auto simp: bucket_ok_def bucket_try_acquire_def Let_def)

lemma new_bucket_ok: "0 \<le> burst \<Longrightarrow> 0 \<le> rate \<Longrightarrow> bucket_ok (new_bucket burst rate now)"
  by (simp add: bucket_ok_def new_bucket_def post_init_def)

lemma new_bucket_fields [simp]:
  "max_tokens (new_bucket burst rate now) = burst"
  "refill_rate (new_bucket burst rate now) = rate"
  "last_refill (new_bucket burst rate now) = now"
  "0 \<le> burst \<Longrightarrow> tokens (new_bucket burst rate now) = burst"
  by (simp_all add: new_bucket_def post_init_def)

interpretation tb: limiter bucket_try_acquire tokens max_tokens refill_rate last_refill bucket_ok
  by unfold_locales
    (simp_all add: bucket_try_acquire_ok bucket_try_acquire_tokens bucket_okD)

fun acquire_all :: "seconds list \<Rightarrow> TokenBucket \<Rightarrow> bool list" where
  "acquire_all [] b = []"
| "acquire_all (t # ts) b =
     fst (fst (bucket_try_acquire t b)) # acquire_all ts (snd (bucket_try_acquire t b))"

lemma count_acquire_all: "length (filter id (acquire_all ts b)) = tb.admissions ts b"
  by (induction ts arbitrary: b) auto

text \<open>C33: token bucket window bound. Whatever happened before, the calls of \<open>try_acquire\<close> between
  two moments admit at most the burst plus the refill rate times the time between them.\<close>

theorem token_bucket_window_bound:
  assumes "bucket_ok b" and "sorted (last_refill b # t # ts)"
  shows "of_nat (length (filter id (acquire_all (t # ts) b)))
           \<le> max_tokens b + refill_rate b * (last (t # ts) - t)"
  unfolding count_acquire_all using assms by (rule tb.admissions_window)

theorem token_bucket_window_bound_witness:
  "of_nat (length (filter id (acquire_all [0, 0, 0, 1, 2] (new_bucket 2 1 0))))
     \<le> (2::rat) + 1 * (2 - 0)"
proof -
  have ok: "bucket_ok (new_bucket 2 1 0)" by (simp add: new_bucket_ok)
  have "sorted [last_refill (new_bucket 2 1 0), 0, 0, 0, 1, 2]" by simp
  from token_bucket_window_bound [OF ok this] show ?thesis by simp
qed

text \<open>In exact arithmetic \<open>retry_after\<close> is the least delay: after a refusal that reports \<open>r\<close> seconds, a call is refused at
  every moment before \<open>r\<close> seconds have passed and admitted from then on (when the capacity allows
  a whole token). The doubles of the source may round the refilled amount to just below one at that very moment.\<close>

theorem retry_after_exact:
  assumes "fst (bucket_try_acquire now b) = (False, r)"
    and "0 < refill_rate b" and "1 \<le> max_tokens b" and "now \<le> later"
  shows "0 < r \<and>
         (fst (fst (bucket_try_acquire later (snd (bucket_try_acquire now b)))) \<longleftrightarrow> now + r \<le> later)"
proof -
  let ?b = "refill now b"
  have t: "tokens ?b < 1" and r: "r = (1 - tokens ?b) / refill_rate b"
    and b: "snd (bucket_try_acquire now b) = ?b"
    using assms(1,2)
    by (auto simp: bucket_try_acquire_def Let_def refill_def split: if_splits)
  have "fst (fst (bucket_try_acquire later ?b))
      \<longleftrightarrow> 1 \<le> min (max_tokens b) (tokens ?b + (later - now) * refill_rate b)"
    by (simp add: bucket_try_acquire_def refill_def Let_def)
  also have "\<dots> \<longleftrightarrow> 1 - tokens ?b \<le> (later - now) * refill_rate b"
    using assms(3) by auto
  also have "\<dots> \<longleftrightarrow> r \<le> later - now"
    using assms(2) by (simp add: r pos_divide_le_eq)
  finally show ?thesis using t assms(2) by (auto simp: b r)
qed

theorem retry_after_exact_witness:
  "0 < (1/2::rat) \<and>
   (fst (fst (bucket_try_acquire 3 (snd (bucket_try_acquire 2
      \<lparr>max_tokens = 4, refill_rate = 1, tokens = 0, last_refill = 3/2\<rparr>)))) \<longleftrightarrow> 2 + 1/2 \<le> (3::rat))"
  by (rule retry_after_exact) (simp_all add: bucket_try_acquire_def refill_def Let_def)


section \<open>The bucket store\<close>

text \<open>One rate-limited request against a store: look the bucket up, acquire, write it back.\<close>

record access =
  acc_store :: seconds
  acc_bucket :: seconds
  acc_acquire :: seconds
  acc_key :: string
  acc_burst :: rat
  acc_rate :: rat

definition store_access :: "access \<Rightarrow> BucketStore \<Rightarrow> (bool \<times> seconds) \<times> BucketStore" where
  "store_access a st =
     (let (b, st1) = get_or_create (acc_store a) (acc_bucket a) (acc_key a) (acc_burst a) (acc_rate a) st;
          (r, b1) = bucket_try_acquire (acc_acquire a) b
      in (r, store_put (acc_key a) b1 st1))"

fun store_run :: "access list \<Rightarrow> BucketStore \<Rightarrow> bool list \<times> BucketStore" where
  "store_run [] st = ([], st)"
| "store_run (a # as) st =
     (let (r, st1) = store_access a st; (rs, st2) = store_run as st1 in (fst r # rs, st2))"

definition store_inv :: "BucketStore \<Rightarrow> bool" where
  "store_inv st \<longleftrightarrow>
     distinct (map fst (store_order st)) \<and> int (length (store_order st)) \<le> max 1 (store_max_keys st)"

lemma evict_suffix: "\<exists>pre. xs = pre @ evict m xs"
  by (induction xs) (auto intro: exI [of _ "[]"], metis append_Cons)

lemma evict_length: "evict m xs = [] \<or> int (length (evict m xs)) < m"
  by (induction xs) auto

lemma evict_keeps: "int (length ys) < m \<Longrightarrow> \<exists>pre'. evict m (pre @ ys) = pre' @ ys"
proof (induction pre)
  case Nil
  then show ?case by (cases ys) auto
next
  case (Cons x pre)
  show ?case
  proof (cases "int (length ((x # pre) @ ys)) \<ge> m")
    case True
    then have "evict m ((x # pre) @ ys) = evict m (pre @ ys)" by simp
    with Cons show ?thesis by simp
  next
    case False
    then have "evict m ((x # pre) @ ys) = (x # pre) @ ys" by simp
    then show ?thesis by blast
  qed
qed

lemma del_key_append: "del_key k (xs @ ys) = del_key k xs @ del_key k ys"
  by (simp add: del_key_def)

lemma del_key_Cons_other: "k' \<noteq> k \<Longrightarrow> del_key k ((k', v) # xs) = (k', v) # del_key k xs"
  by (simp add: del_key_def)

lemma keys_del_key: "fst ` set (del_key k xs) = fst ` set xs - {k}"
  by (force simp: del_key_def)

lemma distinct_del_key: "distinct (map fst xs) \<Longrightarrow> distinct (map fst (del_key k xs))"
  unfolding del_key_def by (rule distinct_map_filter)

lemma length_del_key_le: "length (del_key k xs) \<le> length xs"
  by (simp add: del_key_def)

lemma length_del_key_less: "k \<in> fst ` set xs \<Longrightarrow> length (del_key k xs) < length xs"
  unfolding del_key_def by (auto intro: length_filter_less)

lemma get_or_create_cases:
  obtains
    (hit) b c where "map_of (store_order st) key = Some (b, c)" "now - c \<le> store_ttl st"
      "get_or_create now nowb key burst rate st =
         (b, st\<lparr>store_order := del_key key (store_order st) @ [(key, b, c)]\<rparr>)"
  | (fresh) order where "order = store_order st \<or> order = del_key key (store_order st)"
      "key \<notin> fst ` set order"
      "get_or_create now nowb key burst rate st =
         (new_bucket burst rate nowb,
          st\<lparr>store_order := evict (store_max_keys st) order @ [(key, new_bucket burst rate nowb, now)]\<rparr>)"
proof (cases "map_of (store_order st) key")
  case None
  then have "key \<notin> fst ` set (store_order st)" by (simp add: map_of_eq_None_iff)
  with None fresh [of "store_order st"] show ?thesis
    by (simp add: get_or_create_def Let_def)
next
  case (Some bc)
  obtain b c where bc: "bc = (b, c)" by (cases bc)
  show ?thesis
  proof (cases "now - c > store_ttl st")
    case True
    have "key \<notin> fst ` set (del_key key (store_order st))" by (simp add: keys_del_key)
    with True Some bc fresh [of "del_key key (store_order st)"] show ?thesis
      by (simp add: get_or_create_def Let_def)
  next
    case False
    with Some bc hit [of b c] show ?thesis by (simp add: get_or_create_def Let_def)
  qed
qed

lemma store_put_keys [simp]: "map fst (store_order (store_put k b st)) = map fst (store_order st)"
  by (simp add: store_put_def case_prod_beta comp_def)

lemma store_put_max_keys [simp]: "store_max_keys (store_put k b st) = store_max_keys st"
  by (simp add: store_put_def)

lemma store_put_length [simp]: "length (store_order (store_put k b st)) = length (store_order st)"
  by (simp add: store_put_def)

lemma get_or_create_inv:
  assumes "store_inv st"
  shows "store_inv (snd (get_or_create now nowb key burst rate st))"
proof (cases rule: get_or_create_cases [of st key now nowb burst rate])
  case (hit b c)
  then have "key \<in> fst ` set (store_order st)" by (force dest: map_of_SomeD)
  then have "length (del_key key (store_order st)) < length (store_order st)"
    by (rule length_del_key_less)
  with hit assms show ?thesis
    by (auto simp: store_inv_def distinct_del_key keys_del_key)
next
  case (fresh order)
  have d: "distinct (map fst order)"
    using fresh(1) assms by (auto simp: store_inv_def distinct_del_key)
  obtain pre where pre: "order = pre @ evict (store_max_keys st) order" using evict_suffix by blast
  have "distinct (map fst (evict (store_max_keys st) order))"
    using d by (metis pre distinct_append map_append)
  moreover have "key \<notin> fst ` set (evict (store_max_keys st) order)"
    using fresh(2) by (metis pre Un_iff image_Un set_append)
  ultimately show ?thesis
    using fresh(3) evict_length [of "store_max_keys st" order] by (auto simp: store_inv_def)
qed

lemma get_or_create_max_keys [simp]:
  "store_max_keys (snd (get_or_create now nowb key burst rate st)) = store_max_keys st"
  by (cases rule: get_or_create_cases [of st key now nowb burst rate]) simp_all

lemma store_access_state:
  "\<exists>b. snd (store_access a st) =
     store_put (acc_key a) b
       (snd (get_or_create (acc_store a) (acc_bucket a) (acc_key a) (acc_burst a) (acc_rate a) st))"
  by (auto simp: store_access_def Let_def case_prod_beta)

lemma store_access_inv: "store_inv st \<Longrightarrow> store_inv (snd (store_access a st))"
proof -
  assume "store_inv st"
  then have "store_inv (snd (get_or_create (acc_store a) (acc_bucket a) (acc_key a) (acc_burst a)
      (acc_rate a) st))" by (rule get_or_create_inv)
  with store_access_state [of a st] show ?thesis by (auto simp: store_inv_def)
qed

lemma store_access_max_keys [simp]: "store_max_keys (snd (store_access a st)) = store_max_keys st"
  using store_access_state [of a st] by auto

lemma store_run_inv: "store_inv st \<Longrightarrow> store_inv (snd (store_run as st))"
  by (induction as arbitrary: st) (auto simp: case_prod_beta Let_def store_access_inv)

lemma store_run_max_keys [simp]: "store_max_keys (snd (store_run as st)) = store_max_keys st"
  by (induction as arbitrary: st) (auto simp: case_prod_beta Let_def)

lemma new_store_inv: "store_inv (new_store m ttl)"
  by (simp add: store_inv_def new_store_def)

text \<open>C34: bounded memory. Starting from the empty store of \<open>_build_stores\<close>, after any sequence of
  requests by any principals the store holds at most \<open>max_keys\<close> entries (one, where the setting is
  not positive), and one per key.\<close>

theorem bucket_store_bounded:
  "distinct (map fst (store_order (snd (store_run as (new_store m ttl))))) \<and>
   int (length (store_order (snd (store_run as (new_store m ttl))))) \<le> max 1 m"
  using store_run_inv [OF new_store_inv, of as m ttl] store_run_max_keys [of as "new_store m ttl"]
  by (simp add: store_inv_def new_store_def del: store_run_max_keys)

section \<open>Least recently used\<close>

text \<open>An entry with its younger entries all among the keys of a set: what LRU order maintains.\<close>

definition entry_young :: "string \<Rightarrow> TokenBucket \<times> seconds \<Rightarrow> string set \<Rightarrow> BucketStore \<Rightarrow> bool" where
  "entry_young k v S st \<longleftrightarrow>
     (\<exists>pre post. store_order st = pre @ (k, v) # post \<and> fst ` set post \<subseteq> S)"

lemma length_le_card:
  assumes "distinct (map fst xs)" and "fst ` set xs \<subseteq> A" and "finite A"
  shows "length xs \<le> card A"
proof -
  have "length xs = card (set (map fst xs))" using assms(1) by (metis distinct_card length_map)
  also have "\<dots> \<le> card A" using assms(2,3) by (simp add: card_mono)
  finally show ?thesis .
qed

lemma entry_young_create:
  assumes order: "order = pre @ (k, v) # post" and d: "distinct (map fst order)"
    and post: "fst ` set post \<subseteq> S - {x}" and x: "x \<in> S" and fin: "finite S"
    and room: "int (card S) < m"
  shows "\<exists>pre'. evict m order = pre' @ (k, v) # post"
proof -
  have "distinct (map fst post)" using order d by simp
  then have "length post \<le> card (S - {x})" using post fin by (intro length_le_card) auto
  also have "card (S - {x}) = card S - 1" using x fin by simp
  also have "card S > 0" using x fin by (auto simp: card_gt_0_iff)
  then have "int (card S - 1) < m - 1" using room by simp
  ultimately have "int (length ((k, v) # post)) < m" by simp
  then show ?thesis unfolding order by (rule evict_keeps)
qed

lemma get_or_create_young:
  assumes "entry_young k v S st" and "store_inv st" and "x \<in> S" and "x \<noteq> k"
    and "finite S" and "int (card S) < store_max_keys st"
  shows "entry_young k v S (snd (get_or_create now nowb x burst rate st))"
proof -
  obtain pre post where o: "store_order st = pre @ (k, v) # post" and post: "fst ` set post \<subseteq> S"
    using assms(1) by (auto simp: entry_young_def)
  have del: "del_key x (store_order st) = del_key x pre @ (k, v) # del_key x post"
    using assms(4) by (simp add: o del_key_append del_key_Cons_other)
  have dpost: "fst ` set (del_key x post) \<subseteq> S - {x}" using post by (auto simp: keys_del_key)
  show ?thesis
  proof (cases rule: get_or_create_cases [of st x now nowb burst rate])
    case (hit b c)
    have "store_order (snd (get_or_create now nowb x burst rate st)) =
        del_key x pre @ (k, v) # (del_key x post @ [(x, b, c)])"
      using hit(3) del by simp
    moreover have "fst ` set (del_key x post @ [(x, b, c)]) \<subseteq> S" using dpost assms(3) by auto
    ultimately show ?thesis unfolding entry_young_def by blast
  next
    case (fresh order)
    from fresh(1) have "\<exists>pre1 post1. order = pre1 @ (k, v) # post1 \<and> fst ` set post1 \<subseteq> S - {x}"
    proof
      assume eq: "order = store_order st"
      then have "x \<notin> fst ` set post" using fresh(2) by (auto simp: o)
      then have "fst ` set post \<subseteq> S - {x}" using post by auto
      with eq o show ?thesis by blast
    next
      assume "order = del_key x (store_order st)"
      with del dpost show ?thesis by blast
    qed
    then obtain pre1 post1 where o1: "order = pre1 @ (k, v) # post1"
      and p1: "fst ` set post1 \<subseteq> S - {x}" by blast
    have "distinct (map fst order)"
      using fresh(1) assms(2) by (auto simp: store_inv_def distinct_del_key)
    then obtain pre2 where "evict (store_max_keys st) order = pre2 @ (k, v) # post1"
      using entry_young_create [OF o1 _ p1 assms(3,5,6)] by blast
    then have "store_order (snd (get_or_create now nowb x burst rate st)) =
        pre2 @ (k, v) # (post1 @ [(x, new_bucket burst rate nowb, now)])"
      using fresh(3) by simp
    moreover have "fst ` set (post1 @ [(x, new_bucket burst rate nowb, now)]) \<subseteq> S"
      using p1 assms(3) by auto
    ultimately show ?thesis unfolding entry_young_def by blast
  qed
qed

lemma store_put_young:
  assumes "entry_young k v S st" and "x \<noteq> k"
  shows "entry_young k v S (store_put x b st)"
proof -
  obtain pre post where o: "store_order st = pre @ (k, v) # post" and post: "fst ` set post \<subseteq> S"
    using assms(1) by (auto simp: entry_young_def)
  let ?f = "\<lambda>(k, b', c). (k, if k = x then b else b', c)"
  have "store_order (store_put x b st) = map ?f pre @ (k, v) # map ?f post"
    using assms(2) by (cases v) (simp add: store_put_def o)
  moreover have "map fst (map ?f post) = map fst post" by (simp add: case_prod_beta comp_def)
  then have "fst ` set (map ?f post) \<subseteq> S" using post by (metis set_map)
  ultimately show ?thesis unfolding entry_young_def by blast
qed

lemma store_access_young:
  assumes "entry_young k v S st" "store_inv st" "acc_key a \<in> S" "acc_key a \<noteq> k"
    "finite S" "int (card S) < store_max_keys st"
  shows "entry_young k v S (snd (store_access a st))"
proof -
  obtain b where "snd (store_access a st) = store_put (acc_key a) b
      (snd (get_or_create (acc_store a) (acc_bucket a) (acc_key a) (acc_burst a) (acc_rate a) st))"
    using store_access_state by blast
  with store_put_young [OF get_or_create_young [OF assms] assms(4)] show ?thesis by simp
qed

lemma store_run_young:
  "entry_young k v S st \<Longrightarrow> store_inv st \<Longrightarrow> \<forall>a\<in>set as. acc_key a \<in> S \<and> acc_key a \<noteq> k \<Longrightarrow>
   finite S \<Longrightarrow> int (card S) < store_max_keys st \<Longrightarrow> entry_young k v S (snd (store_run as st))"
  by (induction as arbitrary: st)
    (auto simp: case_prod_beta Let_def store_access_young store_access_inv)

lemma entry_young_map_of:
  "entry_young k v S st \<Longrightarrow> store_inv st \<Longrightarrow> map_of (store_order st) k = Some v"
  by (auto simp: entry_young_def store_inv_def intro!: map_of_is_SomeI)

text \<open>Fairness of eviction (LRU). The bucket of the principal that was served last is still in
  the store, with the same tokens and the same creation time, after any further requests of other
  principals, as long as fewer than \<open>max_keys\<close> distinct ones were served: nobody can reset or drain
  another principal's bucket.\<close>

theorem lru_keeps_recent:
  assumes "store_inv st" and "store_order st = order @ [(k, v)]"
    and "\<forall>a\<in>set as. acc_key a \<noteq> k"
    and "int (card (acc_key ` set as)) < store_max_keys st"
  shows "map_of (store_order (snd (store_run as st))) k = Some v"
proof -
  have "entry_young k v (acc_key ` set as) st"
    unfolding entry_young_def assms(2) by (intro exI [of _ order] exI [of _ "[]"]) simp
  then have "entry_young k v (acc_key ` set as) (snd (store_run as st))"
    using assms(1,3,4) by (intro store_run_young) auto
  with store_run_inv [OF assms(1)] show ?thesis by (blast intro: entry_young_map_of)
qed

definition ex_access :: "string \<Rightarrow> access" where
  "ex_access key = \<lparr>acc_store = 5, acc_bucket = 5, acc_acquire = 5, acc_key = key,
     acc_burst = 3, acc_rate = 1\<rparr>"

theorem lru_keeps_recent_witness:
  "map_of (store_order (snd (store_run [ex_access ''x'', ex_access ''y'', ex_access ''x'']
      \<lparr>store_max_keys = 3, store_ttl = 10,
       store_order = [(''y'', new_bucket 3 1 0, 0), (''k'', new_bucket 3 1 1, 1)]\<rparr>))) ''k''
   = Some (new_bucket 3 1 1, 1)"
proof (rule lru_keeps_recent [where order = "[(''y'', new_bucket 3 1 0, 0)]"])
  show "int (card (acc_key ` set [ex_access ''x'', ex_access ''y'', ex_access ''x'']))
      < store_max_keys \<lparr>store_max_keys = 3, store_ttl = 10,
       store_order = [(''y'', new_bucket 3 1 0, 0), (''k'', new_bucket 3 1 1, 1)]\<rparr>"
    by (simp add: ex_access_def card_insert_if)
qed (simp_all add: store_inv_def ex_access_def)


section \<open>The bound per principal\<close>

definition admitted_for :: "string \<Rightarrow> access list \<Rightarrow> BucketStore \<Rightarrow> nat" where
  "admitted_for k as st =
     length (filter (\<lambda>(a, ok). acc_key a = k \<and> ok) (zip as (fst (store_run as st))))"

lemma admitted_for_Nil [simp]: "admitted_for k [] st = 0"
  by (simp add: admitted_for_def)

lemma admitted_for_Cons:
  "admitted_for k (a # as) st =
     (if acc_key a = k \<and> fst (fst (store_access a st)) then 1 else 0)
     + admitted_for k as (snd (store_access a st))"
  by (auto simp: admitted_for_def case_prod_beta Let_def)

lemma get_or_create_ttl [simp]:
  "store_ttl (snd (get_or_create now nowb key burst rate st)) = store_ttl st"
  by (cases rule: get_or_create_cases [of st key now nowb burst rate]) simp_all

lemma store_put_ttl [simp]: "store_ttl (store_put k b st) = store_ttl st"
  by (simp add: store_put_def)

lemma store_access_ttl [simp]: "store_ttl (snd (store_access a st)) = store_ttl st"
  using store_access_state [of a st] by auto

lemma store_put_last:
  "key \<notin> fst ` set xs \<Longrightarrow>
   store_order (store_put key b' (st\<lparr>store_order := xs @ [(key, b, c)]\<rparr>)) = xs @ [(key, b', c)]"
  by (force simp: store_put_def intro!: map_idI)

lemma store_access_hit:
  assumes "map_of (store_order st) (acc_key a) = Some (b, c)" and "acc_store a - c \<le> store_ttl st"
  shows "fst (store_access a st) = fst (bucket_try_acquire (acc_acquire a) b)"
    and "store_order (snd (store_access a st)) =
      del_key (acc_key a) (store_order st)
      @ [(acc_key a, snd (bucket_try_acquire (acc_acquire a) b), c)]"
proof -
  have g: "get_or_create (acc_store a) (acc_bucket a) (acc_key a) (acc_burst a) (acc_rate a) st =
      (b, st\<lparr>store_order := del_key (acc_key a) (store_order st) @ [(acc_key a, b, c)]\<rparr>)"
    using assms by (simp add: get_or_create_def Let_def)
  show "fst (store_access a st) = fst (bucket_try_acquire (acc_acquire a) b)"
    by (simp add: store_access_def g case_prod_beta Let_def)
  have "acc_key a \<notin> fst ` set (del_key (acc_key a) (store_order st))" by (simp add: keys_del_key)
  from store_put_last [OF this]
  show "store_order (snd (store_access a st)) =
      del_key (acc_key a) (store_order st)
      @ [(acc_key a, snd (bucket_try_acquire (acc_acquire a) b), c)]"
    by (simp add: store_access_def g case_prod_beta Let_def)
qed

lemma store_access_fresh:
  assumes "map_of (store_order st) (acc_key a) = None
     \<or> (\<exists>b c. map_of (store_order st) (acc_key a) = Some (b, c) \<and> store_ttl st < acc_store a - c)"
  shows "fst (store_access a st) =
      fst (bucket_try_acquire (acc_acquire a) (new_bucket (acc_burst a) (acc_rate a) (acc_bucket a)))"
    and "\<exists>pre. store_order (snd (store_access a st)) =
      pre @ [(acc_key a, snd (bucket_try_acquire (acc_acquire a)
         (new_bucket (acc_burst a) (acc_rate a) (acc_bucket a))), acc_store a)]
      \<and> fst ` set pre \<subseteq> fst ` set (store_order st) - {acc_key a}"
proof -
  let ?k = "acc_key a" and ?nb = "new_bucket (acc_burst a) (acc_rate a) (acc_bucket a)"
  have "\<exists>order. get_or_create (acc_store a) (acc_bucket a) ?k (acc_burst a) (acc_rate a) st =
      (?nb, st\<lparr>store_order := order @ [(?k, ?nb, acc_store a)]\<rparr>)
      \<and> fst ` set order \<subseteq> fst ` set (store_order st) - {?k}"
  proof -
    define order where "order = (case map_of (store_order st) ?k of None \<Rightarrow> store_order st
       | Some _ \<Rightarrow> del_key ?k (store_order st))"
    have "fst ` set order \<subseteq> fst ` set (store_order st) - {?k}"
      using map_of_eq_None_iff [of "store_order st" ?k]
      by (auto simp: order_def keys_del_key split: option.split)
    moreover obtain p where "order = p @ evict (store_max_keys st) order" using evict_suffix by blast
    then have "set (evict (store_max_keys st) order) \<subseteq> set order" by (metis Un_upper2 set_append)
    ultimately show ?thesis
      using assms by (intro exI [of _ "evict (store_max_keys st) order"])
        (auto simp: get_or_create_def Let_def order_def)
  qed
  then obtain order where
    g: "get_or_create (acc_store a) (acc_bucket a) ?k (acc_burst a) (acc_rate a) st =
      (?nb, st\<lparr>store_order := order @ [(?k, ?nb, acc_store a)]\<rparr>)"
    and o: "fst ` set order \<subseteq> fst ` set (store_order st) - {?k}" by blast
  show "fst (store_access a st) = fst (bucket_try_acquire (acc_acquire a) ?nb)"
    by (simp add: store_access_def g case_prod_beta Let_def)
  have "?k \<notin> fst ` set order" using o by blast
  from store_put_last [OF this] o
  show "\<exists>pre. store_order (snd (store_access a st)) =
      pre @ [(?k, snd (bucket_try_acquire (acc_acquire a) ?nb), acc_store a)]
      \<and> fst ` set pre \<subseteq> fst ` set (store_order st) - {?k}"
    by (auto simp: store_access_def g case_prod_beta Let_def)
qed

lemma entry_young_last: "store_order st = pre @ [(k, v)] \<Longrightarrow> entry_young k v S st"
  unfolding entry_young_def by (intro exI [of _ pre] exI [of _ "[]"]) simp

lemma admitted_for_present:
  assumes "entry_young k (b, c) S st" and "store_inv st" and "bucket_ok b"
    and "finite S" and "int (card S) < store_max_keys st"
    and "\<forall>a\<in>set as. acc_key a \<noteq> k \<longrightarrow> acc_key a \<in> S"
    and "\<forall>a\<in>set as. acc_store a - c \<le> store_ttl st"
    and "sorted (last_refill b # map acc_acquire as)"
    and "\<forall>t\<in>set (last_refill b # map acc_acquire as). t \<le> tend"
  shows "of_nat (admitted_for k as st) \<le> tokens b + refill_rate b * (tend - last_refill b)"
  using assms
proof (induction as arbitrary: st b)
  case Nil
  then show ?case by (auto simp: bucket_ok_def)
next
  case (Cons a as)
  let ?st = "snd (store_access a st)"
  have inv: "store_inv ?st" using Cons.prems(2) by (rule store_access_inv)
  show ?case
  proof (cases "acc_key a = k")
    case False
    have "entry_young k (b, c) S ?st"
      using Cons.prems False by (intro store_access_young) auto
    then have "of_nat (admitted_for k as ?st) \<le> tokens b + refill_rate b * (tend - last_refill b)"
      using Cons.prems inv by (intro Cons.IH) auto
    with False show ?thesis by (simp add: admitted_for_Cons)
  next
    case True
    let ?t = "acc_acquire a" and ?b = "snd (bucket_try_acquire (acc_acquire a) b)"
    have m: "map_of (store_order st) (acc_key a) = Some (b, c)"
      using entry_young_map_of [OF Cons.prems(1,2)] True by simp
    have ttl: "acc_store a - c \<le> store_ttl st" using Cons.prems(7) by simp
    have le: "last_refill b \<le> ?t" using Cons.prems(8) by simp
    have "entry_young k (?b, c) S ?st"
      using store_access_hit(2) [OF m ttl] True by (auto intro: entry_young_last)
    moreover have "bucket_ok ?b" using Cons.prems(3) le by (rule bucket_try_acquire_ok)
    ultimately have "of_nat (admitted_for k as ?st)
        \<le> tokens ?b + refill_rate ?b * (tend - last_refill ?b)"
      using Cons.prems inv by (intro Cons.IH) auto
    moreover have "tokens ?b + (if fst (fst (bucket_try_acquire ?t b)) then 1 else 0)
        \<le> tokens b + refill_rate b * (?t - last_refill b)"
      using bucket_try_acquire_tokens [of ?t b] by simp
    moreover have "refill_rate b * (tend - last_refill b)
        = refill_rate b * (tend - ?t) + refill_rate b * (?t - last_refill b)"
      by (simp add: algebra_simps)
    ultimately show ?thesis
      using True store_access_hit(1) [OF m ttl]
      by (simp add: admitted_for_Cons split: if_splits)
  qed
qed


lemma admitted_for_fresh:
  assumes "k \<notin> fst ` set (store_order st)" and "store_inv st"
    and "0 \<le> burst" and "0 \<le> rate"
    and "finite S" and "int (card S) < store_max_keys st"
    and "\<forall>a\<in>set as. acc_key a \<noteq> k \<longrightarrow> acc_key a \<in> S"
    and "\<forall>a\<in>set as. acc_key a = k \<longrightarrow> acc_burst a = burst \<and> acc_rate a = rate"
    and "\<forall>a\<in>set as. t0 \<le> acc_store a \<and> acc_store a \<le> acc_bucket a \<and> acc_bucket a \<le> acc_acquire a
           \<and> acc_acquire a \<le> tend"
    and "tend - t0 \<le> store_ttl st" and "sorted (map acc_acquire as)" and "t0 \<le> tend"
  shows "of_nat (admitted_for k as st) \<le> burst + rate * (tend - t0)"
  using assms
proof (induction as arbitrary: st)
  case Nil
  then show ?case by simp
next
  case (Cons a as)
  let ?st = "snd (store_access a st)"
  have inv: "store_inv ?st" using Cons.prems(2) by (rule store_access_inv)
  show ?case
  proof (cases "acc_key a = k")
    case False
    have "\<exists>b. map fst (store_order ?st) = map fst (store_order (snd (get_or_create (acc_store a)
        (acc_bucket a) (acc_key a) (acc_burst a) (acc_rate a) st)))"
      using store_access_state [of a st] by auto
    moreover have "k \<notin> fst ` set (store_order (snd (get_or_create (acc_store a)
        (acc_bucket a) (acc_key a) (acc_burst a) (acc_rate a) st)))"
    proof (cases rule: get_or_create_cases [of st "acc_key a" "acc_store a" "acc_bucket a"
          "acc_burst a" "acc_rate a"])
      case (hit b c)
      then show ?thesis using Cons.prems(1) False by (auto simp: keys_del_key)
    next
      case (fresh order)
      obtain p where "order = p @ evict (store_max_keys st) order" using evict_suffix by blast
      then have "set (evict (store_max_keys st) order) \<subseteq> set order"
        by (metis Un_upper2 set_append)
      moreover have "k \<notin> fst ` set order"
        using fresh(1) Cons.prems(1) keys_del_key [of "acc_key a" "store_order st"] by (metis Diff_iff)
      ultimately show ?thesis using fresh(3) False by auto
    qed
    ultimately have "k \<notin> fst ` set (store_order ?st)" by (metis list.set_map)
    then have "of_nat (admitted_for k as ?st) \<le> burst + rate * (tend - t0)"
      using Cons.prems inv by (intro Cons.IH) auto
    with False show ?thesis by (simp add: admitted_for_Cons)
  next
    case True
    let ?nb = "new_bucket (acc_burst a) (acc_rate a) (acc_bucket a)"
    let ?t = "acc_acquire a" and ?b = "snd (bucket_try_acquire (acc_acquire a) ?nb)"
    have br: "acc_burst a = burst" "acc_rate a = rate" using Cons.prems(8) True by auto
    have m: "map_of (store_order st) (acc_key a) = None"
      using Cons.prems(1) True by (simp add: map_of_eq_None_iff)
    have ok: "bucket_ok ?nb" using Cons.prems(3,4) br by (simp add: new_bucket_ok)
    have le: "last_refill ?nb \<le> ?t" and tt: "t0 \<le> acc_bucket a" using Cons.prems(9) by auto
    have "entry_young k (?b, acc_store a) S ?st"
      using store_access_fresh(2) [OF disjI1 [OF m]] True by (auto intro: entry_young_last)
    moreover have "bucket_ok ?b" using ok le by (rule bucket_try_acquire_ok)
    moreover have "\<forall>a'\<in>set as. acc_store a' - acc_store a \<le> store_ttl ?st"
      using Cons.prems(9,10) by fastforce
    ultimately have "of_nat (admitted_for k as ?st)
        \<le> tokens ?b + refill_rate ?b * (tend - last_refill ?b)"
      using Cons.prems inv by (intro admitted_for_present) auto
    moreover have "tokens ?b + (if fst (fst (bucket_try_acquire ?t ?nb)) then 1 else 0)
        \<le> burst + rate * (?t - acc_bucket a)"
      using bucket_try_acquire_tokens [of ?t ?nb] br Cons.prems(3) by simp
    moreover have "rate * (tend - t0)
        = rate * (tend - ?t) + rate * (?t - acc_bucket a) + rate * (acc_bucket a - t0)"
      by (simp add: algebra_simps)
    moreover have "0 \<le> rate * (acc_bucket a - t0)" using tt Cons.prems(4) by simp
    ultimately show ?thesis
      using True store_access_fresh(1) [OF disjI1 [OF m]] br
      by (simp add: admitted_for_Cons split: if_splits)
  qed
qed

text \<open>C35: the limit per principal, through the store. While fewer other principals than
  \<open>max_keys\<close> are served and for at most the time to live, a principal that was not yet known is
  admitted at most burst plus rate times the elapsed time, whatever the interleaving with others.\<close>

theorem principal_rate_bound:
  assumes "store_inv st" and "k \<notin> fst ` set (store_order st)"
    and "0 \<le> burst" and "0 \<le> rate" and "t0 \<le> tend" and "tend - t0 \<le> store_ttl st"
    and "int (card (acc_key ` set as - {k})) < store_max_keys st"
    and "\<forall>a\<in>set as. acc_key a = k \<longrightarrow> acc_burst a = burst \<and> acc_rate a = rate"
    and "\<forall>a\<in>set as. t0 \<le> acc_store a \<and> acc_store a \<le> acc_bucket a \<and> acc_bucket a \<le> acc_acquire a
           \<and> acc_acquire a \<le> tend"
    and "sorted (map acc_acquire as)"
  shows "of_nat (admitted_for k as st) \<le> burst + rate * (tend - t0)"
  using assms by (intro admitted_for_fresh [where S = "acc_key ` set as - {k}"]) auto

definition ex_login :: "seconds \<Rightarrow> string \<Rightarrow> access" where
  "ex_login t key = \<lparr>acc_store = t, acc_bucket = t, acc_acquire = t, acc_key = key,
     acc_burst = 2, acc_rate = 1 / 10\<rparr>"

theorem principal_rate_bound_witness:
  "of_nat (admitted_for ''k''
     [ex_login 0 ''k'', ex_login 1 ''x'', ex_login 1 ''k'', ex_login 2 ''k''] (new_store 3 3600))
   \<le> (2::rat) + 1 / 10 * (2 - 0)"
proof (rule principal_rate_bound)
  show "int (card (acc_key ` set [ex_login 0 ''k'', ex_login 1 ''x'', ex_login 1 ''k'',
      ex_login 2 ''k''] - {''k''})) < store_max_keys (new_store 3 3600)"
    by (simp add: ex_login_def new_store_def insert_Diff_if)
qed (simp_all add: ex_login_def new_store_def store_inv_def)

section \<open>Expiry gives an active principal a fresh bucket\<close>

lemma map_of_last:
  assumes "distinct (map fst xs)" and "xs = pre @ [(k, v)]"
  shows "map_of xs k = Some v"
  using assms(1) by (rule map_of_is_SomeI) (simp add: assms(2))

lemma store_access_same_time:
  assumes "store_order st = pre @ [(k, b, c)]" and "distinct (map fst (store_order st))"
    and "acc_key a = k" and "acc_store a - c \<le> store_ttl st"
  shows "store_order (snd (store_access a st))
      = pre @ [(k, snd (bucket_try_acquire (acc_acquire a) b), c)]"
proof -
  have m: "map_of (store_order st) (acc_key a) = Some (b, c)"
    unfolding assms(3) using assms(2,1) by (rule map_of_last)
  have "del_key k pre = pre"
    using assms(1,2) by (force simp: del_key_def filter_id_conv)
  then have "del_key (acc_key a) (store_order st) = pre"
    using assms(1,3) by (simp add: del_key_append) (simp add: del_key_def)
  with store_access_hit(2) [OF m assms(4)] assms(3) show ?thesis by simp
qed

definition at_time :: "seconds \<Rightarrow> string \<Rightarrow> rat \<Rightarrow> rat \<Rightarrow> access" where
  "at_time t k burst rate = \<lparr>acc_store = t, acc_bucket = t, acc_acquire = t, acc_key = k,
     acc_burst = burst, acc_rate = rate\<rparr>"

lemma store_run_append:
  "store_run (as @ bs) st =
     (let (rs, st1) = store_run as st; (rs', st2) = store_run bs st1 in (rs @ rs', st2))"
  by (induction as arbitrary: st) (auto simp: case_prod_beta Let_def)

lemma store_run_ttl [simp]: "store_ttl (snd (store_run as st)) = store_ttl st"
  by (induction as arbitrary: st) (auto simp: case_prod_beta Let_def)

lemma burst_at_once:
  assumes "store_order st = pre @ [(k, b, c)]" and "store_inv st" and "t - c \<le> store_ttl st"
    and "of_nat n \<le> tokens (refill t b)"
  shows "fst (store_run (replicate n (at_time t k burst rate)) st) = replicate n True
    \<and> (\<exists>b'. store_order (snd (store_run (replicate n (at_time t k burst rate)) st)) = pre @ [(k, b', c)])"
  using assms
proof (induction n arbitrary: st b)
  case 0
  then show ?case by auto
next
  case (Suc n)
  let ?a = "at_time t k burst rate" and ?b = "snd (bucket_try_acquire t b)"
  let ?st = "snd (store_access ?a st)"
  have d: "distinct (map fst (store_order st))" using Suc.prems(2) by (simp add: store_inv_def)
  have m: "map_of (store_order st) (acc_key ?a) = Some (b, c)"
    using map_of_last [OF d Suc.prems(1)] by (simp add: at_time_def)
  have ttl: "acc_store ?a - c \<le> store_ttl st" using Suc.prems(3) by (simp add: at_time_def)
  have "1 \<le> tokens (refill t b)"
    using Suc.prems(4) of_nat_0_le_iff [of n, where 'a = rat] by simp
  then have ok: "fst (fst (bucket_try_acquire t b))"
    by (simp add: bucket_try_acquire_def Let_def)
  have "tokens ?b = tokens (refill t b) - 1" and "tokens (refill t ?b) = tokens ?b"
    using ok by (auto simp: bucket_try_acquire_def Let_def refill_def split: if_splits)
  then have "of_nat n \<le> tokens (refill t ?b)" using Suc.prems(4) by simp
  moreover have o: "store_order ?st = pre @ [(k, ?b, c)]"
    using store_access_same_time [OF Suc.prems(1) d _ ttl] by (simp add: at_time_def)
  moreover have "store_inv ?st" using Suc.prems(2) by (rule store_access_inv)
  ultimately have "fst (store_run (replicate n ?a) ?st) = replicate n True
      \<and> (\<exists>b'. store_order (snd (store_run (replicate n ?a) ?st)) = pre @ [(k, b', c)])"
    using Suc.prems(3) by (intro Suc.IH) auto
  moreover have "fst (store_access ?a st) = fst (bucket_try_acquire t b)"
    using store_access_hit(1) [OF m ttl] by (simp add: at_time_def)
  ultimately show ?case using ok by (simp add: case_prod_beta Let_def)
qed


text \<open>The time to live counts from creation, not from last use. A principal whose bucket is full
  when it expires is admitted a whole burst at that moment and a second whole burst any
  \<open>eps\<close> later, on the fresh bucket: twice the burst in a window in which the token bucket alone
  admits \<open>n + rate * eps\<close>.\<close>

theorem expiry_doubles_burst:
  assumes "store_inv st" and "store_order st = pre @ [(k, b, c)]"
    and "0 \<le> store_ttl st"
    and "of_nat n \<le> tokens (refill (c + store_ttl st) b)" and "0 < eps"
  shows "fst (store_run
      (replicate n (at_time (c + store_ttl st) k (of_nat n) rate)
       @ replicate n (at_time (c + store_ttl st + eps) k (of_nat n) rate)) st)
    = replicate (2 * n) True"
proof (cases n)
  case 0
  then show ?thesis by simp
next
  case (Suc m)
  let ?t1 = "c + store_ttl st" and ?t2 = "c + store_ttl st + eps"
  let ?a1 = "at_time ?t1 k (of_nat n) rate" and ?a2 = "at_time ?t2 k (of_nat n) rate"
  define st1 where "st1 = snd (store_run (replicate n ?a1) st)"
  obtain b1 where first: "fst (store_run (replicate n ?a1) st) = replicate n True"
    and o1: "store_order st1 = pre @ [(k, b1, c)]"
    using burst_at_once [OF assms(2,1) _ assms(4)] by (auto simp: st1_def)
  have inv1: "store_inv st1" unfolding st1_def using assms(1) by (rule store_run_inv)
  have ttl1: "store_ttl st1 = store_ttl st" by (simp add: st1_def)
  let ?nb = "new_bucket (of_nat n) rate ?t2"
  let ?b2 = "snd (bucket_try_acquire ?t2 ?nb)" and ?st2 = "snd (store_access ?a2 st1)"
  have expired: "map_of (store_order st1) (acc_key ?a2) = None \<or> (\<exists>b c. map_of (store_order st1)
      (acc_key ?a2) = Some (b, c) \<and> store_ttl st1 < acc_store ?a2 - c)"
    using map_of_last [OF _ o1] inv1 assms(5) by (auto simp: at_time_def store_inv_def ttl1)
  have ok: "fst (fst (bucket_try_acquire ?t2 ?nb))" and tok: "tokens (refill ?t2 ?b2) = of_nat m"
    using Suc by (simp_all add: bucket_try_acquire_def refill_def Let_def)
  obtain pre2 where o2: "store_order ?st2 = pre2 @ [(k, ?b2, ?t2)]"
    using store_access_fresh(2) [OF expired] by (auto simp: at_time_def)
  have inv2: "store_inv ?st2" using inv1 by (rule store_access_inv)
  have "?t2 - ?t2 \<le> store_ttl ?st2" using assms(3) by (simp add: ttl1)
  from burst_at_once [OF o2 inv2 this] tok
  have "fst (store_run (replicate m ?a2) ?st2) = replicate m True" by simp
  moreover have "fst (fst (store_access ?a2 st1))"
    using store_access_fresh(1) [OF expired] ok by (simp add: at_time_def)
  ultimately have "fst (store_run (replicate n ?a2) st1) = replicate n True"
    by (simp add: Suc case_prod_beta Let_def)
  with first show ?thesis
    by (simp add: store_run_append case_prod_beta Let_def st1_def [symmetric] mult_2 replicate_add)
qed

theorem expiry_doubles_burst_witness:
  "fst (store_run
      (replicate 2 (at_time (0 + store_ttl
          \<lparr>store_max_keys = 5, store_ttl = 3600, store_order = [(''k'', new_bucket 2 1 0, 0)]\<rparr>)
          ''k'' (of_nat 2) 1)
       @ replicate 2 (at_time (0 + store_ttl
          \<lparr>store_max_keys = 5, store_ttl = 3600, store_order = [(''k'', new_bucket 2 1 0, 0)]\<rparr> + 1 / 100)
          ''k'' (of_nat 2) 1))
      \<lparr>store_max_keys = 5, store_ttl = 3600, store_order = [(''k'', new_bucket 2 1 0, 0)]\<rparr>)
    = replicate (2 * 2) True"
  by (rule expiry_doubles_burst [where pre = "[]" and b = "new_bucket 2 1 0"])
    (simp_all add: store_inv_def refill_def Let_def)

section \<open>Classification and the middleware\<close>

lemma api_prefix_simps:
  "py_startswith ''/v1/auth/login'' ''/v1/auth/''"
  "py_startswith ''/v1/auth/refresh'' ''/v1/auth/''"
  "py_startswith ''/v1/auth/logout'' ''/v1/auth/''"
  "py_startswith ''/v1/auth/me'' ''/v1/auth/''"
  by (simp_all add: py_startswith_def)

lemma exempt_not_api:
  "\<not> py_startswith ''/'' ''/v1/auth/''" "\<not> py_startswith ''/'' ''/v1/users/''"
  "\<not> py_startswith ''/'' ''/v1/events/''"
  "\<not> py_startswith ''/health'' ''/v1/auth/''" "\<not> py_startswith ''/health'' ''/v1/users/''"
  "\<not> py_startswith ''/health'' ''/v1/events/''"
  "\<not> py_startswith ''/db'' ''/v1/auth/''" "\<not> py_startswith ''/db'' ''/v1/users/''"
  "\<not> py_startswith ''/db'' ''/v1/events/''"
  by (simp_all add: py_startswith_def)

text \<open>What is limited. A path is exempt from every limit exactly when it is under none of the
  three API prefixes.\<close>

theorem classify_exempt_iff:
  "classify path = EXEMPT \<longleftrightarrow>
     \<not> py_startswith path ''/v1/auth/'' \<and> \<not> py_startswith path ''/v1/users/''
     \<and> \<not> py_startswith path ''/v1/events/''"
  unfolding classify_def using api_prefix_simps exempt_not_api by (auto split: if_splits)

text \<open>The queries of scores and ranks are served under \<open>/v1/users/\<close>, which is the group of reads.\<close>

lemma classify_graph_reads: "classify (''/v1/users/'' @ rest) = READS"
  by (simp add: classify_def py_startswith_def)

definition access_of :: "rl_clock \<Rightarrow> string \<Rightarrow> RouteGroup \<Rightarrow> Settings \<Rightarrow> access" where
  "access_of clk key grp settings =
     \<lparr>acc_store = clk_store clk, acc_bucket = clk_bucket clk, acc_acquire = clk_acquire clk,
      acc_key = key, acc_burst = fst (get_bucket_params grp settings),
      acc_rate = snd (get_bucket_params grp settings)\<rparr>"

text \<open>The middleware is one access to the store of the request's group, under the key chosen
  for the request: it forwards exactly when the bucket admits, answers 429 with the bucket's
  \<open>retry_after\<close> otherwise, and touches no other group's store.\<close>

theorem rate_limit_call_spec:
  assumes "sc_type sc = ''http''" and "classify (scope_path sc) = grp" and "grp \<noteq> EXEMPT"
    and "rate_limit_key lib rep (clk_wall clk) settings grp sc = Inr key"
    and "stores grp = Some st"
  shows "rate_limit_call lib rep settings clk sc stores =
    (let ((allowed, retry_after), st1) = store_access (access_of clk key grp settings) st
     in (Inr (if allowed then Forward
              else Respond (send_json_response 429
                     (rate_limited_body grp retry_after
                       (case sc_request_id sc of None \<Rightarrow> [] | Some r \<Rightarrow> r)) retry_after)),
         stores(grp \<mapsto> st1)))"
  using assms
  by (simp add: rate_limit_call_def store_access_def access_of_def Let_def case_prod_beta)

definition ex_jwt :: jwt_lib where
  "ex_jwt = \<lparr>jl_header = (\<lambda>_. Inl JwtDecodeError), jl_encode = (\<lambda>_ _ _ _. []),
     jl_decode = (\<lambda>_ _ _ _ _ _ _. Inl JwtDecodeError)\<rparr>"

definition ex_scope :: scope where
  "ex_scope = \<lparr>sc_type = ''http'', sc_path = Some ''/v1/auth/login'',
     sc_headers = [(''X-Forwarded-For'', ''10.0.0.7, 10.0.0.1'')], sc_client = Some ''127.0.0.1'',
     sc_request_id = Some ''r1''\<rparr>"

definition ex_clock :: "seconds \<Rightarrow> rl_clock" where
  "ex_clock t = \<lparr>clk_store = t, clk_bucket = t, clk_acquire = t, clk_wall = t\<rparr>"

lemma ex_scope_key:
  "rate_limit_key ex_jwt (\<lambda>_. []) t default_settings AUTH_LOGIN ex_scope = Inr ''10.0.0.7''"
  by (simp add: rate_limit_key_def, code_simp)

theorem rate_limit_call_spec_witness:
  "fst (rate_limit_call ex_jwt (\<lambda>_. []) default_settings (ex_clock 1) ex_scope
          (build_stores default_settings)) = Inr Forward"
proof -
  have "rate_limit_call ex_jwt (\<lambda>_. []) default_settings (ex_clock 1) ex_scope
          (build_stores default_settings) =
    (let ((allowed, retry_after), st1) =
           store_access (access_of (ex_clock 1) ''10.0.0.7'' AUTH_LOGIN default_settings)
             (new_store 10000 3600)
     in (Inr (if allowed then Forward
              else Respond (send_json_response 429
                     (rate_limited_body AUTH_LOGIN retry_after
                       (case sc_request_id ex_scope of None \<Rightarrow> [] | Some r \<Rightarrow> r)) retry_after)),
         (build_stores default_settings)(AUTH_LOGIN \<mapsto> st1)))"
  proof (rule rate_limit_call_spec)
    show "sc_type ex_scope = ''http''" by (simp add: ex_scope_def)
    show "classify (scope_path ex_scope) = AUTH_LOGIN"
      by (simp add: ex_scope_def scope_path_def classify_def)
    show "AUTH_LOGIN \<noteq> EXEMPT" by simp
    show "rate_limit_key ex_jwt (\<lambda>_. []) (clk_wall (ex_clock 1)) default_settings AUTH_LOGIN ex_scope
        = Inr ''10.0.0.7''" by (rule ex_scope_key)
    show "build_stores default_settings AUTH_LOGIN = Some (new_store 10000 3600)"
      by (simp add: build_stores_def default_settings_def Let_def)
  qed
  then show ?thesis
    by (simp add: store_access_def access_of_def ex_clock_def default_settings_def Let_def
        get_or_create_def new_store_def bucket_try_acquire_def refill_def case_prod_beta)
qed

end
