(* ===== verification/Backpressure.thy ===== *)
theory Backpressure
  imports RateLimit
begin

text \<open>
  \<open>meritmolt/backpressure.py\<close>: the concurrency guard (one global semaphore and one per route
  group) and the middleware around the application. The guard is given twice: as functions for a
  request that meets no other (\<open>try_acquire\<close>, \<open>release\<close>), and as a step relation of any number of
  concurrent requests, where a request may wait for a permit, time out or be cancelled.
\<close>

section \<open>Semaphores and the guard\<close>

type_synonym semaphore = nat

definition sem_acquire :: "semaphore \<Rightarrow> semaphore option" where
  "sem_acquire v = (if v = 0 then None else Some (v - 1))"

definition sem_release :: "semaphore \<Rightarrow> semaphore" where
  "sem_release v = v + 1"

record ConcurrencyGuard =
  global_sem :: semaphore
  group_sems :: "RouteGroup \<rightharpoonup> semaphore"

definition new_guard :: "Settings \<Rightarrow> ConcurrencyGuard" where
  "new_guard settings =
     \<lparr>global_sem = mm_bp_global_max_concurrent settings,
      group_sems = [AUTH_LOGIN \<mapsto> mm_bp_auth_max_concurrent settings,
                    AUTH_REFRESH \<mapsto> mm_bp_auth_max_concurrent settings,
                    WRITES \<mapsto> mm_bp_writes_max_concurrent settings,
                    READS \<mapsto> mm_bp_reads_max_concurrent settings]\<rparr>"

text \<open>
  \<open>try_acquire\<close> when no other request releases a permit during the two waits of one second:
  \<open>None\<close> of \<open>sem_acquire\<close> is then the \<open>TimeoutError\<close> of \<open>asyncio.wait_for\<close>.
\<close>

definition guard_try_acquire :: "RouteGroup \<Rightarrow> ConcurrencyGuard \<Rightarrow> bool \<times> ConcurrencyGuard" where
  "guard_try_acquire grp g =
     (case sem_acquire (global_sem g) of
        None \<Rightarrow> (False, g)
      | Some v \<Rightarrow>
          let g1 = g\<lparr>global_sem := v\<rparr>
          in if grp = EXEMPT then (True, g1)
             else case group_sems g1 grp of
                    None \<Rightarrow> (True, g1)
                  | Some w \<Rightarrow>
                      (case sem_acquire w of
                         None \<Rightarrow> (False, g1\<lparr>global_sem := sem_release (global_sem g1)\<rparr>)
                       | Some w' \<Rightarrow> (True, g1\<lparr>group_sems := (group_sems g1)(grp \<mapsto> w')\<rparr>)))"

definition guard_release :: "RouteGroup \<Rightarrow> ConcurrencyGuard \<Rightarrow> ConcurrencyGuard" where
  "guard_release grp g =
     (let g1 = (if grp \<noteq> EXEMPT
                then (case group_sems g grp of
                        None \<Rightarrow> g
                      | Some w \<Rightarrow> g\<lparr>group_sems := (group_sems g)(grp \<mapsto> sem_release w)\<rparr>)
                else g)
      in g1\<lparr>global_sem := sem_release (global_sem g1)\<rparr>)"

section \<open>The middleware\<close>

definition get_request_id_from_scope :: "string \<Rightarrow> scope \<Rightarrow> string" where
  "get_request_id_from_scope fresh_uuid sc =
     (case map_option py_strip (find_header sc ''x-request-id'') of
        None \<Rightarrow> fresh_uuid
      | Some v \<Rightarrow> if v = [] then fresh_uuid else v)"

text \<open>
  A run of the wrapped application: the messages it sends, each with the time since it started,
  and when it ends (\<open>None\<close>: never), by returning or by raising.
\<close>

record app_run =
  run_sends :: "(seconds \<times> asgi_message) list"
  run_end :: "(seconds \<times> py_exn option) option"

definition overloaded_body :: "string \<Rightarrow> (string \<times> json) list" where
  "overloaded_body request_id =
     [(''error'', JStr ''overloaded''), (''detail'', JStr ''Server at capacity; try again later''),
      (''retry_after'', JFloat 60), (''request_id'', JStr request_id)]"

definition deadline_body :: "rat \<Rightarrow> string \<Rightarrow> (string \<times> json) list" where
  "deadline_body deadline_sec request_id =
     [(''error'', JStr ''deadline_exceeded''), (''detail'', JStr ''Request timed out''),
      (''retry_after'', JFloat (min 60 deadline_sec)), (''request_id'', JStr request_id)]"

text \<open>
  The outcome of a call: the messages sent and the exception that leaves it, or \<open>None\<close> where it
  never returns. \<open>wait_for\<close> raises \<open>TimeoutError\<close> at the deadline; the same class may come out of
  the application and is caught by the same clause.
\<close>

type_synonym call_outcome = "(asgi_message list \<times> py_exn option) option"

definition run_to_end :: "app_run \<Rightarrow> call_outcome" where
  "run_to_end run = map_option (\<lambda>(_, r). (map snd (run_sends run), r)) (run_end run)"

definition run_with_deadline :: "rat \<Rightarrow> string \<Rightarrow> app_run \<Rightarrow> call_outcome" where
  "run_with_deadline deadline_sec request_id run =
     (let timeout = (\<lambda>sent. Some (sent @ send_json_response 503 (deadline_body deadline_sec request_id)
                                   deadline_sec, None))
      in case run_end run of
           Some (t, r) \<Rightarrow>
             if t < deadline_sec
             then (if r = Some TimeoutError then timeout (map snd (run_sends run))
                   else Some (map snd (run_sends run), r))
             else timeout (map snd (filter (\<lambda>(s, _). s < deadline_sec) (run_sends run)))
         | None \<Rightarrow> timeout (map snd (filter (\<lambda>(s, _). s < deadline_sec) (run_sends run))))"

definition backpressure_call ::
  "Settings \<Rightarrow> string \<Rightarrow> (scope \<Rightarrow> app_run) \<Rightarrow> scope \<Rightarrow> ConcurrencyGuard \<Rightarrow> call_outcome \<times> ConcurrencyGuard" where
  "backpressure_call settings fresh_uuid app sc g =
     (if sc_type sc \<noteq> ''http'' then (run_to_end (app sc), g)
      else
        let request_id = get_request_id_from_scope fresh_uuid sc;
            sc1 = sc\<lparr>sc_request_id := Some request_id\<rparr>;
            grp = classify (scope_path sc1);
            (ok, g1) = guard_try_acquire grp g
        in if \<not> ok
           then (Some (send_json_response 503 (overloaded_body request_id) 60, None), g1)
           else
             let outcome = (if grp = READS
                            then run_with_deadline (mm_bp_request_deadline_seconds settings) request_id (app sc1)
                            else run_to_end (app sc1))
             in (case outcome of
                   None \<Rightarrow> (None, g1)
                 | Some out \<Rightarrow> (Some out, guard_release grp g1)))"

section \<open>Permit pools\<close>

text \<open>What the guard relies on in a semaphore: permits are neither created nor lost.\<close>

locale permit_pool =
  fixes acquire :: "'p \<Rightarrow> 'p option" and release :: "'p \<Rightarrow> 'p" and free :: "'p \<Rightarrow> nat"
  assumes acquire_None: "acquire p = None \<longleftrightarrow> free p = 0"
    and acquire_Some: "acquire p = Some p' \<Longrightarrow> Suc (free p') = free p"
    and release_free: "free (release p) = Suc (free p)"
begin

lemma acquire_held: "acquire p = Some p' \<Longrightarrow> free p + held = cap \<Longrightarrow> free p' + Suc held = cap"
  using acquire_Some [of p p'] by simp

lemma release_held: "free p + Suc held = cap \<Longrightarrow> free (release p) + held = cap"
  using release_free [of p] by simp

lemma acquire_release: "acquire p = Some p' \<Longrightarrow> free (release p') = free p"
  using acquire_Some [of p p'] release_free [of p'] by simp

end

interpretation sem: permit_pool sem_acquire sem_release id
  by unfold_locales (auto simp: sem_acquire_def sem_release_def split: if_splits)

lemma sem_release_acquire: "sem_acquire v = Some v' \<Longrightarrow> sem_release v' = v"
  using sem.acquire_release [of v v'] by simp

lemma guard_release_acquired:
  assumes "guard_try_acquire grp g = (True, g1)"
  shows "guard_release grp g1 = g"
proof -
  obtain v where v: "sem_acquire (global_sem g) = Some v"
    using assms by (cases "sem_acquire (global_sem g)") (auto simp: guard_try_acquire_def)
  note r = sem_release_acquire [OF v]
  show ?thesis
  proof (cases "grp = EXEMPT")
    case True
    with assms v r show ?thesis
      by (auto simp: guard_try_acquire_def guard_release_def Let_def)
  next
    case False
    show ?thesis
    proof (cases "group_sems g grp")
      case None
      with False assms v r show ?thesis
        by (auto simp: guard_try_acquire_def guard_release_def Let_def)
    next
      case (Some w)
      then obtain w' where w': "sem_acquire w = Some w'"
        using False assms v by (cases "sem_acquire w") (auto simp: guard_try_acquire_def Let_def)
      with Some False assms v r sem_release_acquire [OF w'] show ?thesis
        by (auto simp: guard_try_acquire_def guard_release_def Let_def map_upd_triv)
    qed
  qed
qed

lemma guard_refused_unchanged: "guard_try_acquire grp g = (False, g1) \<Longrightarrow> g1 = g"
  using sem_release_acquire [of "global_sem g"]
  by (auto simp: guard_try_acquire_def Let_def split: option.splits if_splits)

lemma run_with_deadline_returns [simp]: "run_with_deadline d r run \<noteq> None"
  by (auto simp: run_with_deadline_def Let_def split: option.split)

lemma scope_path_request_id [simp]: "scope_path (sc\<lparr>sc_request_id := r\<rparr>) = scope_path sc"
  by (simp add: scope_path_def)

text \<open>A read is always answered: the deadline ends the call of an application that hangs.\<close>

lemma backpressure_read_returns:
  "sc_type sc = ''http'' \<Longrightarrow> classify (scope_path sc) = READS \<Longrightarrow>
     fst (backpressure_call settings u app sc g) \<noteq> None"
  by (auto simp: backpressure_call_def Let_def case_prod_beta split: option.split)

text \<open>A request gives back what it took. Whatever the application does, returning, raising or
  running into the deadline, a call that ends leaves the guard as it found it.\<close>

lemma call_restores_guard:
  assumes "backpressure_call settings u app sc g = (Some out, g')"
  shows "g' = g"
proof (cases "sc_type sc = ''http''")
  case False
  with assms show ?thesis by (simp add: backpressure_call_def)
next
  case True
  obtain ok g1 where g1: "guard_try_acquire (classify (scope_path sc)) g = (ok, g1)"
    by (cases "guard_try_acquire (classify (scope_path sc)) g")
  show ?thesis
  proof (cases ok)
    case True
    with g1 have "guard_release (classify (scope_path sc)) g1 = g"
      by (simp add: guard_release_acquired)
    with True g1 assms \<open>sc_type sc = ''http''\<close> show ?thesis
      by (simp add: backpressure_call_def Let_def split: option.splits)
  next
    case False
    with g1 have "g1 = g" by (simp add: guard_refused_unchanged)
    with False g1 assms \<open>sc_type sc = ''http''\<close> show ?thesis
      by (simp add: backpressure_call_def Let_def)
  qed
qed

definition ex_read :: scope where
  "ex_read = \<lparr>sc_type = ''http'', sc_path = Some ''/v1/auth/me'', sc_headers = [],
     sc_client = None, sc_request_id = None\<rparr>"

definition ex_hang :: "scope \<Rightarrow> app_run" where
  "ex_hang sc = \<lparr>run_sends = [(1, ResponseStart 200 [])], run_end = None\<rparr>"

lemma ex_read_group: "classify (scope_path ex_read) = READS"
  by (simp add: ex_read_def scope_path_def classify_def)

text \<open>A deadline that passes after the application has started its response makes the
  middleware start a second response on the same connection, which ASGI forbids.\<close>

theorem deadline_starts_second_response:
  assumes "run_sends run = [(s, ResponseStart status hs)]" and "run_end run = None" and "s < d"
  shows "\<exists>hs' body. run_with_deadline d r run =
     Some ([ResponseStart status hs, ResponseStart 503 hs', ResponseBody body], None)"
  using assms by (simp add: run_with_deadline_def send_json_response_def Let_def)

theorem deadline_starts_second_response_witness:
  "\<exists>hs' body. run_with_deadline 10 ''r'' (ex_hang ex_read) =
     Some ([ResponseStart 200 [], ResponseStart 503 hs', ResponseBody body], None)"
  by (rule deadline_starts_second_response [where s = 1]) (simp_all add: ex_hang_def)

section \<open>Concurrent requests\<close>

datatype phase = WaitGlobal | WaitGroup | Running | Rejected | Finished | Cancelled

record bp_sys =
  sys_guard :: ConcurrencyGuard
  sys_reqs :: "(RouteGroup \<times> phase) list"

definition move :: "nat \<Rightarrow> phase \<Rightarrow> ConcurrencyGuard \<Rightarrow> bp_sys \<Rightarrow> bp_sys" where
  "move i ph g s =
     \<lparr>sys_guard = g, sys_reqs = (sys_reqs s)[i := (fst (sys_reqs s ! i), ph)]\<rparr>"

definition at_phase :: "bp_sys \<Rightarrow> nat \<Rightarrow> RouteGroup \<Rightarrow> phase \<Rightarrow> bool" where
  "at_phase s i grp ph \<longleftrightarrow> i < length (sys_reqs s) \<and> sys_reqs s ! i = (grp, ph)"

text \<open>
  One step of one request. The flag says whether tasks may be cancelled: \<open>CancelledError\<close> is not
  caught by \<open>except asyncio.TimeoutError\<close>, and the \<open>finally\<close> clause that releases is only entered
  after \<open>try_acquire\<close> has returned.
\<close>

inductive bp_step :: "bool \<Rightarrow> bp_sys \<Rightarrow> bp_sys \<Rightarrow> bool" for cancels :: bool where
  arrive: "bp_step cancels s (s\<lparr>sys_reqs := sys_reqs s @ [(grp, WaitGlobal)]\<rparr>)"
| global_only: "at_phase s i grp WaitGlobal \<Longrightarrow>
     sem_acquire (global_sem (sys_guard s)) = Some v \<Longrightarrow>
     grp = EXEMPT \<or> group_sems (sys_guard s) grp = None \<Longrightarrow>
     bp_step cancels s (move i Running ((sys_guard s)\<lparr>global_sem := v\<rparr>) s)"
| global_then_group: "at_phase s i grp WaitGlobal \<Longrightarrow>
     sem_acquire (global_sem (sys_guard s)) = Some v \<Longrightarrow>
     grp \<noteq> EXEMPT \<Longrightarrow> group_sems (sys_guard s) grp = Some w \<Longrightarrow>
     bp_step cancels s (move i WaitGroup ((sys_guard s)\<lparr>global_sem := v\<rparr>) s)"
| global_timeout: "at_phase s i grp WaitGlobal \<Longrightarrow>
     bp_step cancels s (move i Rejected (sys_guard s) s)"
| group_acquired: "at_phase s i grp WaitGroup \<Longrightarrow>
     group_sems (sys_guard s) grp = Some w \<Longrightarrow> sem_acquire w = Some w' \<Longrightarrow>
     bp_step cancels s
       (move i Running ((sys_guard s)\<lparr>group_sems := (group_sems (sys_guard s))(grp \<mapsto> w')\<rparr>) s)"
| group_timeout: "at_phase s i grp WaitGroup \<Longrightarrow>
     bp_step cancels s
       (move i Rejected ((sys_guard s)\<lparr>global_sem := sem_release (global_sem (sys_guard s))\<rparr>) s)"
| finish: "at_phase s i grp Running \<Longrightarrow>
     bp_step cancels s (move i Finished (guard_release grp (sys_guard s)) s)"
| cancel_global: "cancels \<Longrightarrow> at_phase s i grp WaitGlobal \<Longrightarrow>
     bp_step cancels s (move i Cancelled (sys_guard s) s)"
| cancel_group: "cancels \<Longrightarrow> at_phase s i grp WaitGroup \<Longrightarrow>
     bp_step cancels s (move i Cancelled (sys_guard s) s)"
| cancel_running: "cancels \<Longrightarrow> at_phase s i grp Running \<Longrightarrow>
     bp_step cancels s (move i Cancelled (guard_release grp (sys_guard s)) s)"

inductive_cases bp_stepE: "bp_step cancels s t"

inductive bp_reach :: "bool \<Rightarrow> Settings \<Rightarrow> bp_sys \<Rightarrow> bool" for cancels settings where
  start: "bp_reach cancels settings \<lparr>sys_guard = new_guard settings, sys_reqs = []\<rparr>"
| step: "bp_reach cancels settings s \<Longrightarrow> bp_step cancels s t \<Longrightarrow> bp_reach cancels settings t"

definition holds_global :: "RouteGroup \<times> phase \<Rightarrow> bool" where
  "holds_global r \<longleftrightarrow> snd r = WaitGroup \<or> snd r = Running"

definition holds_group :: "RouteGroup \<Rightarrow> RouteGroup \<times> phase \<Rightarrow> bool" where
  "holds_group grp r \<longleftrightarrow> r = (grp, Running)"

definition count_where :: "(RouteGroup \<times> phase \<Rightarrow> bool) \<Rightarrow> bp_sys \<Rightarrow> nat" where
  "count_where P s = length (filter P (sys_reqs s))"

definition permit_inv :: "Settings \<Rightarrow> bp_sys \<Rightarrow> bool" where
  "permit_inv settings s \<longleftrightarrow>
     global_sem (sys_guard s) + count_where holds_global s = mm_bp_global_max_concurrent settings
     \<and> (\<forall>grp. map_option (\<lambda>w. w + count_where (holds_group grp) s) (group_sems (sys_guard s) grp)
              = group_sems (new_guard settings) grp)"

lemma count_where_move:
  "at_phase s i grp ph \<Longrightarrow>
   count_where P (move i ph' g s) + (if P (grp, ph) then 1 else 0)
     = count_where P s + (if P (grp, ph') then 1 else 0)"
  using length_filter_update [of i "sys_reqs s" P "(grp, ph')"]
  by (simp add: at_phase_def count_where_def move_def)

lemma move_guard [simp]: "sys_guard (move i ph g s) = g"
  by (simp add: move_def)

lemma count_where_arrive:
  "count_where P (s\<lparr>sys_reqs := sys_reqs s @ [r]\<rparr>) = count_where P s + (if P r then 1 else 0)"
  by (simp add: count_where_def)

lemma new_guard_no_exempt [simp]: "group_sems (new_guard settings) EXEMPT = None"
  by (simp add: new_guard_def)

lemma permit_inv_exempt: "permit_inv settings s \<Longrightarrow> group_sems (sys_guard s) EXEMPT = None"
  unfolding permit_inv_def by (metis map_option_is_None new_guard_no_exempt)


lemma permit_inv_move:
  assumes inv: "permit_inv settings s" and at: "at_phase s i grp ph"
    and gl: "global_sem g + (if holds_global (grp, ph') then 1 else 0)
           = global_sem (sys_guard s) + (if holds_global (grp, ph) then 1 else 0)"
    and others: "\<And>grp'. grp' \<noteq> grp \<Longrightarrow> group_sems g grp' = group_sems (sys_guard s) grp'"
    and own: "map_option (\<lambda>w. w + (if ph' = Running then 1 else 0)) (group_sems g grp)
           = map_option (\<lambda>w. w + (if ph = Running then 1 else 0)) (group_sems (sys_guard s) grp)"
  shows "permit_inv settings (move i ph' g s)"
proof -
  have "global_sem g + count_where holds_global (move i ph' g s)
      = mm_bp_global_max_concurrent settings"
    using inv gl count_where_move [OF at, of holds_global ph' g]
    by (auto simp: permit_inv_def split: if_splits)
  moreover have "map_option (\<lambda>w. w + count_where (holds_group grp') (move i ph' g s)) (group_sems g grp')
      = group_sems (new_guard settings) grp'" for grp'
  proof -
    note c = count_where_move [OF at, of "holds_group grp'" ph' g]
    have old: "map_option (\<lambda>w. w + count_where (holds_group grp') s) (group_sems (sys_guard s) grp')
        = group_sems (new_guard settings) grp'" using inv by (simp add: permit_inv_def)
    show ?thesis
    proof (cases "grp' = grp")
      case False
      with c others old show ?thesis by (simp add: holds_group_def)
    next
      case True
      with c own old [symmetric] show ?thesis
        by (cases "group_sems g grp"; cases "group_sems (sys_guard s) grp")
          (auto simp: holds_group_def split: if_splits)
    qed
  qed
  ultimately show ?thesis by (simp add: permit_inv_def)
qed

lemma guard_release_global [simp]:
  "global_sem (guard_release grp g) = Suc (global_sem g)"
  by (simp add: guard_release_def sem_release_def Let_def split: option.split)

lemma guard_release_groups:
  "group_sems (guard_release grp g) =
     (if grp = EXEMPT then group_sems g
      else (group_sems g)(grp := map_option Suc (group_sems g grp)))"
  by (auto simp: guard_release_def sem_release_def Let_def fun_eq_iff split: option.split)

lemma bp_step_permit_inv:
  assumes "bp_step False s t" and "permit_inv settings s"
  shows "permit_inv settings t"
  using assms
proof (cases rule: bp_step.cases)
  case (arrive grp)
  with assms(2) show ?thesis
    by (simp add: permit_inv_def count_where_arrive holds_global_def holds_group_def)
next
  case (global_only i grp v)
  have "group_sems (sys_guard s) grp = None"
    using global_only(4) permit_inv_exempt [OF assms(2)] by auto
  with global_only assms(2) sem.acquire_Some [OF global_only(3)] show ?thesis
    by (auto intro!: permit_inv_move simp: holds_global_def)
next
  case (global_then_group i grp v w)
  with assms(2) sem.acquire_Some [OF global_then_group(3)] show ?thesis
    by (auto intro!: permit_inv_move simp: holds_global_def)
next
  case (global_timeout i grp)
  with assms(2) show ?thesis by (auto intro!: permit_inv_move simp: holds_global_def)
next
  case (group_acquired i grp w w')
  with assms(2) sem.acquire_Some [OF group_acquired(4)] show ?thesis
    by (auto intro!: permit_inv_move simp: holds_global_def)
next
  case (group_timeout i grp)
  with assms(2) show ?thesis
    by (auto intro!: permit_inv_move simp: holds_global_def sem_release_def)
next
  case (finish i grp)
  show ?thesis
    unfolding finish(1) using assms(2) finish(2) permit_inv_exempt [OF assms(2)]
    by (intro permit_inv_move)
      (auto simp: holds_global_def guard_release_groups option.map_comp comp_def)
qed simp_all

lemma bp_reach_permit_inv: "bp_reach False settings s \<Longrightarrow> permit_inv settings s"
proof (induction rule: bp_reach.induct)
  case start
  show ?case
    by (simp add: permit_inv_def count_where_def new_guard_def option.map_ident)
next
  case (step s t)
  then show ?case by (blast intro: bp_step_permit_inv)
qed

text \<open>C36: the concurrency limits hold in every reachable state of any number of concurrent
  requests: never more than the global bound are past the first semaphore, and never more of one
  group run than its bound.\<close>

theorem concurrency_bounded:
  assumes "bp_reach False settings s"
  shows "count_where holds_global s \<le> mm_bp_global_max_concurrent settings \<and>
     (\<forall>grp n. group_sems (new_guard settings) grp = Some n \<longrightarrow> count_where (holds_group grp) s \<le> n)"
proof (intro conjI allI impI)
  have inv: "permit_inv settings s" using assms by (rule bp_reach_permit_inv)
  then show "count_where holds_global s \<le> mm_bp_global_max_concurrent settings"
    by (auto simp: permit_inv_def)
  fix grp n
  assume "group_sems (new_guard settings) grp = Some n"
  then have "map_option (\<lambda>w. w + count_where (holds_group grp) s) (group_sems (sys_guard s) grp) = Some n"
    using inv by (simp add: permit_inv_def)
  then show "count_where (holds_group grp) s \<le> n" by auto
qed

definition ex_sys :: "RouteGroup \<Rightarrow> phase list \<Rightarrow> ConcurrencyGuard \<Rightarrow> bp_sys" where
  "ex_sys grp phs g = \<lparr>sys_guard = g, sys_reqs = map (\<lambda>ph. (grp, ph)) phs\<rparr>"

definition ex_guard :: "nat \<Rightarrow> nat \<Rightarrow> ConcurrencyGuard" where
  "ex_guard v w = (new_guard default_settings)\<lparr>global_sem := v,
     group_sems := (group_sems (new_guard default_settings))(READS \<mapsto> w)\<rparr>"

lemma ex_guard_simps:
  "global_sem (ex_guard v w) = v" "group_sems (ex_guard v w) READS = Some w"
  "(ex_guard v w)\<lparr>global_sem := v'\<rparr> = ex_guard v' w"
  "(ex_guard v w)\<lparr>group_sems := (group_sems (ex_guard v w))(READS \<mapsto> w')\<rparr> = ex_guard v w'"
  "guard_release READS (ex_guard v w) = ex_guard (Suc v) (Suc w)"
  by (simp_all add: ex_guard_def guard_release_def sem_release_def)

lemma ex_guard_new: "new_guard default_settings = ex_guard 100 50"
  by (simp add: ex_guard_def new_guard_def default_settings_def fun_eq_iff)

lemma ex_reach_start: "bp_reach c default_settings (ex_sys READS [] (ex_guard 100 50))"
  using bp_reach.start [of c default_settings] by (simp add: ex_sys_def ex_guard_new)

lemma ex_arrive:
  "bp_reach c default_settings (ex_sys READS phs g) \<Longrightarrow>
   bp_reach c default_settings (ex_sys READS (phs @ [WaitGlobal]) g)"
  using bp_reach.step [OF _ bp_step.arrive [of c _ READS]] by (fastforce simp: ex_sys_def)

lemma ex_global:
  "bp_reach c default_settings (ex_sys READS [WaitGlobal] (ex_guard (Suc v) w)) \<Longrightarrow>
   bp_reach c default_settings (ex_sys READS [WaitGroup] (ex_guard v w))"
  using bp_reach.step [OF _ bp_step.global_then_group
      [where i = 0 and grp = READS and v = v and w = w and s = "ex_sys READS [WaitGlobal] (ex_guard (Suc v) w)"]]
  by (simp add: ex_sys_def at_phase_def move_def sem_acquire_def ex_guard_simps)

lemma ex_group:
  "bp_reach c default_settings (ex_sys READS [WaitGroup] (ex_guard v (Suc w))) \<Longrightarrow>
   bp_reach c default_settings (ex_sys READS [Running] (ex_guard v w))"
  using bp_reach.step [OF _ bp_step.group_acquired
      [where i = 0 and grp = READS and w = "Suc w" and w' = w and s = "ex_sys READS [WaitGroup] (ex_guard v (Suc w))"]]
  by (simp add: ex_sys_def at_phase_def move_def sem_acquire_def ex_guard_simps)

lemma ex_finish:
  "bp_reach c default_settings (ex_sys READS [Running] (ex_guard v w)) \<Longrightarrow>
   bp_reach c default_settings (ex_sys READS [Finished] (ex_guard (Suc v) (Suc w)))"
  using bp_reach.step [OF _ bp_step.finish
      [where i = 0 and grp = READS and s = "ex_sys READS [Running] (ex_guard v w)"]]
  by (simp add: ex_sys_def at_phase_def move_def ex_guard_simps)

lemma ex_reach_waiting: "bp_reach c default_settings (ex_sys READS [WaitGroup] (ex_guard 99 50))"
  using ex_global [of c 99 50] ex_arrive [OF ex_reach_start, of c] by simp

lemma ex_reach_running: "bp_reach c default_settings (ex_sys READS [Running] (ex_guard 99 49))"
  using ex_group [of c 99 49] ex_reach_waiting [of c] by simp

lemma ex_reach_finished: "bp_reach c default_settings (ex_sys READS [Finished] (ex_guard 100 50))"
  using ex_finish [of c 99 49] ex_reach_running [of c] by simp

theorem concurrency_bounded_witness:
  "count_where (holds_group READS) (ex_sys READS [Running] (ex_guard 99 49)) \<le> 50"
  using concurrency_bounded [OF ex_reach_running]
  by (simp add: ex_guard_new ex_guard_simps)

text \<open>No permit is lost while tasks are not cancelled. Once every request has been rejected
  or has finished, every semaphore is back at its bound.\<close>

theorem quiescent_permits_restored:
  assumes "bp_reach False settings s"
    and "\<forall>r\<in>set (sys_reqs s). snd r = Rejected \<or> snd r = Finished"
  shows "sys_guard s = new_guard settings"
proof -
  have inv: "permit_inv settings s" using assms(1) by (rule bp_reach_permit_inv)
  have g: "count_where holds_global s = 0" and r: "count_where (holds_group grp) s = 0" for grp
    using assms(2) by (auto simp: count_where_def holds_global_def holds_group_def filter_empty_conv)
  have "group_sems (sys_guard s) grp = group_sems (new_guard settings) grp" for grp
  proof -
    have "map_option (\<lambda>w. w + count_where (holds_group grp) s) (group_sems (sys_guard s) grp)
        = group_sems (new_guard settings) grp" using inv by (simp add: permit_inv_def)
    then show ?thesis by (simp add: r option.map_ident)
  qed
  then have "group_sems (sys_guard s) = group_sems (new_guard settings)" by (rule ext)
  moreover have "global_sem (sys_guard s) = global_sem (new_guard settings)"
    using inv g by (simp add: permit_inv_def new_guard_def)
  ultimately show ?thesis by simp
qed

theorem quiescent_permits_restored_witness:
  "sys_guard (ex_sys READS [Finished] (ex_guard 100 50)) = new_guard default_settings"
  by (rule quiescent_permits_restored [OF ex_reach_finished]) (simp add: ex_sys_def)

definition in_flight :: "RouteGroup \<times> phase \<Rightarrow> bool" where
  "in_flight r \<longleftrightarrow> snd r = WaitGlobal \<or> snd r = WaitGroup \<or> snd r = Running"


end
