(* ===== verification/SqlSplit.thy ===== *)
theory SqlSplit
  imports PyString
begin

text \<open>
  \<open>_split_sql_statements\<close> of \<open>meritmolt/database.py\<close>, the scanner that cuts the DDL constants into
  single statements. The scanner state is the local variables of the loop; the index \<open>i\<close> is
  represented by the rest of the text, \<open>sql[i:]\<close>.
\<close>

section \<open>The scanner\<close>

record lex =
  in_single :: bool
  in_double :: bool
  in_line_comment :: bool
  in_block_comment :: bool
  dollar_tag :: "string option"
  buf :: string
  statements :: "string list"

definition lex_init :: lex where
  "lex_init = \<lparr>in_single = False, in_double = False, in_line_comment = False,
     in_block_comment = False, dollar_tag = None, buf = [], statements = []\<rparr>"

definition newline :: char where "newline = CHR 0x0A"
definition squote :: char where "squote = CHR 0x27"
definition dquote :: char where "dquote = CHR 0x22"
definition dollar :: char where "dollar = CHR 0x24"
definition semicolon :: char where "semicolon = CHR 0x3B"

definition nxt :: "string \<Rightarrow> char option" where
  "nxt sql = (case tl sql of [] \<Rightarrow> None | d # _ \<Rightarrow> Some d)"

definition add :: "string \<Rightarrow> lex \<Rightarrow> lex" where
  "add s st = st\<lparr>buf := buf st @ s\<rparr>"

text \<open>The tag \<open>$name$\<close> at the head of the text, if there is one.\<close>

definition open_tag :: "string \<Rightarrow> string option" where
  "open_tag sql =
     (let name = takeWhile (\<lambda>c. py_isalnum c \<or> c = CHR ''_'') (tl sql);
          after = drop (length name) (tl sql)
      in if after \<noteq> [] \<and> hd after = dollar then Some (dollar # name @ [dollar]) else None)"

definition flush :: "lex \<Rightarrow> lex" where
  "flush st =
     (let stmt = py_strip (buf st)
      in st\<lparr>statements := (if stmt \<noteq> [] then statements st @ [stmt] else statements st), buf := []\<rparr>)"

text \<open>
  One iteration of the loop on a nonempty rest: how many characters are consumed, and the new
  state. The branches are those of the source, in its order.
\<close>

definition lex_step :: "string \<Rightarrow> lex \<Rightarrow> nat \<times> lex" where
  "lex_step sql st =
     (let ch = hd sql
      in if in_line_comment st then
           (1, (add [ch] st)\<lparr>in_line_comment := ch \<noteq> newline\<rparr>)
         else if in_block_comment st then
           (if ch = CHR ''*'' \<and> nxt sql = Some (CHR ''/'')
            then (2, (add [ch, CHR ''/''] st)\<lparr>in_block_comment := False\<rparr>)
            else (1, add [ch] st))
         else if dollar_tag st \<noteq> None then
           (let tag = the (dollar_tag st)
            in if ch = dollar \<and> py_startswith sql tag
               then (length tag, (add tag st)\<lparr>dollar_tag := None\<rparr>)
               else (1, add [ch] st))
         else if in_single st then
           (if ch = squote
            then (if nxt sql = Some squote then (2, add [ch, squote] st)
                  else (1, (add [ch] st)\<lparr>in_single := False\<rparr>))
            else (1, add [ch] st))
         else if in_double st then
           (if ch = dquote
            then (if nxt sql = Some dquote then (2, add [ch, dquote] st)
                  else (1, (add [ch] st)\<lparr>in_double := False\<rparr>))
            else (1, add [ch] st))
         else if ch = CHR ''-'' \<and> nxt sql = Some (CHR ''-'') then
           (2, (add [ch, CHR ''-''] st)\<lparr>in_line_comment := True\<rparr>)
         else if ch = CHR ''/'' \<and> nxt sql = Some (CHR ''*'') then
           (2, (add [ch, CHR ''*''] st)\<lparr>in_block_comment := True\<rparr>)
         else if ch = squote then (1, (add [ch] st)\<lparr>in_single := True\<rparr>)
         else if ch = dquote then (1, (add [ch] st)\<lparr>in_double := True\<rparr>)
         else if ch = dollar \<and> open_tag sql \<noteq> None then
           (let tag = the (open_tag sql)
            in (length tag, (add tag st)\<lparr>dollar_tag := Some tag\<rparr>))
         else if ch = semicolon then (1, flush st)
         else (1, add [ch] st))"

text \<open>
  The loop. A step that consumes nothing would make the source loop for ever; it needs an empty
  \<open>dollar_tag\<close>, which no step creates (\<open>lex_step_progress\<close> below), so the guard on \<open>k\<close> is never
  taken from the initial state.
\<close>

function lex_loop :: "string \<Rightarrow> lex \<Rightarrow> lex" where
  "lex_loop sql st =
     (if sql = [] then st
      else (let (k, st') = lex_step sql st
            in if k = 0 then st' else lex_loop (drop k sql) st'))"
  by pat_completeness auto
termination
  by (relation "measure (\<lambda>(sql, st). length sql)") auto

declare lex_loop.simps [simp del]

definition split_sql_statements :: "string \<Rightarrow> string list" where
  "split_sql_statements sql = statements (flush (lex_loop sql lex_init))"

section \<open>Progress and content\<close>

definition tag_char :: "char \<Rightarrow> bool" where
  "tag_char c \<longleftrightarrow> py_isalnum c \<or> c = CHR ''_''"

definition tag_ok :: "string \<Rightarrow> bool" where
  "tag_ok t \<longleftrightarrow> (\<exists>name. t = dollar # name @ [dollar] \<and> list_all tag_char name)"

definition lex_ok :: "lex \<Rightarrow> bool" where
  "lex_ok st \<longleftrightarrow> (\<forall>t. dollar_tag st = Some t \<longrightarrow> tag_ok t)"

lemma lex_init_ok [simp]: "lex_ok lex_init"
  by (simp add: lex_ok_def lex_init_def)

lemma tag_ok_nonempty: "tag_ok t \<Longrightarrow> t \<noteq> []"
  by (auto simp: tag_ok_def)

lemma dollar_not_tag_char [simp]: "\<not> tag_char dollar"
  by (simp add: tag_char_def dollar_def py_isalnum_def Let_def)

lemma add_simps [simp]:
  "buf (add s st) = buf st @ s" "statements (add s st) = statements st"
  "dollar_tag (add s st) = dollar_tag st" "in_single (add s st) = in_single st"
  "in_double (add s st) = in_double st" "in_line_comment (add s st) = in_line_comment st"
  "in_block_comment (add s st) = in_block_comment st"
  by (simp_all add: add_def)

lemma flush_simps [simp]:
  "buf (flush st) = []" "dollar_tag (flush st) = dollar_tag st"
  "statements (flush st) = statements st @ filter (\<lambda>s. s \<noteq> []) [py_strip (buf st)]"
  by (simp_all add: flush_def Let_def)

lemma open_tag_complete:
  assumes "tag_ok t"
  shows "open_tag (t @ rest) = Some t"
proof -
  obtain name where t: "t = dollar # name @ [dollar]" and name: "list_all tag_char name"
    using assms by (auto simp: tag_ok_def)
  have "takeWhile tag_char (name @ dollar # rest) = name"
    using name by (simp add: takeWhile_tail list_all_iff)
  then show ?thesis by (simp add: t open_tag_def Let_def flip: tag_char_def)
qed

lemma open_tag_sound:
  assumes "open_tag sql = Some t" and "hd sql = dollar" and "sql \<noteq> []"
  shows "tag_ok t \<and> (\<exists>rest. sql = t @ rest)"
proof -
  let ?name = "takeWhile tag_char (tl sql)"
  let ?after = "drop (length ?name) (tl sql)"
  have t: "t = dollar # ?name @ [dollar]" and after: "?after \<noteq> []" "hd ?after = dollar"
    using assms(1) by (auto simp: open_tag_def Let_def simp flip: tag_char_def split: if_splits)
  have "list_all tag_char ?name" by (metis list_all_iff set_takeWhileD)
  with t have "tag_ok t" by (auto simp: tag_ok_def)
  moreover have "tl sql = ?name @ ?after" by (metis append_take_drop_id takeWhile_eq_take)
  then have "sql = t @ tl ?after" using t after assms(2,3) by (metis Cons_eq_appendI append_assoc append_Nil hd_Cons_tl)
  ultimately show ?thesis by blast
qed

lemma nxt_append: "nxt (a # b # s) = Some b" "nxt [a] = None"
  by (simp_all add: nxt_def)

text \<open>
  Every step consumes text, and either adds exactly what it consumed to the buffer or ends a
  statement at a semicolon met in the plain state.
\<close>

lemma lex_step_cases:
  assumes "sql \<noteq> []" and "lex_ok st" and "lex_step sql st = (k, st')"
  shows "0 < k \<and> k \<le> length sql \<and> lex_ok st' \<and>
     (buf st' = buf st @ take k sql \<and> statements st' = statements st
      \<or> k = 1 \<and> hd sql = semicolon \<and> st' = flush st
        \<and> \<not> in_single st \<and> \<not> in_double st \<and> \<not> in_line_comment st \<and> \<not> in_block_comment st
        \<and> dollar_tag st = None)"
proof -
  have one: "take 1 sql = [hd sql]" and len: "1 \<le> length sql"
    using assms(1) by (cases sql; simp)+
  have two: "take 2 sql = [hd sql, d] \<and> 2 \<le> length sql" if "nxt sql = Some d" for d
    using that assms(1) by (cases sql; cases "tl sql") (auto simp: nxt_def)
  have tag: "take (length t) sql = t \<and> length t \<le> length sql"
    if "py_startswith sql t" for t
    using that by (auto simp: py_startswith_def) (metis length_take min.cobounded1)
  have otag: "tag_ok t \<and> take (length t) sql = t \<and> length t \<le> length sql"
    if "open_tag sql = Some t" "hd sql = dollar" for t
    using open_tag_sound [OF that assms(1)] by auto
  show ?thesis
    using assms(2,3) one len
    by (auto simp: lex_step_def Let_def lex_ok_def dest: two tag otag tag_ok_nonempty split: if_splits)
qed

lemma lex_step_progress: "sql \<noteq> [] \<Longrightarrow> lex_ok st \<Longrightarrow> 0 < fst (lex_step sql st)"
  using lex_step_cases [of sql st "fst (lex_step sql st)" "snd (lex_step sql st)"] by simp

lemma lex_loop_Nil [simp]: "lex_loop [] st = st"
  by (simp add: lex_loop.simps)

lemma lex_loop_step:
  "sql \<noteq> [] \<Longrightarrow> lex_ok st \<Longrightarrow> lex_step sql st = (k, st') \<Longrightarrow> lex_loop sql st = lex_loop (drop k sql) st'"
  using lex_step_progress [of sql st] by (simp add: lex_loop.simps [of sql st])

text \<open>The states between two steps of the scan, as long as no statement ends.\<close>

inductive scans :: "string \<Rightarrow> string \<Rightarrow> lex \<Rightarrow> lex \<Rightarrow> bool" where
  scans_Nil: "scans [] q st st"
| scans_step: "c \<noteq> [] \<Longrightarrow> lex_step (c @ p @ q) st = (length c, st1) \<Longrightarrow> buf st1 = buf st @ c \<Longrightarrow>
     statements st1 = statements st \<Longrightarrow> scans p q st1 st2 \<Longrightarrow> scans (c @ p) q st st2"

lemma flush_plain:
  "\<not> in_single st \<Longrightarrow> \<not> in_double st \<Longrightarrow> \<not> in_line_comment st \<Longrightarrow> \<not> in_block_comment st \<Longrightarrow>
   dollar_tag st = None \<Longrightarrow> flush st = lex_init\<lparr>statements := statements (flush st)\<rparr>"
  by (simp add: lex_init_def flush_def Let_def)

definition seg_scans :: "string \<Rightarrow> bool" where
  "seg_scans g \<longleftrightarrow> (\<exists>q T st. scans g q (lex_init\<lparr>statements := T\<rparr>) st)"

text \<open>
  The text is cut at some of its semicolons into segments; each segment is scanned on its own from
  the initial state.
\<close>

lemma lex_loop_segments:
  "lex_ok st \<Longrightarrow>
   \<exists>p1 segs q st1. buf st @ sql = py_join [semicolon] ((buf st @ p1) # segs)
     \<and> sql = p1 @ q \<and> scans p1 q st st1 \<and> (\<forall>g\<in>set segs. seg_scans g)
     \<and> buf (lex_loop sql st) = last ((buf st @ p1) # segs)
     \<and> statements (lex_loop sql st) = statements st
         @ filter (\<lambda>s. s \<noteq> []) (map py_strip (butlast ((buf st @ p1) # segs)))"
proof (induction sql st rule: lex_loop.induct)
  case (1 sql st)
  show ?case
  proof (cases "sql = []")
    case True
    have "scans [] [] st st" by (rule scans_Nil)
    with True show ?thesis by (intro exI [of _ "[]"] exI) auto
  next
    case False
    obtain k st' where step: "lex_step sql st = (k, st')" by (cases "lex_step sql st")
    note c = lex_step_cases [OF False "1.prems" step]
    have loop: "lex_loop sql st = lex_loop (drop k sql) st'"
      using lex_loop_step [OF False "1.prems" step] .
    obtain p1 segs q st1 where IH:
      "buf st' @ drop k sql = py_join [semicolon] ((buf st' @ p1) # segs)"
      "drop k sql = p1 @ q" "scans p1 q st' st1" "\<forall>g\<in>set segs. seg_scans g"
      "buf (lex_loop (drop k sql) st') = last ((buf st' @ p1) # segs)"
      "statements (lex_loop (drop k sql) st') = statements st'
         @ filter (\<lambda>s. s \<noteq> []) (map py_strip (butlast ((buf st' @ p1) # segs)))"
      using "1.IH" [OF False step [symmetric]] c by auto
    from c consider (adds) "buf st' = buf st @ take k sql" "statements st' = statements st"
      | (ends) "k = 1" "hd sql = semicolon" "st' = flush st"
          "st' = lex_init\<lparr>statements := statements (flush st)\<rparr>"
      using flush_plain by blast
    then show ?thesis
    proof cases
      case adds
      have sql: "sql = take k sql @ p1 @ q" using IH(2) by (metis append_take_drop_id)
      have "scans (take k sql @ p1) q st st1"
      proof (rule scans_step)
        show "take k sql \<noteq> []" using c False by simp
        show "lex_step (take k sql @ p1 @ q) st = (length (take k sql), st')"
          using c step sql by (simp add: min_absorb2)
      qed (use adds IH(3) in simp_all)
      moreover have "buf st @ sql = py_join [semicolon] ((buf st @ take k sql @ p1) # segs)"
        using IH(1) adds(1) by (metis append.assoc append_take_drop_id)
      ultimately show ?thesis
        using IH(4-6) adds sql loop
        by (intro exI [of _ "take k sql @ p1"] exI [of _ segs] exI [of _ q] exI [of _ st1]) auto
    next
      case ends
      have b: "buf st' = []" using ends(3) by simp
      have sql: "sql = semicolon # drop 1 sql" using ends(2) False by (cases sql) auto
      have "scans [] sql st st" by (rule scans_Nil)
      moreover have "seg_scans p1"
        unfolding seg_scans_def using IH(3) ends(4) by metis
      moreover have "buf st @ sql = py_join [semicolon] (buf st # p1 # segs)"
        using IH(1) b ends(1) sql by simp
      ultimately show ?thesis
        using IH(4-6) b ends loop
        by (intro exI [of _ "[]"] exI [of _ "p1 # segs"] exI [of _ sql] exI [of _ st]) auto
    qed
  qed
qed

lemma split_segments:
  "\<exists>segs. sql = py_join [semicolon] segs \<and> segs \<noteq> [] \<and> (\<forall>g\<in>set segs. seg_scans g)
     \<and> split_sql_statements sql = filter (\<lambda>s. s \<noteq> []) (map py_strip segs)"
proof -
  have init: "buf lex_init = []" "statements lex_init = []" "lex_init = lex_init\<lparr>statements := []\<rparr>"
    by (simp_all add: lex_init_def)
  obtain p1 segs q st1 where g: "sql = py_join [semicolon] (p1 # segs)" "scans p1 q lex_init st1"
    "\<forall>g\<in>set segs. seg_scans g" "buf (lex_loop sql lex_init) = last (p1 # segs)"
    "statements (lex_loop sql lex_init) =
       filter (\<lambda>s. s \<noteq> []) (map py_strip (butlast (p1 # segs)))"
    using lex_loop_segments [of lex_init sql] init by auto
  have "seg_scans p1" unfolding seg_scans_def using g(2) init(3) by metis
  moreover have "map py_strip (butlast (p1 # segs)) @ [py_strip (last (p1 # segs))]
      = map py_strip (p1 # segs)"
    by (metis append_butlast_last_id list.distinct(1) list.simps(8,9) map_append)
  then have "filter (\<lambda>s. s \<noteq> []) (map py_strip (butlast (p1 # segs)))
      @ filter (\<lambda>s. s \<noteq> []) [py_strip (last (p1 # segs))]
      = filter (\<lambda>s. s \<noteq> []) (map py_strip (p1 # segs))"
    by (simp only: filter_append [symmetric])
  then have "split_sql_statements sql = filter (\<lambda>s. s \<noteq> []) (map py_strip (p1 # segs))"
    by (simp only: split_sql_statements_def flush_simps g(4,5))
  ultimately show ?thesis using g(1,3) by (intro exI [of _ "p1 # segs"]) auto
qed

text \<open>What the splitter computes. The text is cut at some of its own semicolons, and the
  result is the list of the pieces, stripped, without the empty ones: no other character is lost,
  duplicated or moved.\<close>

theorem split_sql_statements_cuts:
  "\<exists>segs. sql = py_join [semicolon] segs \<and>
     split_sql_statements sql = filter (\<lambda>s. s \<noteq> []) (map py_strip segs)"
  using split_segments [of sql] by blast

end
