(* ===== verification/SqlSingle.thy ===== *)
theory SqlSingle
  imports SqlSplit
begin

text \<open>
  Every statement the splitter returns is a single statement: splitting it again gives it back.
  The scan of a statement does not depend on what follows it in the text, nor on the whitespace
  around it.
\<close>

section \<open>The modes of the scanner\<close>

lemma lex_step_line:
  "in_line_comment st \<Longrightarrow>
   lex_step sql st = (1, (add [hd sql] st)\<lparr>in_line_comment := hd sql \<noteq> newline\<rparr>)"
  by (simp add: lex_step_def Let_def split del: if_split)

lemma lex_step_block:
  "\<not> in_line_comment st \<Longrightarrow> in_block_comment st \<Longrightarrow>
   lex_step sql st =
     (if hd sql = CHR ''*'' \<and> nxt sql = Some (CHR ''/'')
      then (2, (add [hd sql, CHR ''/''] st)\<lparr>in_block_comment := False\<rparr>)
      else (1, add [hd sql] st))"
  by (simp add: lex_step_def Let_def split del: if_split)

lemma lex_step_dollar:
  "\<not> in_line_comment st \<Longrightarrow> \<not> in_block_comment st \<Longrightarrow> dollar_tag st = Some tag \<Longrightarrow>
   lex_step sql st =
     (if hd sql = dollar \<and> py_startswith sql tag
      then (length tag, (add tag st)\<lparr>dollar_tag := None\<rparr>) else (1, add [hd sql] st))"
  by (simp add: lex_step_def Let_def split del: if_split)

lemma lex_step_single:
  "\<not> in_line_comment st \<Longrightarrow> \<not> in_block_comment st \<Longrightarrow> dollar_tag st = None \<Longrightarrow> in_single st \<Longrightarrow>
   lex_step sql st =
     (if hd sql = squote
      then (if nxt sql = Some squote then (2, add [hd sql, squote] st)
            else (1, (add [hd sql] st)\<lparr>in_single := False\<rparr>))
      else (1, add [hd sql] st))"
  by (simp add: lex_step_def Let_def split del: if_split)

lemma lex_step_double:
  "\<not> in_line_comment st \<Longrightarrow> \<not> in_block_comment st \<Longrightarrow> dollar_tag st = None \<Longrightarrow> \<not> in_single st \<Longrightarrow>
   in_double st \<Longrightarrow>
   lex_step sql st =
     (if hd sql = dquote
      then (if nxt sql = Some dquote then (2, add [hd sql, dquote] st)
            else (1, (add [hd sql] st)\<lparr>in_double := False\<rparr>))
      else (1, add [hd sql] st))"
  by (simp add: lex_step_def Let_def split del: if_split)

definition plain :: "lex \<Rightarrow> bool" where
  "plain st \<longleftrightarrow> \<not> in_line_comment st \<and> \<not> in_block_comment st \<and> dollar_tag st = None
     \<and> \<not> in_single st \<and> \<not> in_double st"

lemma lex_step_plain:
  "plain st \<Longrightarrow>
   lex_step sql st =
     (if hd sql = CHR ''-'' \<and> nxt sql = Some (CHR ''-'') then
        (2, (add [hd sql, CHR ''-''] st)\<lparr>in_line_comment := True\<rparr>)
      else if hd sql = CHR ''/'' \<and> nxt sql = Some (CHR ''*'') then
        (2, (add [hd sql, CHR ''*''] st)\<lparr>in_block_comment := True\<rparr>)
      else if hd sql = squote then (1, (add [hd sql] st)\<lparr>in_single := True\<rparr>)
      else if hd sql = dquote then (1, (add [hd sql] st)\<lparr>in_double := True\<rparr>)
      else if hd sql = dollar \<and> open_tag sql \<noteq> None then
        (let tag = the (open_tag sql)
         in (length tag, (add tag st)\<lparr>dollar_tag := Some tag\<rparr>))
      else if hd sql = semicolon then (1, flush st)
      else (1, add [hd sql] st))"
  by (simp add: lex_step_def plain_def Let_def split del: if_split)

lemma mode_cases [case_names line block tag single double plain]:
  assumes "in_line_comment st \<Longrightarrow> P"
    and "\<not> in_line_comment st \<Longrightarrow> in_block_comment st \<Longrightarrow> P"
    and "\<And>tag. \<not> in_line_comment st \<Longrightarrow> \<not> in_block_comment st \<Longrightarrow> dollar_tag st = Some tag \<Longrightarrow> P"
    and "\<not> in_line_comment st \<Longrightarrow> \<not> in_block_comment st \<Longrightarrow> dollar_tag st = None \<Longrightarrow> in_single st \<Longrightarrow> P"
    and "\<not> in_line_comment st \<Longrightarrow> \<not> in_block_comment st \<Longrightarrow> dollar_tag st = None \<Longrightarrow> \<not> in_single st
           \<Longrightarrow> in_double st \<Longrightarrow> P"
    and "plain st \<Longrightarrow> P"
  shows P
  using assms unfolding plain_def by (cases "dollar_tag st") blast+

section \<open>What follows a step does not matter\<close>

text \<open>The text after a step does not matter, except that its removal may shorten the lookahead.\<close>

lemma nxt_truncate:
  assumes "c \<noteq> []" and "nxt (c @ x) \<noteq> nxt (c @ x @ z)"
  shows "length c = 1 \<and> nxt (c @ x) = None"
  using assms by (cases c; cases "tl c"; cases x) (auto simp: nxt_def)

lemma startswith_truncate:
  "py_startswith (c @ x) t \<Longrightarrow> py_startswith (c @ x @ z) t"
  by (auto simp: py_startswith_iff) (metis append.assoc)

lemma startswith_same_length:
  "py_startswith (c @ x) t \<Longrightarrow> length t = length c \<Longrightarrow> t = c"
  by (simp add: py_startswith_def)

lemma open_tag_truncate:
  assumes "c \<noteq> []" and "hd c = dollar" and "open_tag (c @ x) = Some t"
  shows "open_tag (c @ x @ z) = Some t"
proof -
  obtain rest where "tag_ok t" and "c @ x = t @ rest"
    using open_tag_sound [OF assms(3)] assms(1,2) by auto
  then show ?thesis using open_tag_complete [of t "rest @ z"] by (metis append.assoc)
qed

lemma open_tag_keep:
  assumes "c \<noteq> []" and "hd c = dollar" and "open_tag (c @ x @ z) = Some t" and "length t = length c"
  shows "open_tag (c @ x) = Some t"
proof -
  obtain rest where "tag_ok t" and "c @ x @ z = t @ rest"
    using open_tag_sound [OF assms(3)] assms(1,2) by auto
  with assms(4) have "t = c" by (metis append_eq_append_conv)
  with \<open>tag_ok t\<close> show ?thesis by (simp add: open_tag_complete)
qed

lemma plain_ch:
  "dollar \<noteq> CHR ''-''" "dollar \<noteq> CHR ''/''" "dollar \<noteq> squote" "dollar \<noteq> dquote" "dollar \<noteq> semicolon"
  by (simp_all add: dollar_def squote_def dquote_def semicolon_def)

lemma lex_step_plain_dollar:
  "plain st \<Longrightarrow> hd sql = dollar \<Longrightarrow>
   lex_step sql st = (case open_tag sql of
       None \<Rightarrow> (1, add [dollar] st)
     | Some tag \<Rightarrow> (length tag, (add tag st)\<lparr>dollar_tag := Some tag\<rparr>))"
  by (simp add: lex_step_plain plain_ch Let_def split: option.split)

lemma truncate_tag:
  assumes "c \<noteq> []" and "\<not> in_line_comment st" "\<not> in_block_comment st" "dollar_tag st = Some tag"
    and "lex_step (c @ x @ z) st = (length c, st')"
  shows "lex_step (c @ x) st = (length c, st')"
proof -
  have hd: "hd (c @ x) = hd c" "hd (c @ x @ z) = hd c" using assms(1) by simp_all
  note step = lex_step_dollar [OF assms(2-4)]
  show ?thesis
  proof (cases "hd c = dollar \<and> py_startswith (c @ x @ z) tag")
    case True
    then have e: "lex_step (c @ x @ z) st = (length tag, (add tag st)\<lparr>dollar_tag := None\<rparr>)"
      unfolding step hd by (rule if_P)
    with assms(5) have len: "length tag = length c" by (simp only: prod.inject)
    then have "tag = c" using startswith_same_length True by blast
    then have "py_startswith (c @ x) tag" by (simp only: py_startswith_iff) blast
    then have "lex_step (c @ x) st = (length tag, (add tag st)\<lparr>dollar_tag := None\<rparr>)"
      using True unfolding step hd by (intro if_P) simp
    with e assms(5) show ?thesis by (simp only:)
  next
    case False
    then have "\<not> (hd c = dollar \<and> py_startswith (c @ x) tag)"
      using startswith_truncate [of c x tag z] by blast
    then have "lex_step (c @ x) st = (1, add [hd c] st)" unfolding step hd by (rule if_not_P)
    moreover have "lex_step (c @ x @ z) st = (1, add [hd c] st)"
      using False unfolding step hd by (rule if_not_P)
    ultimately show ?thesis using assms(5) by (simp only:)
  qed
qed

lemma truncate_dollar:
  assumes "c \<noteq> []" and "plain st" and "hd c = dollar"
    and "lex_step (c @ x @ z) st = (length c, st')"
  shows "lex_step (c @ x) st = (length c, st')"
proof -
  have hd: "hd (c @ x) = dollar" "hd (c @ x @ z) = dollar" using assms(1,3) by simp_all
  note step = lex_step_plain_dollar [OF assms(2)]
  show ?thesis
  proof (cases "open_tag (c @ x @ z)")
    case None
    then have "open_tag (c @ x) = None"
      using open_tag_truncate [OF assms(1,3), of x _ z] by (cases "open_tag (c @ x)") auto
    with None assms(4) show ?thesis by (simp add: step hd)
  next
    case (Some t)
    with assms(4) have "length t = length c" by (simp add: step hd)
    with Some show ?thesis
      using assms(4) open_tag_keep [OF assms(1,3) Some] by (simp add: step hd)
  qed
qed

lemma lookahead_truncate:
  assumes "c \<noteq> []"
  shows "nxt (c @ x @ z) = Some d \<Longrightarrow> length c = 2 \<Longrightarrow> nxt (c @ x) = Some d"
    and "nxt (c @ x @ z) \<noteq> Some d \<Longrightarrow> nxt (c @ x) \<noteq> Some d"
  using nxt_truncate [OF assms, of x z] by auto

lemma truncate_block:
  assumes "c \<noteq> []" and "\<not> in_line_comment st" "in_block_comment st"
    and "lex_step (c @ x @ z) st = (length c, st')"
  shows "lex_step (c @ x) st = (length c, st')"
  using assms(1,4) lookahead_truncate [OF assms(1), of x z]
  by (auto simp: lex_step_block [OF assms(2,3)] split: if_splits)

lemma truncate_single:
  assumes "c \<noteq> []" and "\<not> in_line_comment st" "\<not> in_block_comment st" "dollar_tag st = None" "in_single st"
    and "lex_step (c @ x @ z) st = (length c, st')"
  shows "lex_step (c @ x) st = (length c, st')"
  using assms(1,6) lookahead_truncate [OF assms(1), of x z]
  by (auto simp: lex_step_single [OF assms(2-5)] split: if_splits)

lemma truncate_double:
  assumes "c \<noteq> []" and "\<not> in_line_comment st" "\<not> in_block_comment st" "dollar_tag st = None"
    "\<not> in_single st" "in_double st"
    and "lex_step (c @ x @ z) st = (length c, st')"
  shows "lex_step (c @ x) st = (length c, st')"
  using assms(1,7) lookahead_truncate [OF assms(1), of x z]
  by (auto simp: lex_step_double [OF assms(2-6)] split: if_splits)

lemma truncate_plain:
  assumes "c \<noteq> []" and "plain st" and "hd c \<noteq> dollar"
    and "lex_step (c @ x @ z) st = (length c, st')"
  shows "lex_step (c @ x) st = (length c, st')"
proof -
  have hd: "hd (c @ x) = hd c" "hd (c @ x @ z) = hd c" using assms(1) by simp_all
  note s = lex_step_plain [OF assms(2), unfolded Let_def]
  note la = lookahead_truncate [OF assms(1), of x z]
  consider "hd c = CHR ''-''" "nxt (c @ x @ z) = Some (CHR ''-'')"
    | "hd c = CHR ''/''" "nxt (c @ x @ z) = Some (CHR ''*'')"
    | "\<not> (hd c = CHR ''-'' \<and> nxt (c @ x @ z) = Some (CHR ''-''))"
      "\<not> (hd c = CHR ''/'' \<and> nxt (c @ x @ z) = Some (CHR ''*''))" by blast
  then show ?thesis
  proof cases
    case 1
    then have "length c = 2" using assms(4) by (simp add: s hd)
    with 1 la(1) have "nxt (c @ x) = Some (CHR ''-'')" by blast
    with 1 show ?thesis using assms(4) by (simp add: s hd)
  next
    case 2
    then have "length c = 2" using assms(4) by (simp add: s hd)
    with 2 la(1) have "nxt (c @ x) = Some (CHR ''*'')" by blast
    with 2 show ?thesis using assms(4) by (simp add: s hd)
  next
    case 3
    then have "\<not> (hd c = CHR ''-'' \<and> nxt (c @ x) = Some (CHR ''-''))"
      "\<not> (hd c = CHR ''/'' \<and> nxt (c @ x) = Some (CHR ''*''))" using la(2) by blast+
    with 3 show ?thesis using assms(3,4) by (simp only: s hd if_False simp_thms)
  qed
qed

lemma lex_step_truncate:
  assumes "c \<noteq> []" and "lex_step (c @ x @ z) st = (length c, st')"
  shows "lex_step (c @ x) st = (length c, st')"
proof (cases st rule: mode_cases)
  case line
  then show ?thesis using assms by (simp add: lex_step_line)
next
  case plain
  then show ?thesis
    using truncate_plain [OF assms(1) _ _ assms(2)] truncate_dollar [OF assms(1) _ _ assms(2)] by blast
next
  case block
  then show ?thesis using truncate_block [OF assms(1) _ _ assms(2)] by blast
next
  case tag
  then show ?thesis using truncate_tag [OF assms(1) _ _ _ assms(2)] by blast
next
  case single
  then show ?thesis using truncate_single [OF assms(1) _ _ _ _ assms(2)] by blast
next
  case double
  then show ?thesis using truncate_double [OF assms(1) _ _ _ _ _ assms(2)] by blast
qed

lemma scans_truncate: "scans p (q1 @ q2) st st' \<Longrightarrow> scans p q1 st st'"
proof (induction p "q1 @ q2" st st' rule: scans.induct)
  case (scans_Nil st)
  show ?case by (rule scans.scans_Nil)
next
  case (scans_step c p st st1 st2)
  have "lex_step (c @ p @ q1) st = (length c, st1)"
    using lex_step_truncate [of c "p @ q1" q2] scans_step by simp
  with scans_step show ?case by (intro scans.scans_step) auto
qed

lemma scans_loop:
  "scans p [] st st' \<Longrightarrow> lex_ok st \<Longrightarrow>
   lex_loop p st = st' \<and> buf st' = buf st @ p \<and> statements st' = statements st"
proof (induction p "[] :: string" st st' rule: scans.induct)
  case (scans_Nil st)
  then show ?case by simp
next
  case (scans_step c p st st1 st2)
  have ne: "c @ p \<noteq> []" using scans_step(1) by simp
  have step: "lex_step (c @ p) st = (length c, st1)" using scans_step(2) by simp
  have "lex_ok st1" using lex_step_cases [OF ne scans_step.prems step] by simp
  with scans_step have "lex_loop p st1 = st2 \<and> buf st2 = buf st1 @ p \<and> statements st2 = statements st1"
    by blast
  with lex_loop_step [OF ne scans_step.prems step] scans_step show ?case by simp
qed

text \<open>Steps do not look at the buffer or at the statements already found.\<close>

definition frame :: "string \<Rightarrow> string list \<Rightarrow> lex \<Rightarrow> lex" where
  "frame b ss st = st\<lparr>buf := b @ buf st, statements := ss @ statements st\<rparr>"

lemma frame_simps [simp]:
  "buf (frame b ss st) = b @ buf st" "statements (frame b ss st) = ss @ statements st"
  "dollar_tag (frame b ss st) = dollar_tag st" "in_single (frame b ss st) = in_single st"
  "in_double (frame b ss st) = in_double st" "in_line_comment (frame b ss st) = in_line_comment st"
  "in_block_comment (frame b ss st) = in_block_comment st"
  by (simp_all add: frame_def)

lemma add_frame: "add s (frame b ss st) = frame b ss (add s st)"
  by (simp add: add_def frame_def)

lemma frame_flags:
  "(frame b ss st)\<lparr>in_single := x\<rparr> = frame b ss (st\<lparr>in_single := x\<rparr>)"
  "(frame b ss st)\<lparr>in_double := x\<rparr> = frame b ss (st\<lparr>in_double := x\<rparr>)"
  "(frame b ss st)\<lparr>in_line_comment := x\<rparr> = frame b ss (st\<lparr>in_line_comment := x\<rparr>)"
  "(frame b ss st)\<lparr>in_block_comment := x\<rparr> = frame b ss (st\<lparr>in_block_comment := x\<rparr>)"
  "(frame b ss st)\<lparr>dollar_tag := t\<rparr> = frame b ss (st\<lparr>dollar_tag := t\<rparr>)"
  by (simp_all add: frame_def)

lemma frame_plain [simp]: "plain (frame b ss st) = plain st"
  by (simp add: plain_def)

lemma lex_step_frame_plain:
  assumes "plain st" and "hd sql \<noteq> semicolon"
  shows "lex_step sql (frame b ss st) = map_prod id (frame b ss) (lex_step sql st)"
  using assms(2)
  by (simp add: lex_step_plain assms(1) add_frame frame_flags Let_def
      if_distrib [of "map_prod id (frame b ss)"] split del: if_split cong: if_cong)

lemma lex_step_plain_semicolon:
  "plain st \<Longrightarrow> hd sql = semicolon \<Longrightarrow> lex_step sql st = (1, flush st)"
  by (simp add: lex_step_plain semicolon_def squote_def dquote_def dollar_def)

lemma lex_step_frame:
  assumes "lex_step sql (frame b ss st) = (k, st1)"
    and "\<not> (hd sql = semicolon \<and> st1 = flush (frame b ss st))"
  shows "\<exists>st2. lex_step sql st = (k, st2) \<and> st1 = frame b ss st2"
proof (cases st rule: mode_cases)
  case plain
  have "hd sql \<noteq> semicolon"
    using assms plain by (auto simp: lex_step_plain_semicolon)
  then show ?thesis
    using assms lex_step_frame_plain [OF plain, of sql b ss] by (cases "lex_step sql st") simp
next
  case line
  then show ?thesis using assms by (auto simp: lex_step_line add_frame frame_flags)
next
  case block
  then show ?thesis using assms by (auto simp: lex_step_block add_frame frame_flags split: if_splits)
next
  case tag
  then show ?thesis using assms by (auto simp: lex_step_dollar add_frame frame_flags split: if_splits)
next
  case single
  then show ?thesis using assms by (auto simp: lex_step_single add_frame frame_flags split: if_splits)
next
  case double
  then show ?thesis using assms by (auto simp: lex_step_double add_frame frame_flags split: if_splits)
qed

lemma flush_adds_nothing: "buf (flush st) = buf st @ c \<Longrightarrow> c = []"
  by simp

lemma scans_frame:
  "scans p q (frame b ss st) st' \<Longrightarrow> \<exists>st2. scans p q st st2 \<and> st' = frame b ss st2"
proof (induction p q "frame b ss st" st' arbitrary: st rule: scans.induct)
  case (scans_Nil q)
  show ?case by (intro exI [of _ st]) (simp add: scans.scans_Nil)
next
  case (scans_step c p q st1 st2)
  have "st1 \<noteq> flush (frame b ss st)" using scans_step(1,3) by auto
  then obtain s1 where s1: "lex_step (c @ p @ q) st = (length c, s1)" "st1 = frame b ss s1"
    using lex_step_frame [OF scans_step(2)] by blast
  obtain s2 where s2: "scans p q s1 s2" "st2 = frame b ss s2" using scans_step(6) [OF s1(2)] by blast
  have "scans (c @ p) q st s2"
    using scans_step(1,3,4) s1 s2(1) by (intro scans.scans_step [where ?st1.0 = s1]) auto
  with s2(2) show ?case by blast
qed

section \<open>Whitespace\<close>

lemma not_space:
  "\<not> py_isspace dollar" "\<not> py_isspace squote" "\<not> py_isspace dquote" "\<not> py_isspace semicolon"
  "\<not> py_isspace (CHR ''-'')" "\<not> py_isspace (CHR ''/'')" "\<not> py_isspace (CHR ''*'')"
  by (simp_all add: py_isspace_def dollar_def squote_def dquote_def semicolon_def)

lemma lex_step_space_plain:
  "plain st \<Longrightarrow> py_isspace (hd sql) \<Longrightarrow> lex_step sql st = (1, add [hd sql] st)"
  using not_space by (auto simp: lex_step_plain)

lemma tag_char_not_space: "tag_char c \<Longrightarrow> \<not> py_isspace c"
  by (auto simp: tag_char_def py_isalnum_def py_isspace_def Let_def)

lemma tag_ok_no_space: "tag_ok t \<Longrightarrow> c \<in> set t \<Longrightarrow> \<not> py_isspace c"
  using tag_char_not_space not_space by (auto simp: tag_ok_def list_all_iff)

lemma lex_step_token:
  assumes "lex_step sql st = (k, st1)" and "buf st1 = buf st @ c" and "lex_ok st" and "sql \<noteq> []"
    and "2 \<le> k" and "d \<in> set c"
  shows "\<not> py_isspace d"
proof (cases st rule: mode_cases)
  case line
  then show ?thesis using assms(1,5) by (simp add: lex_step_line)
next
  case block
  then show ?thesis using assms not_space by (auto simp: lex_step_block split: if_splits)
next
  case (tag t)
  then have "tag_ok t" using assms(3) by (simp add: lex_ok_def)
  then show ?thesis using assms(1,2,5,6) tag tag_ok_no_space
    by (auto simp: lex_step_dollar split: if_splits)
next
  case single
  then show ?thesis using assms not_space by (auto simp: lex_step_single split: if_splits)
next
  case double
  then show ?thesis using assms not_space by (auto simp: lex_step_double split: if_splits)
next
  case plain
  show ?thesis
  proof (cases "hd sql = dollar")
    case True
    show ?thesis
    proof (cases "open_tag sql")
      case None
      then show ?thesis using assms(1,5) by (simp add: lex_step_plain_dollar [OF plain True])
    next
      case (Some t)
      then have "c = t" using assms(1,2) by (auto simp: lex_step_plain_dollar [OF plain True])
      then show ?thesis using open_tag_sound [OF Some True assms(4)] tag_ok_no_space assms(6) by blast
    qed
  next
    case False
    then have "c = [CHR ''-'', CHR ''-''] \<or> c = [CHR ''/'', CHR ''*'']"
      using assms(1,2,5) by (auto simp: lex_step_plain [OF plain] split: if_splits)
    then show ?thesis using assms(6) not_space by auto
  qed
qed

lemma scans_lex_ok:
  "scans p q st st' \<Longrightarrow> lex_ok st \<Longrightarrow> lex_ok st'"
proof (induction rule: scans.induct)
  case (scans_step c p q st st1 st2)
  then have "lex_ok st1" using lex_step_cases [of "c @ p @ q" st "length c" st1] by simp
  with scans_step show ?case by blast
qed simp

text \<open>Leading whitespace is only added to the buffer.\<close>

lemma plain_add [simp]: "plain (add s st) = plain st"
  by (simp add: plain_def)

lemma add_add: "add b (add a st) = add (a @ b) st"
  by (simp add: add_def)

lemma scans_skip:
  "scans (w @ p) q st st' \<Longrightarrow> plain st \<Longrightarrow> \<forall>c\<in>set w. py_isspace c \<Longrightarrow> scans p q (add w st) st'"
proof (induction w arbitrary: st)
  case Nil
  then show ?case by (simp add: add_def)
next
  case (Cons a w)
  from Cons.prems(1) show ?case
  proof (cases rule: scans.cases)
    case (scans_step c p' st1)
    have "hd (c @ p' @ q) = a" using scans_step(1,2) Cons.prems(1) by (metis append_is_Nil_conv hd_append2 list.sel(1) append_Cons)
    then have "lex_step (c @ p' @ q) st = (1, add [a] st)"
      using lex_step_space_plain [OF Cons.prems(2), of "c @ p' @ q"] Cons.prems(3) by simp
    then have st1: "st1 = add [a] st" and "length c = 1" using scans_step(3) by auto
    then have "p' = w @ p" using scans_step(1) by (cases c) auto
    then have "scans p q (add w (add [a] st)) st'"
      using Cons.IH [of "add [a] st"] scans_step(6) st1 Cons.prems(2,3) by simp
    then show ?thesis by (simp add: add_add)
  qed auto
qed

text \<open>Trailing whitespace can be cut off: no token of two or more characters contains any.\<close>

lemma scans_cut:
  assumes "scans g q st st'" and "lex_ok st" and "g = p @ w" and "\<forall>c\<in>set w. py_isspace c"
  shows "\<exists>st1. scans p (w @ q) st st1"
  using assms
proof (induction arbitrary: p rule: scans.induct)
  case (scans_Nil q st)
  then show ?case using scans.scans_Nil by auto
next
  case (scans_step c p0 q st st1 st2)
  show ?case
  proof (cases "p = []")
    case True
    then show ?thesis using scans.scans_Nil by auto
  next
    case False
    have ok: "lex_ok st1"
      using lex_step_cases [of "c @ p0 @ q" st "length c" st1] scans_step by simp
    from scans_step.prems(2) consider (inside) r where "p = c @ r" "p0 = r @ w"
      | (cuts) r where "r \<noteq> []" "c = p @ r" "w = r @ p0"
    proof -
      assume l: "\<And>r. p = c @ r \<Longrightarrow> p0 = r @ w \<Longrightarrow> thesis"
        and r: "\<And>r. r \<noteq> [] \<Longrightarrow> c = p @ r \<Longrightarrow> w = r @ p0 \<Longrightarrow> thesis"
      from scans_step.prems(2) obtain us where "c = p @ us \<and> us @ p0 = w \<or> c @ us = p \<and> p0 = us @ w"
        by (auto simp: append_eq_append_conv2)
      then show thesis using l [of us] l [of "[]"] r [of us] by (cases "us = []") auto
    qed
    then show ?thesis
    proof cases
      case inside
      then obtain s where "scans r (w @ q) st1 s" using scans_step.IH [OF ok] scans_step.prems(3) by blast
      then have "scans (c @ r) (w @ q) st s"
        using scans_step.hyps inside by (intro scans.scans_step [where ?st1.0 = st1]) auto
      with inside show ?thesis by blast
    next
      case cuts
      have "2 \<le> length c" using False cuts by (cases p; cases r) auto
      then have "\<not> py_isspace (hd r)"
        using lex_step_token [OF scans_step.hyps(2,3)] scans_step.prems(1) scans_step.hyps(1) cuts(1,2)
        by simp
      then show ?thesis using cuts scans_step.prems(3) by simp
    qed
  qed
qed

lemma seg_scans_single:
  assumes "seg_scans g" and "py_strip g \<noteq> []"
  shows "split_sql_statements (py_strip g) = [py_strip g]"
proof -
  let ?s = "py_strip g"
  obtain q T st where sc: "scans g q (lex_init\<lparr>statements := T\<rparr>) st"
    using assms(1) unfolding seg_scans_def by blast
  obtain a b where g: "g = a @ ?s @ b" and ws: "\<forall>c\<in>set a \<union> set b. py_isspace c"
    using py_strip_decomp [of g] by blast
  have pl: "plain (lex_init\<lparr>statements := T\<rparr>)" by (simp add: plain_def lex_init_def)
  have "scans (a @ ?s @ b) q (lex_init\<lparr>statements := T\<rparr>) st" using sc g by simp
  from scans_skip [OF this pl] ws
  have "scans (?s @ b) q (add a (lex_init\<lparr>statements := T\<rparr>)) st" by blast
  moreover have "add a (lex_init\<lparr>statements := T\<rparr>) = frame a T lex_init"
    by (simp add: add_def frame_def lex_init_def)
  ultimately obtain st2 where "scans (?s @ b) q lex_init st2" using scans_frame by metis
  from scans_cut [OF this lex_init_ok refl] ws
  obtain st3 where "scans ?s (b @ q) lex_init st3" by blast
  then have "scans ?s [] lex_init st3" using scans_truncate [of ?s "[]" "b @ q"] by simp
  from scans_loop [OF this lex_init_ok]
  have "lex_loop ?s lex_init = st3" "buf st3 = ?s" "statements st3 = []"
    by (simp_all add: lex_init_def)
  then show ?thesis using assms(2) by (simp add: split_sql_statements_def)
qed

lemma split_again:
  assumes "s \<in> set (split_sql_statements sql)"
  shows "split_sql_statements s = [s]"
proof -
  obtain segs where "\<forall>g\<in>set segs. seg_scans g"
    "split_sql_statements sql = filter (\<lambda>s. s \<noteq> []) (map py_strip segs)"
    using split_segments [of sql] by blast
  with assms show ?thesis using seg_scans_single by auto
qed

text \<open>C12: a statement is a single statement. What \<open>exec_driver_sql\<close> is given is never several
  statements in one text, as the splitter itself reads it: splitting a statement again returns it
  alone. With C14, quoted text, comments and dollar-quoted bodies are never cut.\<close>

theorem split_sql_statements_single:
  assumes "s \<in> set (split_sql_statements sql)"
  shows "split_sql_statements s = [s]"
  using assms by (rule split_again)

theorem split_sql_statements_single_witness:
  "split_sql_statements (''SELECT '' @ [squote] @ ''; '' @ [squote]) = [(''SELECT '' @ [squote] @ ''; '' @ [squote])]"
proof (rule split_sql_statements_single)
  show "(''SELECT '' @ [squote] @ ''; '' @ [squote]) \<in> set (split_sql_statements (''SET x; '' @ ''SELECT '' @ [squote] @ ''; '' @ [squote] @ '' ; ''))"
    by code_simp
qed

section \<open>Function bodies\<close>

definition special :: "char \<Rightarrow> bool" where
  "special c \<longleftrightarrow> c \<in> {CHR ''-'', CHR ''/'', squote, dquote, dollar, semicolon}"

lemma lex_loop_ordinary:
  "plain st \<Longrightarrow> \<forall>c\<in>set pre. \<not> special c \<Longrightarrow> lex_loop (pre @ rest) st = lex_loop rest (add pre st)"
proof (induction pre arbitrary: st)
  case Nil
  then show ?case by (simp add: add_def)
next
  case (Cons a pre)
  have "lex_ok st" using Cons.prems(1) by (simp add: plain_def lex_ok_def)
  moreover have "lex_step (a # pre @ rest) st = (1, add [a] st)"
    using Cons.prems by (simp add: lex_step_plain special_def)
  ultimately have "lex_loop (a # pre @ rest) st = lex_loop (pre @ rest) (add [a] st)"
    using lex_loop_step [of "a # pre @ rest" st 1] by simp
  with Cons show ?case by (simp add: add_add)
qed

lemma lex_loop_open:
  assumes "plain st" and "tag_ok t"
  shows "lex_loop (t @ rest) st = lex_loop rest ((add t st)\<lparr>dollar_tag := Some t\<rparr>)"
proof -
  have ne: "t @ rest \<noteq> []" and hd: "hd (t @ rest) = dollar" using assms(2) by (auto simp: tag_ok_def)
  have "lex_ok st" using assms(1) by (simp add: plain_def lex_ok_def)
  moreover have "lex_step (t @ rest) st = (length t, (add t st)\<lparr>dollar_tag := Some t\<rparr>)"
    by (simp add: lex_step_plain_dollar [OF assms(1) hd] open_tag_complete [OF assms(2)])
  ultimately show ?thesis using lex_loop_step [OF ne] by simp
qed

lemma py_startswith_long:
  "length t \<le> length u \<Longrightarrow> py_startswith (u @ rest) t = py_startswith u t"
  by (simp add: py_startswith_def)

lemma lex_loop_body:
  assumes "\<not> in_line_comment st" "\<not> in_block_comment st" "dollar_tag st = Some t" and "tag_ok t"
    and "\<forall>i<length body. \<not> py_startswith (drop i (body @ t)) t"
  shows "lex_loop (body @ t @ rest) st = lex_loop rest ((add (body @ t) st)\<lparr>dollar_tag := None\<rparr>)"
  using assms(1-3,5)
proof (induction body arbitrary: st)
  case Nil
  have ok: "lex_ok st" using Nil.prems(3) assms(4) by (simp add: lex_ok_def)
  have "t @ rest \<noteq> []" "hd (t @ rest) = dollar" using assms(4) by (auto simp: tag_ok_def)
  moreover have "py_startswith (t @ rest) t" by (auto simp: py_startswith_iff)
  ultimately have "lex_step (t @ rest) st = (length t, (add t st)\<lparr>dollar_tag := None\<rparr>)"
    using lex_step_dollar [OF Nil.prems(1-3)] by simp
  with lex_loop_step [OF \<open>t @ rest \<noteq> []\<close> ok] show ?case by simp
next
  case (Cons a body)
  have ok: "lex_ok st" using Cons.prems(3) assms(4) by (simp add: lex_ok_def)
  have "\<not> py_startswith (a # body @ t) t" using Cons.prems(4) by (metis append_Cons drop0 length_greater_0_conv list.distinct(1))
  then have "\<not> py_startswith (a # body @ t @ rest) t"
    using py_startswith_long [of t "a # body @ t" rest] by simp
  then have step: "lex_step (a # body @ t @ rest) st = (1, add [a] st)"
    using lex_step_dollar [OF Cons.prems(1-3)] by simp
  have "\<forall>i<length body. \<not> py_startswith (drop i (body @ t)) t"
    using Cons.prems(4) by (metis Suc_less_eq append_Cons drop_Suc_Cons length_Cons)
  from Cons.IH [OF _ _ _ this, of "add [a] st"] Cons.prems(1-3)
  have "lex_loop (body @ t @ rest) (add [a] st)
      = lex_loop rest ((add (body @ t) (add [a] st))\<lparr>dollar_tag := None\<rparr>)" by simp
  with lex_loop_step [OF _ ok step] show ?case by (simp add: add_add)
qed

text \<open>Statements found earlier do not influence the scan.\<close>

lemma frame_flush: "flush (frame [] ss st) = frame [] ss (flush st)"
  by (simp add: flush_def frame_def Let_def)

lemma lex_ok_frame [simp]: "lex_ok (frame b ss st) = lex_ok st"
  by (simp add: lex_ok_def)

lemma lex_step_frame_statements:
  assumes "lex_step sql st = (k, st1)"
  shows "lex_step sql (frame [] ss st) = (k, frame [] ss st1)"
proof (cases "lex_step sql (frame [] ss st)")
  case (Pair k2 st2)
  show ?thesis
  proof (cases "hd sql = semicolon \<and> st2 = flush (frame [] ss st)")
    case True
    show ?thesis
    proof (cases "plain st")
      case p: True
      with True assms show ?thesis by (simp add: lex_step_plain_semicolon frame_flush)
    next
      case False
      then show ?thesis using assms
        by (cases st rule: mode_cases)
          (auto simp: lex_step_line lex_step_block lex_step_dollar lex_step_single lex_step_double
            add_frame frame_flags split: if_splits)
    qed
  next
    case False
    then obtain s2 where "lex_step sql st = (k2, s2)" "st2 = frame [] ss s2"
      using lex_step_frame [OF Pair] by blast
    with Pair assms show ?thesis by simp
  qed
qed

lemma lex_loop_frame:
  "lex_ok st \<Longrightarrow> lex_loop sql (frame [] ss st) = frame [] ss (lex_loop sql st)"
proof (induction sql st rule: lex_loop.induct)
  case (1 sql st)
  show ?case
  proof (cases "sql = []")
    case False
    obtain k st1 where step: "lex_step sql st = (k, st1)" by (cases "lex_step sql st")
    have c: "0 < k" "lex_ok st1" using lex_step_cases [OF False "1.prems" step] by auto
    have "lex_loop sql (frame [] ss st) = lex_loop (drop k sql) (frame [] ss st1)"
      using lex_loop_step [OF False _ lex_step_frame_statements [OF step]] "1.prems" by simp
    also have "\<dots> = frame [] ss (lex_loop (drop k sql) st1)"
      using "1.IH" [OF False step [symmetric] refl] c by simp
    finally show ?thesis using lex_loop_step [OF False "1.prems" step] by simp
  qed simp
qed

text \<open>
  What precedes the body: its last character does not belong to a tag, so that the tag after it is read as one. The
  scan of such a text does not look at what follows.
\<close>

definition word_ends :: "string \<Rightarrow> bool" where
  "word_ends s \<longleftrightarrow> s = [] \<or> \<not> tag_char (last s) \<and> last s \<noteq> dollar"

lemma open_tag_word_ends:
  assumes "sql \<noteq> []" and "hd sql = dollar" and "word_ends sql"
  shows "open_tag (sql @ x) = open_tag sql"
proof -
  obtain a where sql: "sql = dollar # a" using assms(1,2) by (cases sql) auto
  then have a: "a \<noteq> []" "\<not> tag_char (last a)" using assms(3) by (auto simp: word_ends_def split: if_splits)
  then have tw: "takeWhile tag_char (a @ x) = takeWhile tag_char a" using last_in_set by (metis takeWhile_append1)
  have "drop (length (takeWhile tag_char a)) a \<noteq> []"
    using a by (metis append_Nil2 append_take_drop_id last_in_set set_takeWhileD takeWhile_eq_take)
  then show ?thesis
    by (simp add: sql open_tag_def Let_def tw flip: tag_char_def)
qed

lemma startswith_word_ends:
  assumes "sql \<noteq> []" and "tag_ok t" and "word_ends sql"
  shows "py_startswith (sql @ x) t = py_startswith sql t"
proof (cases "length t \<le> length sql")
  case False
  have "\<not> py_startswith (sql @ x) t"
  proof
    assume "py_startswith (sql @ x) t"
    then have "take (length sql) t = sql" using False
      by (metis append_eq_append_conv_if append_take_drop_id nat_le_linear py_startswith_def take_append take_all_iff take_take min.absorb2 diff_is_0_eq append_Nil2 take0)
    then have pre: "\<exists>y. t = sql @ y \<and> y \<noteq> []" using False by (metis append_Nil2 append_take_drop_id order_refl)
    then obtain y where y: "t = sql @ y" "y \<noteq> []" by blast
    obtain name where t: "t = dollar # name @ [dollar]" "list_all tag_char name" using assms(2) by (auto simp: tag_ok_def)
    have "sql @ butlast y = dollar # name" using y t by (metis append_Cons butlast_append butlast_snoc)
    then have "set sql \<subseteq> insert dollar (set name)" by (metis Un_upper1 list.simps(15) set_append)
    then have "last sql = dollar \<or> tag_char (last sql)" using last_in_set [OF assms(1)] t(2) by (auto simp: list_all_iff)
    then show False using assms(1,3) by (simp add: word_ends_def)
  qed
  then show ?thesis using False by (auto simp: py_startswith_def)
qed (simp add: py_startswith_long)

lemma lex_step_word_ends:
  assumes "sql \<noteq> []" and "lex_ok st" and "word_ends sql"
  shows "lex_step (sql @ dollar # u) st = lex_step sql st"
proof -
  have hd: "hd (sql @ dollar # u) = hd sql" using assms(1) by simp
  have nxt: "nxt (sql @ dollar # u) = Some d \<longleftrightarrow> nxt sql = Some d" if "d \<noteq> dollar" for d
    using that assms(1) by (cases sql; cases "tl sql") (auto simp: nxt_def)
  have ch: "CHR ''-'' \<noteq> dollar" "CHR ''/'' \<noteq> dollar" "CHR ''*'' \<noteq> dollar" "squote \<noteq> dollar" "dquote \<noteq> dollar"
    by (simp_all add: dollar_def squote_def dquote_def)
  show ?thesis
  proof (cases st rule: mode_cases)
    case line
    then show ?thesis by (simp only: lex_step_line hd)
  next
    case block
    then show ?thesis by (simp only: lex_step_block [OF block] hd nxt [OF ch(2)])
  next
    case (tag t)
    then have "tag_ok t" using assms(2) by (simp add: lex_ok_def)
    then show ?thesis by (simp only: lex_step_dollar [OF tag] hd startswith_word_ends [OF assms(1) _ assms(3)])
  next
    case single
    then show ?thesis by (simp only: lex_step_single [OF single] hd nxt [OF ch(4)])
  next
    case double
    then show ?thesis by (simp only: lex_step_double [OF double] hd nxt [OF ch(5)])
  next
    case plain
    have "open_tag (sql @ dollar # u) = open_tag sql" if "hd sql = dollar"
      by (rule open_tag_word_ends [OF assms(1) that assms(3)])
    then show ?thesis
      by (simp only: lex_step_plain [OF plain] hd nxt [OF ch(1)] nxt [OF ch(3)] cong: if_cong conj_cong)
  qed
qed

lemma lex_loop_word_ends:
  "lex_ok st \<Longrightarrow> word_ends sql \<Longrightarrow> lex_loop (sql @ dollar # u) st = lex_loop (dollar # u) (lex_loop sql st)"
proof (induction sql st rule: lex_loop.induct)
  case (1 sql st)
  show ?case
  proof (cases "sql = []")
    case False
    obtain k st1 where step: "lex_step sql st = (k, st1)" by (cases "lex_step sql st")
    note c = lex_step_cases [OF False "1.prems"(1) step]
    have w: "word_ends (drop k sql)" using "1.prems"(2) by (auto simp: word_ends_def)
    have "lex_loop (sql @ dollar # u) st = lex_loop (drop k sql @ dollar # u) st1"
      using lex_loop_step [of "sql @ dollar # u" st k st1] lex_step_word_ends [OF False "1.prems"] step c "1.prems"(1)
      by simp
    also have "\<dots> = lex_loop (dollar # u) (lex_loop (drop k sql) st1)"
      using "1.IH" [OF False step [symmetric] refl] c w by simp
    finally show ?thesis using lex_loop_step [OF False "1.prems"(1) step] by simp
  qed simp
qed

text \<open>C13: a function body is not cut. When the scan of a text ends outside of comments, quotes and bodies, and is
  followed by \<open>$tag$ body $tag$\<close>, some ordinary text (\<open>LANGUAGE plpgsql\<close>) and a semicolon, then the statements of the
  text that were complete stay as they are; the rest of it, with the body and what follows up to the semicolon, is one statement,
  whatever semicolons, quotes or comment signs the body has; and what comes after is split as if it stood alone. The
  body does not contain its tag, the text before it does not end within a word, and the ordinary text has no quote,
  dollar, semicolon, slash or hyphen.\<close>

theorem function_body_intact:
  assumes "tag_ok t" and "plain (lex_loop pre lex_init)" and "word_ends pre"
    and "\<forall>i<length body. \<not> py_startswith (drop i (body @ t)) t" and "\<forall>c\<in>set post. \<not> special c"
  shows "split_sql_statements (pre @ t @ body @ t @ post @ semicolon # rest) =
    statements (lex_loop pre lex_init) @ py_strip (buf (lex_loop pre lex_init) @ t @ body @ t @ post)
      # split_sql_statements rest"
proof -
  let ?pre = "lex_loop pre lex_init"
  let ?st = "(add t ?pre)\<lparr>dollar_tag := Some t\<rparr>"
  let ?fin = "add (t @ body @ t @ post) ?pre"
  obtain name where t: "t = dollar # name @ [dollar]" using assms(1) by (auto simp: tag_ok_def)
  have "lex_loop (pre @ t @ body @ t @ post @ semicolon # rest) lex_init
      = lex_loop (t @ body @ t @ post @ semicolon # rest) ?pre"
    using lex_loop_word_ends [OF lex_init_ok assms(3)] by (simp add: t)
  also have "\<dots> = lex_loop (body @ t @ post @ semicolon # rest) ?st"
    by (rule lex_loop_open [OF assms(2,1)])
  also have "\<dots> = lex_loop (post @ semicolon # rest) ((add (body @ t) ?st)\<lparr>dollar_tag := None\<rparr>)"
    using assms(1,2,4) by (intro lex_loop_body) (simp_all add: plain_def)
  also have "(add (body @ t) ?st)\<lparr>dollar_tag := None\<rparr> = add (t @ body @ t) ?pre"
    using assms(2) by (simp add: add_def plain_def)
  also have "lex_loop (post @ semicolon # rest) (add (t @ body @ t) ?pre) = lex_loop (semicolon # rest) ?fin"
    using lex_loop_ordinary [of "add (t @ body @ t) ?pre" post "semicolon # rest"] assms(2,5) by (simp add: plain_def add_add)
  also have "\<dots> = lex_loop rest (flush ?fin)"
    using lex_loop_step [of "semicolon # rest" ?fin 1 "flush ?fin"] assms(2)
    by (simp add: lex_step_plain_semicolon lex_ok_def plain_def)
  finally have loop: "lex_loop (pre @ t @ body @ t @ post @ semicolon # rest) lex_init = lex_loop rest (flush ?fin)" .
  have "py_strip (buf ?fin) \<noteq> []"
    using py_strip_not_blank [of dollar "buf ?fin"] not_space by (simp add: t)
  then have "flush ?fin = frame [] (statements ?pre @ [py_strip (buf ?fin)]) lex_init"
    using assms(2) by (simp add: flush_def frame_def add_def lex_init_def plain_def Let_def)
  with loop show ?thesis
    by (simp add: split_sql_statements_def lex_loop_frame frame_flush)
qed

lemma all_upt: "\<forall>i\<in>set [0..<n]. P i \<Longrightarrow> \<forall>i<n. P i"
  by simp

definition ex_header :: string where
  "ex_header = ''SELECT 1; -- it's; the board'' @ newline # ''CREATE FUNCTION f() AS ''"

theorem function_body_intact_witness:
  "split_sql_statements
     (ex_header @ ''$$'' @ '' BEGIN a; b; END; '' @ ''$$'' @ '' LANGUAGE plpgsql'' @ semicolon # '' SELECT 2'')
   = [''SELECT 1'', ''-- it's; the board'' @ newline # ''CREATE FUNCTION f() AS $$ BEGIN a; b; END; $$ LANGUAGE plpgsql'',
      ''SELECT 2'']"
proof -
  have tag: "tag_ok ''$$''" unfolding tag_ok_def by (rule exI [of _ "[]"]) (simp add: dollar_def)
  have header: "plain (lex_loop ex_header lex_init)" "word_ends ex_header" by code_simp+
  have body: "\<forall>i<length '' BEGIN a; b; END; ''.
      \<not> py_startswith (drop i ('' BEGIN a; b; END; '' @ ''$$'')) ''$$''"
    by (rule all_upt) code_simp
  have post: "\<forall>c\<in>set '' LANGUAGE plpgsql''. \<not> special c" by code_simp
  have st: "statements (lex_loop ex_header lex_init) = [''SELECT 1'']"
    "py_strip (buf (lex_loop ex_header lex_init) @ ''$$'' @ '' BEGIN a; b; END; '' @ ''$$'' @ '' LANGUAGE plpgsql'')
      = ''-- it's; the board'' @ newline # ''CREATE FUNCTION f() AS $$ BEGIN a; b; END; $$ LANGUAGE plpgsql''"
    "split_sql_statements '' SELECT 2'' = [''SELECT 2'']"
    by code_simp+
  from function_body_intact [OF tag header body post, of "'' SELECT 2''"] show ?thesis unfolding st by (simp only: append_Cons append_Nil)
qed

end
