(* ===== verification/Bytes.thy ===== *)
theory Bytes
  imports PyString "HOL-Library.Word"
begin

unbundle bit_operations_syntax

text \<open>
  \<open>uuid.UUID\<close> and \<open>base64.urlsafe_b64encode\<close>/\<open>urlsafe_b64decode\<close> of the standard library as the
  token code uses them: a UUID is its 128-bit integer, a byte an 8-bit word. The parsers accept
  what CPython's accept (non-strict base64, \<open>urn:uuid:\<close> prefixes, braces, the underscores and
  signs of \<open>int(s, 16)\<close>), not only what the encoders produce.
\<close>

section \<open>Hexadecimal integers\<close>

type_synonym byte = "8 word"
type_synonym uuid = "128 word"

definition hex_digit :: "nat \<Rightarrow> char" where
  "hex_digit n = (if n < 10 then char_of (48 + n) else char_of (87 + n))"

definition hex_val :: "char \<Rightarrow> nat option" where
  "hex_val c =
     (let n = of_char c :: nat
      in if 48 \<le> n \<and> n \<le> 57 then Some (n - 48)
         else if 65 \<le> n \<and> n \<le> 70 then Some (n - 55)
         else if 97 \<le> n \<and> n \<le> 102 then Some (n - 87)
         else None)"

text \<open>The whitespace \<open>int(s, 16)\<close> skips: C's, and what Unicode adds to it below 256.\<close>

definition int_space :: "char \<Rightarrow> bool" where
  "int_space c = (let n = of_char c :: nat in 9 \<le> n \<and> n \<le> 13 \<or> n = 32 \<or> n = 133 \<or> n = 160)"

text \<open>Digits with single underscores between them; the flag says that the last one was a digit.\<close>

fun hex_digits_value :: "bool \<Rightarrow> int \<Rightarrow> string \<Rightarrow> int option" where
  "hex_digits_value d acc [] = (if d then Some acc else None)"
| "hex_digits_value d acc (c # s) =
     (if c = CHR ''_'' then (if d then hex_digits_value False acc s else None)
      else (case hex_val c of None \<Rightarrow> None | Some v \<Rightarrow> hex_digits_value True (16 * acc + int v) s))"

definition int_base16 :: "string \<Rightarrow> int option" where
  "int_base16 s0 =
     (let s1 = rev (dropWhile int_space (rev (dropWhile int_space s0)));
          neg = (s1 \<noteq> [] \<and> hd s1 = CHR ''-'');
          s2 = (if s1 \<noteq> [] \<and> hd s1 \<in> {CHR ''+'', CHR ''-''} then tl s1 else s1);
          prefixed = (py_startswith s2 ''0x'' \<or> py_startswith s2 ''0X'');
          s3 = (if prefixed then drop 2 s2 else s2);
          s4 = (if prefixed \<and> s3 \<noteq> [] \<and> hd s3 = CHR ''_'' then tl s3 else s3)
      in map_option (\<lambda>n. if neg then - n else n) (hex_digits_value False 0 s4))"

section \<open>UUIDs\<close>

text \<open>\<open>uuid.UUID(hex=s)\<close>; \<open>None\<close> where it raises \<open>ValueError\<close>.\<close>

definition uuid_parse :: "string \<Rightarrow> uuid option" where
  "uuid_parse s =
     (let h = py_replace ''-'' [] (py_strip_chars (py_replace ''uuid:'' [] (py_replace ''urn:'' [] s)) [CHR 0x7B, CHR 0x7D])
      in if length h \<noteq> 32 then None
         else case int_base16 h of
                None \<Rightarrow> None
              | Some i \<Rightarrow> if 0 \<le> i \<and> i < 2 ^ 128 then Some (word_of_int i) else None)"

text \<open>\<open>'%032x' % n\<close>: the last \<open>k\<close> hexadecimal digits of a number.\<close>

fun hex_digits :: "nat \<Rightarrow> int \<Rightarrow> string" where
  "hex_digits 0 n = []"
| "hex_digits (Suc k) n = hex_digits k (n div 16) @ [hex_digit (nat (n mod 16))]"

definition uuid_hex :: "uuid \<Rightarrow> string" where
  "uuid_hex u = hex_digits 32 (uint u)"

text \<open>\<open>str(u)\<close>.\<close>

definition uuid_str :: "uuid \<Rightarrow> string" where
  "uuid_str u =
     (let h = uuid_hex u
      in take 8 h @ ''-'' @ take 4 (drop 8 h) @ ''-'' @ take 4 (drop 12 h) @ ''-''
         @ take 4 (drop 16 h) @ ''-'' @ drop 20 h)"

section \<open>Base64\<close>

definition b64_char :: "byte \<Rightarrow> char" where
  "b64_char v =
     (let n = unat v
      in if n < 26 then char_of (65 + n) else if n < 52 then char_of (71 + n)
         else if n < 62 then char_of (n - 4) else if n = 62 then CHR ''-'' else CHR ''_'')"

text \<open>Translation of \<open>-_\<close> to \<open>+/\<close>, then the table of \<open>binascii.a2b_base64\<close>.\<close>

definition b64_val :: "char \<Rightarrow> byte option" where
  "b64_val c0 =
     (let c = (if c0 = CHR ''-'' then CHR ''+'' else if c0 = CHR ''_'' then CHR ''/'' else c0);
          n = of_char c :: nat
      in if 65 \<le> n \<and> n \<le> 90 then Some (of_nat (n - 65))
         else if 97 \<le> n \<and> n \<le> 122 then Some (of_nat (n - 71))
         else if 48 \<le> n \<and> n \<le> 57 then Some (of_nat (n + 4))
         else if c = CHR ''+'' then Some 62 else if c = CHR ''/'' then Some 63 else None)"

definition pad_char :: char where "pad_char = CHR ''=''"

text \<open>The four six-bit groups of three bytes, and the bytes back from two neighbouring groups.\<close>

definition sextet1 :: "byte \<Rightarrow> byte" where "sextet1 a = drop_bit 2 a"
definition sextet2 :: "byte \<Rightarrow> byte \<Rightarrow> byte" where "sextet2 a b = push_bit 4 (a AND 3) OR drop_bit 4 b"
definition sextet3 :: "byte \<Rightarrow> byte \<Rightarrow> byte" where "sextet3 b c = push_bit 2 (b AND 15) OR drop_bit 6 c"
definition sextet4 :: "byte \<Rightarrow> byte" where "sextet4 c = c AND 63"

definition octet1 :: "byte \<Rightarrow> byte \<Rightarrow> byte" where "octet1 l v = push_bit 2 l OR drop_bit 4 v"
definition octet2 :: "byte \<Rightarrow> byte \<Rightarrow> byte" where "octet2 l v = push_bit 4 l OR drop_bit 2 v"
definition octet3 :: "byte \<Rightarrow> byte \<Rightarrow> byte" where "octet3 l v = push_bit 6 l OR v"

fun urlsafe_b64encode :: "byte list \<Rightarrow> string" where
  "urlsafe_b64encode [] = []"
| "urlsafe_b64encode [a] = [b64_char (sextet1 a), b64_char (sextet2 a 0), pad_char, pad_char]"
| "urlsafe_b64encode [a, b] =
     [b64_char (sextet1 a), b64_char (sextet2 a b), b64_char (sextet3 b 0), pad_char]"
| "urlsafe_b64encode (a # b # c # rest) =
     [b64_char (sextet1 a), b64_char (sextet2 a b), b64_char (sextet3 b c), b64_char (sextet4 c)]
     @ urlsafe_b64encode rest"

text \<open>
  The non-strict decoder: position in the quad, bits left over, padding characters seen. Characters
  outside the alphabet are skipped; enough padding ends the text; \<open>None\<close> is \<open>binascii.Error\<close>, a
  \<open>ValueError\<close>.
\<close>

fun a2b_base64 :: "nat \<Rightarrow> byte \<Rightarrow> nat \<Rightarrow> string \<Rightarrow> byte list option" where
  "a2b_base64 q l p [] = (if q = 0 then Some [] else None)"
| "a2b_base64 q l p (c # s) =
     (if c = pad_char then
        (if 2 \<le> q then (if 4 \<le> q + (p + 1) then Some [] else a2b_base64 q l (p + 1) s)
         else a2b_base64 q l p s)
      else
        case b64_val c of
          None \<Rightarrow> a2b_base64 q l p s
        | Some v \<Rightarrow>
            if q = 0 then a2b_base64 1 v 0 s
            else if q = 1 then
              map_option ((#) (octet1 l v)) (a2b_base64 2 (v AND 15) 0 s)
            else if q = 2 then
              map_option ((#) (octet2 l v)) (a2b_base64 3 (v AND 3) 0 s)
            else map_option ((#) (octet3 l v)) (a2b_base64 0 0 0 s))"

definition urlsafe_b64decode :: "string \<Rightarrow> byte list option" where
  "urlsafe_b64decode s =
     (if list_all (\<lambda>c. (of_char c :: nat) < 128) s then a2b_base64 0 0 0 s else None)"

section \<open>Round trips\<close>

lemma hex_val_digit: "n < 16 \<Longrightarrow> hex_val (hex_digit n) = Some n"
  by (simp add: hex_val_def hex_digit_def Let_def)

definition is_hex_lower :: "char \<Rightarrow> bool" where
  "is_hex_lower c = (let n = of_char c :: nat in 48 \<le> n \<and> n \<le> 57 \<or> 97 \<le> n \<and> n \<le> 102)"

lemma hex_digit_lower: "n < 16 \<Longrightarrow> is_hex_lower (hex_digit n)"
  by (simp add: is_hex_lower_def hex_digit_def Let_def)

lemma hex_lower_ne:
  "is_hex_lower c \<Longrightarrow>
   c \<noteq> CHR ''_'' \<and> c \<noteq> CHR ''-'' \<and> c \<noteq> CHR ''+'' \<and> c \<noteq> CHR ''x'' \<and> c \<noteq> CHR ''X'' \<and> c \<noteq> CHR ''r''
   \<and> c \<noteq> CHR ''u'' \<and> c \<noteq> CHR ''.'' \<and> c \<noteq> CHR 0x7B \<and> c \<noteq> CHR 0x7D \<and> \<not> int_space c"
  by (auto simp: is_hex_lower_def int_space_def Let_def)

lemma hex_digits_lower: "\<forall>c\<in>set (hex_digits k n). is_hex_lower c"
  by (induction k arbitrary: n) (auto intro!: hex_digit_lower)

lemma length_hex_digits [simp]: "length (hex_digits k n) = k"
  by (induction k arbitrary: n) auto

lemma hex_digits_value_snoc:
  "\<forall>c\<in>set s. is_hex_lower c \<Longrightarrow> d \<or> s \<noteq> [] \<Longrightarrow> v < 16 \<Longrightarrow>
   hex_digits_value d acc (s @ [hex_digit v]) =
     map_option (\<lambda>a. 16 * a + int v) (hex_digits_value d acc s)"
proof (induction s arbitrary: d acc)
  case Nil
  then show ?case using hex_lower_ne [OF hex_digit_lower [of v]] by (simp add: hex_val_digit)
next
  case (Cons c s)
  then have "c \<noteq> CHR ''_''" using hex_lower_ne by simp
  with Cons show ?case by (auto split: option.split)
qed

lemma hex_digits_value_hex_digits:
  assumes "0 \<le> n"
  shows "hex_digits_value False 0 (hex_digits (Suc k) n) = Some (n mod 16 ^ Suc k)"
  using assms
proof (induction k arbitrary: n)
  case 0
  then show ?case using hex_lower_ne [OF hex_digit_lower [of "nat (n mod 16)"]]
    by (simp add: hex_val_digit nat_less_iff)
next
  case (Suc k)
  have "hex_digits_value False 0 (hex_digits (Suc k) (n div 16) @ [hex_digit (nat (n mod 16))])
      = map_option (\<lambda>a. 16 * a + int (nat (n mod 16)))
          (hex_digits_value False 0 (hex_digits (Suc k) (n div 16)))"
    by (rule hex_digits_value_snoc) (use hex_digits_lower [of "Suc k"] in \<open>auto simp: nat_less_iff\<close>)
  also have "\<dots> = Some (16 * ((n div 16) mod 16 ^ Suc k) + n mod 16)"
    using Suc by (simp add: pos_imp_zdiv_nonneg_iff)
  also have "16 * ((n div 16) mod 16 ^ Suc k) + n mod 16 = n mod 16 ^ Suc (Suc k)"
    using zmod_zmult2_eq [of "16 ^ Suc k" n 16] by simp
  finally show ?case by simp
qed

lemma dropWhile_id: "(s \<noteq> [] \<Longrightarrow> \<not> P (hd s)) \<Longrightarrow> dropWhile P s = s"
  by (cases s) auto

lemma int_base16_hex_digits:
  assumes "0 \<le> n"
  shows "int_base16 (hex_digits (Suc k) n) = Some (n mod 16 ^ Suc k)"
proof -
  let ?s = "hex_digits (Suc k) n"
  have ne: "?s \<noteq> []" using length_hex_digits [of "Suc k" n] by (metis Zero_not_Suc list.size(3))
  have lower: "is_hex_lower c" if "c \<in> set ?s" for c using that hex_digits_lower by blast
  have sp: "\<not> int_space (hd ?s)" "\<not> int_space (last ?s)"
    using lower [OF hd_in_set [OF ne]] lower [OF last_in_set [OF ne]] hex_lower_ne by blast+
  have "dropWhile int_space ?s = ?s" using sp(1) by (rule dropWhile_id)
  moreover have "dropWhile int_space (rev ?s) = rev ?s"
    using sp(2) ne by (intro dropWhile_id) (simp add: hd_rev)
  moreover have "hd ?s \<notin> {CHR ''+'', CHR ''-''}"
    using lower [OF hd_in_set [OF ne]] hex_lower_ne by blast
  moreover have "\<not> py_startswith ?s ''0x'' \<and> \<not> py_startswith ?s ''0X''"
  proof -
    have "CHR ''x'' \<notin> set ?s" "CHR ''X'' \<notin> set ?s" using lower hex_lower_ne by blast+
    then show ?thesis unfolding py_startswith_iff by (metis in_set_conv_decomp append_Cons append_Nil)
  qed
  ultimately show ?thesis
    unfolding int_base16_def Let_def using hex_digits_value_hex_digits [OF assms, of k] by simp
qed

lemma py_replace_absent:
  "p \<noteq> [] \<Longrightarrow> c \<in> set p \<Longrightarrow> c \<notin> set s \<Longrightarrow> py_replace p r s = s"
proof (induction p r s rule: py_replace.induct)
  case (1 p r s)
  have "\<not> py_startswith s p" using "1.prems" by (auto simp: py_startswith_iff)
  then show ?case using 1 by (cases s) (auto simp: py_replace.simps [of p r])
qed

lemma py_replace_dash: "py_replace ''-'' [] s = filter (\<lambda>c. c \<noteq> CHR ''-'') s"
proof (induction s)
  case Nil
  then show ?case by (simp add: py_replace.simps)
next
  case (Cons c s)
  then show ?case by (simp add: py_replace.simps [of _ _ "c # s"] py_startswith_def)
qed

lemma uuid_parse_hex_chars:
  assumes "\<forall>c\<in>set s. is_hex_lower c \<or> c = CHR ''-''" and "filter (\<lambda>c. c \<noteq> CHR ''-'') s = uuid_hex u"
  shows "uuid_parse s = Some u"
proof -
  have "CHR ''r'' \<notin> set s" "CHR ''u'' \<notin> set s" using assms(1) hex_lower_ne by fastforce+
  then have r: "py_replace ''urn:'' [] s = s" "py_replace ''uuid:'' [] s = s"
    by (simp_all add: py_replace_absent [where c = "CHR ''r''"] py_replace_absent [where c = "CHR ''u''"])
  have "c \<notin> set [CHR 0x7B, CHR 0x7D]" if "c \<in> set s" for c
    using assms(1) hex_lower_ne that by fastforce
  then have "py_strip_chars s [CHR 0x7B, CHR 0x7D] = s"
    unfolding py_strip_chars_def
    by (metis (mono_tags, lifting) dropWhile_id hd_in_set rev_is_Nil_conv rev_rev_ident set_rev)
  then have "py_replace ''-'' [] (py_strip_chars (py_replace ''uuid:'' [] (py_replace ''urn:'' [] s)) [CHR 0x7B, CHR 0x7D])
      = uuid_hex u"
    using assms(2) by (simp add: r py_replace_dash)
  moreover have "int_base16 (uuid_hex u) = Some (uint u)"
    using int_base16_hex_digits [of "uint u" 31] uint_lt2p [of u]
    by (simp add: uuid_hex_def)
  moreover have "length (uuid_hex u) = 32" by (simp add: uuid_hex_def)
  ultimately show ?thesis
    using uint_lt2p [of u] by (simp add: uuid_parse_def Let_def)
qed

lemma uuid_hex_lower: "\<forall>c\<in>set (uuid_hex u). is_hex_lower c"
  unfolding uuid_hex_def by (rule hex_digits_lower)

lemma filter_dash_hex: "\<forall>c\<in>set s. is_hex_lower c \<Longrightarrow> filter (\<lambda>c. c \<noteq> CHR ''-'') s = s"
  using hex_lower_ne by (auto simp: filter_id_conv)

lemma uuid_parse_hex [simp]: "uuid_parse (uuid_hex u) = Some u"
  using uuid_hex_lower [of u] by (intro uuid_parse_hex_chars) (auto simp: filter_dash_hex)

lemma uuid_parse_str [simp]: "uuid_parse (uuid_str u) = Some u"
proof (rule uuid_parse_hex_chars)
  let ?h = "uuid_hex u"
  have l: "is_hex_lower c" if "c \<in> set (take i (drop j ?h))" for c i j
    using that uuid_hex_lower [of u] by (meson in_set_dropD in_set_takeD)
  have l2: "is_hex_lower c" if "c \<in> set (take i ?h) \<or> c \<in> set (drop i ?h)" for c i
    using that uuid_hex_lower [of u] by (meson in_set_dropD in_set_takeD)
  have "set (uuid_str u) \<subseteq> set ?h \<union> {CHR ''-''}"
    by (auto simp: uuid_str_def Let_def dest: in_set_takeD in_set_dropD)
  then show "\<forall>c\<in>set (uuid_str u). is_hex_lower c \<or> c = CHR ''-''"
    using uuid_hex_lower [of u] by blast
  have f: "filter (\<lambda>c. c \<noteq> CHR ''-'') (take i (drop j ?h)) = take i (drop j ?h)" for i j
    using l by (intro filter_dash_hex) blast
  have f2: "filter (\<lambda>c. c \<noteq> CHR ''-'') (take i ?h) = take i ?h"
    "filter (\<lambda>c. c \<noteq> CHR ''-'') (drop i ?h) = drop i ?h" for i
    using l2 by (intro filter_dash_hex; blast)+
  have chunk: "take m (drop n ?h) @ drop (m + n) ?h = drop n ?h" for m n
    by (metis append_take_drop_id drop_drop)
  have "take 8 ?h @ take 4 (drop 8 ?h) @ take 4 (drop 12 ?h) @ take 4 (drop 16 ?h) @ drop 20 ?h = ?h"
    using chunk [of 4 8] chunk [of 4 12] chunk [of 4 16] by simp
  then show "filter (\<lambda>c. c \<noteq> CHR ''-'') (uuid_str u) = uuid_hex u"
    by (simp add: uuid_str_def Let_def f f2)
qed

lemma char_of_code: "k < 256 \<Longrightarrow> of_char (char_of (k :: nat)) = k"
  by simp

lemma char_of_ne:
  assumes "k < 256"
  shows "char_of (k :: nat) = CHR ''-'' \<longleftrightarrow> k = 45" "char_of (k :: nat) = CHR ''_'' \<longleftrightarrow> k = 95"
    "char_of (k :: nat) = CHR ''='' \<longleftrightarrow> k = 61"
proof -
  have e: "char_of k = c \<longleftrightarrow> k = of_char c" for c
    using char_of_code [OF assms] by (metis char_of_char)
  show "char_of (k :: nat) = CHR ''-'' \<longleftrightarrow> k = 45" "char_of (k :: nat) = CHR ''_'' \<longleftrightarrow> k = 95"
    "char_of (k :: nat) = CHR ''='' \<longleftrightarrow> k = 61"
    by (simp_all add: e)
qed

lemma b64_val_char_of:
  "65 \<le> k \<Longrightarrow> k \<le> 90 \<Longrightarrow> b64_val (char_of k) = Some (of_nat (k - 65))"
  "97 \<le> k \<Longrightarrow> k \<le> 122 \<Longrightarrow> b64_val (char_of k) = Some (of_nat (k - 71))"
  "48 \<le> k \<Longrightarrow> k \<le> 57 \<Longrightarrow> b64_val (char_of k) = Some (of_nat (k + 4))"
  by (simp_all add: b64_val_def Let_def char_of_ne)

lemma b64_char_facts:
  assumes "v < 64"
  shows "b64_val (b64_char v) = Some v \<and> b64_char v \<noteq> pad_char \<and> (of_char (b64_char v) :: nat) < 128"
proof -
  obtain n where n: "unat v = n" by simp
  have v: "of_nat n = v" using n by auto
  have lt: "n < 64" using assms n by (simp add: word_less_nat_alt)
  consider "n < 26" | "26 \<le> n" "n < 52" | "52 \<le> n" "n < 62" | "n = 62" | "n = 63" using lt by linarith
  then show ?thesis
  proof cases
    case 1
    then have "b64_char v = char_of (65 + n)" by (simp add: b64_char_def n)
    with 1 b64_val_char_of(1) [of "65 + n"] show ?thesis by (simp add: v pad_char_def char_of_ne)
  next
    case 2
    then have "b64_char v = char_of (71 + n)" by (simp add: b64_char_def n)
    with 2 b64_val_char_of(2) [of "71 + n"] show ?thesis by (simp add: v pad_char_def char_of_ne)
  next
    case 3
    then have "b64_char v = char_of (n - 4)" by (simp add: b64_char_def n)
    moreover have "48 \<le> n - 4" "n - 4 \<le> 57" "n - 4 \<noteq> 61" "n - 4 < 128" using 3 by auto
    ultimately show ?thesis
      using 3 b64_val_char_of(3) [of "n - 4"] by (simp add: v pad_char_def char_of_ne)
  next
    case 4
    have "b64_char v = CHR ''-''" using 4 by (simp add: b64_char_def n)
    with v 4 show ?thesis by (simp add: b64_val_def pad_char_def)
  next
    case 5
    have "b64_char v = CHR ''_''" using 5 by (simp add: b64_char_def n)
    with v 5 show ?thesis by (simp add: b64_val_def pad_char_def)
  qed
qed

lemma less_64:
  fixes v :: byte
  assumes "\<And>i. bit v i \<Longrightarrow> i < 6"
  shows "v < 64"
proof -
  have "take_bit 6 v = v" by (rule bit_word_eqI) (auto simp: bit_take_bit_iff dest: assms)
  then have "unat v = take_bit 6 (unat v)" by (metis unsigned_take_bit_eq)
  then have "unat v < 2 ^ 6" by (metis take_bit_nat_less_exp)
  then show ?thesis by (simp add: word_less_nat_alt)
qed

lemma bit_low:
  "bit (3 :: byte) i \<longleftrightarrow> i < 2" "bit (15 :: byte) i \<longleftrightarrow> i < 4" "bit (63 :: byte) i \<longleftrightarrow> i < 6"
proof -
  have e: "(3 :: byte) = mask 2" "(15 :: byte) = mask 4" "(63 :: byte) = mask 6"
    by (simp_all add: mask_eq_exp_minus_1)
  show "bit (3 :: byte) i \<longleftrightarrow> i < 2" "bit (15 :: byte) i \<longleftrightarrow> i < 4" "bit (63 :: byte) i \<longleftrightarrow> i < 6"
    unfolding e bit_mask_iff by auto
qed

lemma bit_byte:
  fixes a b :: byte
  shows "bit (drop_bit k a) i = bit a (k + i)"
    "bit (push_bit k a) i = (k \<le> i \<and> i < 8 \<and> bit a (i - k))"
    "bit (a AND b) i = (bit a i \<and> bit b i)" "bit (a OR b) i = (bit a i \<or> bit b i)"
    "bit a i \<Longrightarrow> i < 8"
  by (simp_all add: bit_simps) (use bit_imp_le_length [of a i] in simp)

lemma sextets [simp]:
  "sextet1 a < 64" "sextet2 a b < 64" "sextet3 b c < 64" "sextet4 c < 64"
  unfolding sextet1_def sextet2_def sextet3_def sextet4_def
  by (rule less_64; simp only: bit_byte bit_low; use bit_byte(5) in fastforce)+

lemma byte_eqI:
  fixes a b :: byte
  assumes "bit a 0 = bit b 0" "bit a 1 = bit b 1" "bit a 2 = bit b 2" "bit a 3 = bit b 3"
    "bit a 4 = bit b 4" "bit a 5 = bit b 5" "bit a 6 = bit b 6" "bit a 7 = bit b 7"
  shows "a = b"
proof (rule bit_word_eqI)
  fix i
  assume "i < LENGTH(8)"
  then have "i = 0 \<or> i = 1 \<or> i = 2 \<or> i = 3 \<or> i = 4 \<or> i = 5 \<or> i = 6 \<or> i = 7" by auto
  with assms show "bit a i = bit b i" by (elim disjE) simp_all
qed

lemma high_bits:
  fixes a :: byte
  assumes "8 \<le> i"
  shows "\<not> bit a i"
  using assms bit_byte(5) [of a i] by auto

lemma quads [simp]:
  "octet1 (sextet1 a) (sextet2 a b) = a"
  "octet2 (sextet2 a b AND 15) (sextet3 b c) = b"
  "octet3 (sextet3 b c AND 3) (sextet4 c) = c"
  unfolding sextet1_def sextet2_def sextet3_def sextet4_def octet1_def octet2_def octet3_def
  by (rule byte_eqI; unfold bit_byte bit_low; simp add: high_bits)+

declare a2b_base64.simps(2) [simp del]

lemma a2b_char [simp]:
  "v < 64 \<Longrightarrow> a2b_base64 0 l p (b64_char v # s) = a2b_base64 1 v 0 s"
  "v < 64 \<Longrightarrow> a2b_base64 1 l p (b64_char v # s) = map_option ((#) (octet1 l v)) (a2b_base64 2 (v AND 15) 0 s)"
  "v < 64 \<Longrightarrow> a2b_base64 2 l p (b64_char v # s) = map_option ((#) (octet2 l v)) (a2b_base64 3 (v AND 3) 0 s)"
  "v < 64 \<Longrightarrow> a2b_base64 3 l p (b64_char v # s) = map_option ((#) (octet3 l v)) (a2b_base64 0 0 0 s)"
  using b64_char_facts [of v] by (simp_all add: a2b_base64.simps(2))

lemma a2b_pad:
  "a2b_base64 2 l p [pad_char, pad_char] = Some []" "a2b_base64 3 l p [pad_char] = Some []"
  by (simp_all add: a2b_base64.simps(2))

lemma a2b_b64encode: "a2b_base64 0 l p (urlsafe_b64encode bs) = Some bs"
proof (induction bs arbitrary: l p rule: urlsafe_b64encode.induct)
  case (2 a)
  then show ?case using quads(1) [of a 0] by (simp add: a2b_pad del: quads(1) One_nat_def)
next
  case (3 a b)
  then show ?case using quads(2) [of a b 0] by (simp add: a2b_pad del: quads(2) One_nat_def)
next
  case (4 a b c rest)
  then show ?case by (simp del: One_nat_def)
qed simp

lemma urlsafe_b64encode_ascii: "list_all (\<lambda>c. (of_char c :: nat) < 128) (urlsafe_b64encode bs)"
  by (induction bs rule: urlsafe_b64encode.induct) (auto simp: b64_char_facts pad_char_def)

lemma urlsafe_b64_roundtrip [simp]: "urlsafe_b64decode (urlsafe_b64encode bs) = Some bs"
  by (simp add: urlsafe_b64decode_def urlsafe_b64encode_ascii a2b_b64encode)

lemma urlsafe_b64encode_shape:
  "\<exists>body k. urlsafe_b64encode bs = body @ replicate k pad_char \<and> k \<le> 2 \<and> pad_char \<notin> set body
     \<and> (length body + k) mod 4 = 0"
proof (induction bs rule: urlsafe_b64encode.induct)
  case 1
  then show ?case by (intro exI [of _ "[]"] exI [of _ 0]) simp
next
  case (2 a)
  have "pad_char \<notin> set [b64_char (sextet1 a), b64_char (sextet2 a 0)]"
    using b64_char_facts [of "sextet1 a"] b64_char_facts [of "sextet2 a 0"] by auto
  then show ?case
    by (intro exI [of _ "[b64_char (sextet1 a), b64_char (sextet2 a 0)]"] exI [of _ 2]) (simp add: numeral_2_eq_2)
next
  case (3 a b)
  let ?l = "[b64_char (sextet1 a), b64_char (sextet2 a b), b64_char (sextet3 b 0)]"
  have "pad_char \<notin> set ?l"
    using b64_char_facts [of "sextet1 a"] b64_char_facts [of "sextet2 a b"]
      b64_char_facts [of "sextet3 b 0"] by auto
  then show ?case by (intro exI [of _ ?l] exI [of _ 1]) simp
next
  case (4 a b c rest)
  let ?l = "[b64_char (sextet1 a), b64_char (sextet2 a b), b64_char (sextet3 b c), b64_char (sextet4 c)]"
  have "pad_char \<notin> set ?l"
    using b64_char_facts [of "sextet1 a"] b64_char_facts [of "sextet2 a b"]
      b64_char_facts [of "sextet3 b c"] b64_char_facts [of "sextet4 c"] by auto
  moreover obtain body k where "urlsafe_b64encode rest = body @ replicate k pad_char" "k \<le> 2"
    "pad_char \<notin> set body" "(length body + k) mod 4 = 0" using "4.IH" by (elim exE conjE)
  moreover have "(4 + (length body + k)) mod 4 = 0" using calculation(5) by simp
  ultimately show ?case by (intro exI [of _ "?l @ body"] exI [of _ k]) (simp add: add.assoc)
qed

end
