(* ===== verification/Tables.thy ===== *)
theory Tables
  imports Prelude
begin

text \<open>
  Database tables as lists of rows in insertion order, found by a key: what \<open>session.get\<close>, an
  ORM attribute assignment followed by a flush, and an insert do to a table. The interface
  \<open>keyed_table\<close> states the laws its users rely on; histories of writes are handled once in it.
\<close>

definition tbl_get :: "('r \<Rightarrow> 'k) \<Rightarrow> 'k \<Rightarrow> 'r list \<Rightarrow> 'r option" where
  "tbl_get key k rows = find (\<lambda>r. key r = k) rows"

definition tbl_update :: "('r \<Rightarrow> 'k) \<Rightarrow> 'k \<Rightarrow> ('r \<Rightarrow> 'r) \<Rightarrow> 'r list \<Rightarrow> 'r list" where
  "tbl_update key k f rows = map (\<lambda>r. if key r = k then f r else r) rows"

definition tbl_insert :: "'r \<Rightarrow> 'r list \<Rightarrow> 'r list" where
  "tbl_insert r rows = rows @ [r]"

lemma tbl_get_Nil [simp]: "tbl_get key k [] = None"
  by (simp add: tbl_get_def)

lemma tbl_get_Cons [simp]: "tbl_get key k (r # rows) = (if key r = k then Some r else tbl_get key k rows)"
  by (simp add: tbl_get_def)

lemma tbl_get_Some_iff:
  "distinct (map key rows) \<Longrightarrow> tbl_get key k rows = Some r \<longleftrightarrow> r \<in> set rows \<and> key r = k"
  by (induction rows) (auto simp: rev_image_eqI)

lemma tbl_get_None_iff: "tbl_get key k rows = None \<longleftrightarrow> k \<notin> key ` set rows"
  by (induction rows) auto

lemma tbl_get_SomeD: "tbl_get key k rows = Some r \<Longrightarrow> r \<in> set rows \<and> key r = k"
  by (induction rows) (auto split: if_splits)

lemma tbl_get_append:
  "tbl_get key k (xs @ ys) = (case tbl_get key k xs of None \<Rightarrow> tbl_get key k ys | Some r \<Rightarrow> Some r)"
  by (induction xs) auto

lemma tbl_get_insert [table_simps]:
  "tbl_get key k (tbl_insert r rows) =
     (case tbl_get key k rows of Some r' \<Rightarrow> Some r' | None \<Rightarrow> if key r = k then Some r else None)"
  by (simp add: tbl_insert_def tbl_get_append split: option.split)

lemma tbl_get_map:
  "(\<And>r. key (f r) = key r) \<Longrightarrow> tbl_get key k (map f rows) = map_option f (tbl_get key k rows)"
  by (induction rows) auto

lemma tbl_get_update [table_simps]:
  "(\<And>r. key (f r) = key r) \<Longrightarrow>
   tbl_get key k (tbl_update key k' f rows) =
     (if k = k' then map_option f (tbl_get key k rows) else tbl_get key k rows)"
  unfolding tbl_update_def by (induction rows) auto

lemma tbl_get_replace:
  "tbl_get key k rows = Some r \<Longrightarrow> key r' = k \<Longrightarrow> tbl_get key k (tbl_update key k (\<lambda>_. r') rows) = Some r'"
  unfolding tbl_update_def by (induction rows) (auto split: if_splits)

lemma tbl_get_replace_other:
  "key r' = k' \<Longrightarrow> k \<noteq> k' \<Longrightarrow> tbl_get key k (tbl_update key k' (\<lambda>_. r') rows) = tbl_get key k rows"
  unfolding tbl_update_def by (induction rows) auto

lemma keys_replace: "key r' = k \<Longrightarrow> map key (tbl_update key k (\<lambda>_. r') rows) = map key rows"
  by (simp add: tbl_update_def)

lemma keys_update [table_simps]:
  "(\<And>r. key (f r) = key r) \<Longrightarrow> map key (tbl_update key k f rows) = map key rows"
  by (simp add: tbl_update_def)

lemma keys_insert [table_simps]: "map key (tbl_insert r rows) = map key rows @ [key r]"
  by (simp add: tbl_insert_def)

section \<open>The interface\<close>

datatype ('k, 'r) table_write = Upd 'k "'r \<Rightarrow> 'r" | Ins 'r | UpdAll "'r \<Rightarrow> 'r" | Del 'k

locale keyed_table =
  fixes get :: "'k \<Rightarrow> 't \<Rightarrow> 'r option"
    and apply_write :: "('k, 'r) table_write \<Rightarrow> 't \<Rightarrow> 't"
    and key :: "'r \<Rightarrow> 'k"
  assumes get_upd: "(\<And>r. key (f r) = key r) \<Longrightarrow>
      get k (apply_write (Upd k' f) t) = (if k = k' then map_option f (get k t) else get k t)"
    and get_upd_all: "(\<And>r. key (f r) = key r) \<Longrightarrow>
      get k (apply_write (UpdAll f) t) = map_option f (get k t)"
    and get_ins: "get k t = Some r \<Longrightarrow> get k (apply_write (Ins r') t) = Some r"
    and get_del: "get k (apply_write (Del k') t) = (if k = k' then None else get k t)"
begin

text \<open>A write keeps a property of the row with a given key: it does not delete the row, and if it
  updates it, the update keeps the property.\<close>

definition write_keeps :: "'k \<Rightarrow> ('r \<Rightarrow> bool) \<Rightarrow> ('k, 'r) table_write \<Rightarrow> bool" where
  "write_keeps k P w = (case w of
       Upd k' f \<Rightarrow> (\<forall>r. key (f r) = key r \<and> (k' = k \<longrightarrow> P r \<longrightarrow> P (f r)))
     | UpdAll f \<Rightarrow> (\<forall>r. key (f r) = key r \<and> (P r \<longrightarrow> P (f r)))
     | Ins r \<Rightarrow> True
     | Del k' \<Rightarrow> k' \<noteq> k)"

lemma write_keeps_row:
  assumes "write_keeps k P w" and "get k t = Some r" and "P r"
  shows "\<exists>r'. get k (apply_write w t) = Some r' \<and> P r'"
  using assms by (cases w) (auto simp: write_keeps_def get_upd get_upd_all get_ins get_del)

lemma history_keeps:
  assumes "\<forall>w\<in>set ws. write_keeps k P w" and "get k t = Some r" and "P r"
  shows "\<exists>r'. get k (fold apply_write ws t) = Some r' \<and> P r'"
  using assms
proof (induction ws arbitrary: t r)
  case Nil
  then show ?case by simp
next
  case (Cons w ws)
  then obtain r1 where "get k (apply_write w t) = Some r1" "P r1"
    using write_keeps_row [of k P w t r] by auto
  with Cons show ?case by auto
qed

end

fun tbl_write :: "('r \<Rightarrow> 'k) \<Rightarrow> ('k, 'r) table_write \<Rightarrow> 'r list \<Rightarrow> 'r list" where
  "tbl_write key (Upd k f) rows = tbl_update key k f rows"
| "tbl_write key (UpdAll f) rows = map f rows"
| "tbl_write key (Ins r) rows = tbl_insert r rows"
| "tbl_write key (Del k) rows = filter (\<lambda>r. key r \<noteq> k) rows"

lemma tbl_get_filter:
  "tbl_get key k (filter (\<lambda>r. key r \<noteq> k') rows) = (if k = k' then None else tbl_get key k rows)"
  by (induction rows) auto

lemma tbl_write_keyed_table: "keyed_table (tbl_get key) (tbl_write key) key"
  by unfold_locales (simp_all add: table_simps tbl_get_map tbl_get_filter)

end
