(* ===== verification/Tokens.thy ===== *)
theory Tokens
  imports Bytes Tables Config
begin

text \<open>
  Refresh tokens: \<open>meritmolt/auth/tokens.py\<close> on the tables \<open>mm_agents\<close> and \<open>mm_refresh_tokens\<close> of
  \<open>meritmolt/database.py\<close>. The state is the two tables as the session sees them; a call that raises
  returns the tables it had reached. Clock readings, \<open>uuid4\<close> and \<open>os.urandom\<close> values are
  arguments, and the argon2 hasher is a parameter.
\<close>

section \<open>Tables\<close>

record MmAgent =
  ag_id :: uuid
  ag_mb_agent_id :: string
  ag_mb_name :: string
  ag_last_seen_at :: seconds
  ag_created_at :: seconds
  ag_updated_at :: seconds

record MmRefreshToken =
  rt_id :: uuid
  rt_agent_id :: uuid
  rt_token_hash :: string
  rt_created_at :: seconds
  rt_expires_at :: seconds
  rt_revoked_at :: "seconds option"
  rt_rotated_from_id :: "uuid option"
  rt_user_agent :: "string option"
  rt_ip :: "string option"

record mm_db =
  mm_agents :: "MmAgent list"
  mm_refresh_tokens :: "MmRefreshToken list"

definition get_agent :: "uuid \<Rightarrow> mm_db \<Rightarrow> MmAgent option" where
  "get_agent i db = tbl_get ag_id i (mm_agents db)"

definition get_refresh_token :: "uuid \<Rightarrow> mm_db \<Rightarrow> MmRefreshToken option" where
  "get_refresh_token i db = tbl_get rt_id i (mm_refresh_tokens db)"

text \<open>
  The constraints an insert into \<open>mm_refresh_tokens\<close> meets. PostgreSQL enforces the lengths of
  the \<open>VARCHAR\<close> columns and the foreign keys; SQLite, used for tests, enforces neither.
\<close>

definition varchar :: "nat \<Rightarrow> string option \<Rightarrow> bool" where
  "varchar n v = (case v of None \<Rightarrow> True | Some s \<Rightarrow> length s \<le> n)"

definition refresh_token_violation :: "bool \<Rightarrow> MmRefreshToken \<Rightarrow> mm_db \<Rightarrow> py_exn option" where
  "refresh_token_violation sqlite r db =
     (if \<not> sqlite \<and> \<not> (varchar 255 (Some (rt_token_hash r)) \<and> varchar 512 (rt_user_agent r)
                          \<and> varchar 45 (rt_ip r))
      then Some (DataError ''value too long'')
      else if get_refresh_token (rt_id r) db \<noteq> None then Some (IntegrityError ''mm_refresh_tokens_pkey'')
      else if \<not> sqlite \<and> (get_agent (rt_agent_id r) db = None
              \<or> (\<exists>i\<in>set_option (rt_rotated_from_id r). get_refresh_token i db = None))
      then Some (IntegrityError ''foreign key'')
      else None)"

section \<open>Token text\<close>

definition base64url_encode :: "byte list \<Rightarrow> string" where
  "base64url_encode data = py_rstrip_chars (urlsafe_b64encode data) [pad_char]"

definition base64url_decode :: "string \<Rightarrow> byte list option" where
  "base64url_decode s =
     (let pad = 4 - length s mod 4
      in urlsafe_b64decode (if pad \<noteq> 4 then s @ replicate pad pad_char else s))"

text \<open>\<open>argon2.PasswordHasher\<close>: \<open>hash\<close> with the salt it draws, and \<open>verify\<close>, which raises.\<close>

record argon2_lib =
  ph_hash :: "byte list \<Rightarrow> byte list \<Rightarrow> string"
  ph_verify :: "string \<Rightarrow> byte list \<Rightarrow> unit result"

definition hash_secret :: "argon2_lib \<Rightarrow> byte list \<Rightarrow> byte list \<Rightarrow> string" where
  "hash_secret ph salt secret = ph_hash ph salt secret"

definition verify_secret :: "argon2_lib \<Rightarrow> string \<Rightarrow> byte list \<Rightarrow> bool result" where
  "verify_secret ph hash_str secret =
     (case ph_verify ph hash_str secret of
        Inr _ \<Rightarrow> Inr True
      | Inl e \<Rightarrow> if e = VerifyMismatchError then Inr False else Inl e)"

definition parse_raw_token :: "string \<Rightarrow> (uuid \<times> byte list) option" where
  "parse_raw_token raw_token =
     (if \<not> py_in ''.'' raw_token then None
      else let (prefix, rest) = py_split1 (CHR ''.'') raw_token
           in case uuid_parse prefix of
                None \<Rightarrow> None
              | Some token_id \<Rightarrow>
                  (case base64url_decode rest of
                     None \<Rightarrow> None
                   | Some secret \<Rightarrow> if length secret < 32 then None else Some (token_id, secret)))"

section \<open>Operations\<close>

text \<open>What one call of \<open>mint_refresh_token\<close> draws: the time, the identifier, the secret, the salt.\<close>

record mint_env =
  me_now :: seconds
  me_uuid :: uuid
  me_secret :: "byte list"
  me_salt :: "byte list"

definition revoke_at :: "seconds \<Rightarrow> MmRefreshToken \<Rightarrow> MmRefreshToken" where
  "revoke_at now r = r\<lparr>rt_revoked_at := Some now\<rparr>"

definition set_revoked :: "uuid \<Rightarrow> seconds \<Rightarrow> mm_db \<Rightarrow> mm_db" where
  "set_revoked i now db =
     db\<lparr>mm_refresh_tokens := tbl_update rt_id i (revoke_at now) (mm_refresh_tokens db)\<rparr>"

definition is_active :: "uuid \<Rightarrow> seconds \<Rightarrow> MmRefreshToken \<Rightarrow> bool" where
  "is_active agent_id now r \<longleftrightarrow>
     rt_agent_id r = agent_id \<and> rt_revoked_at r = None \<and> now < rt_expires_at r"

definition is_unrevoked :: "uuid \<Rightarrow> MmRefreshToken \<Rightarrow> bool" where
  "is_unrevoked agent_id r \<longleftrightarrow> rt_agent_id r = agent_id \<and> rt_revoked_at r = None"

text \<open>\<open>ORDER BY created_at ASC LIMIT 1\<close> among the unrevoked tokens of the agent.\<close>

definition oldest_unrevoked :: "uuid \<Rightarrow> mm_db \<Rightarrow> MmRefreshToken option" where
  "oldest_unrevoked agent_id db =
     (case sort_key rt_created_at (filter (is_unrevoked agent_id) (mm_refresh_tokens db)) of
        [] \<Rightarrow> None | r # _ \<Rightarrow> Some r)"

definition active_count :: "uuid \<Rightarrow> seconds \<Rightarrow> mm_db \<Rightarrow> nat" where
  "active_count agent_id now db = length (filter (is_active agent_id now) (mm_refresh_tokens db))"

definition make_room :: "Settings \<Rightarrow> uuid \<Rightarrow> seconds \<Rightarrow> mm_db \<Rightarrow> mm_db" where
  "make_room settings agent_id now db =
     (if int (active_count agent_id now db) \<ge> mm_refresh_max_active_per_agent settings
      then (case oldest_unrevoked agent_id db of
              None \<Rightarrow> db
            | Some row \<Rightarrow> set_revoked (rt_id row) now db)
      else db)"

definition mint_refresh_token ::
  "argon2_lib \<Rightarrow> Settings \<Rightarrow> mint_env \<Rightarrow> uuid \<Rightarrow> string option \<Rightarrow> string option \<Rightarrow> uuid option
   \<Rightarrow> (mm_db, string) action" where
  "mint_refresh_token ph settings env agent_id user_agent ip rotated_from_id db =
     (let now = me_now env;
          expires_at = now + of_int (mm_refresh_ttl_seconds settings);
          db1 = make_room settings agent_id now db;
          row = \<lparr>rt_id = me_uuid env, rt_agent_id = agent_id,
                 rt_token_hash = hash_secret ph (me_salt env) (me_secret env),
                 rt_created_at = now, rt_expires_at = expires_at, rt_revoked_at = None,
                 rt_rotated_from_id = rotated_from_id, rt_user_agent = user_agent, rt_ip = ip\<rparr>
      in case refresh_token_violation (mm_use_sqlite_for_tests settings) row db1 of
           Some e \<Rightarrow> (Inl e, db1)
         | None \<Rightarrow>
             (Inr (uuid_hex (me_uuid env) @ ''.'' @ base64url_encode (me_secret env)),
              db1\<lparr>mm_refresh_tokens := tbl_insert row (mm_refresh_tokens db1)\<rparr>))"

definition revoke_all_agent_tokens :: "seconds \<Rightarrow> uuid \<Rightarrow> (mm_db, unit) action" where
  "revoke_all_agent_tokens now agent_id db =
     (Inr (), db\<lparr>mm_refresh_tokens :=
        map (\<lambda>r. if is_unrevoked agent_id r then revoke_at now r else r) (mm_refresh_tokens db)\<rparr>)"

text \<open>The clock readings of \<open>rotate_refresh_token\<close>: of the reuse branch, of the expiry check, of the
  revocation; and what the mint draws.\<close>

record rotate_env =
  re_reuse :: seconds
  re_check :: seconds
  re_revoke :: seconds
  re_mint :: mint_env

definition rotate_refresh_token ::
  "argon2_lib \<Rightarrow> Settings \<Rightarrow> rotate_env \<Rightarrow> string \<Rightarrow> string option \<Rightarrow> string option
   \<Rightarrow> (mm_db, string \<times> MmAgent) action" where
  "rotate_refresh_token ph settings env raw_token user_agent ip db =
     (case parse_raw_token raw_token of
        None \<Rightarrow> (Inl (HTTPException 401 ''Invalid refresh token format''), db)
      | Some (token_id, secret) \<Rightarrow>
          (case get_refresh_token token_id db of
             None \<Rightarrow> (Inl (HTTPException 401 ''Invalid refresh token''), db)
           | Some row \<Rightarrow>
               if rt_revoked_at row \<noteq> None then
                 bind_act (revoke_all_agent_tokens (re_reuse env) (rt_agent_id row))
                   (\<lambda>_. raise_exn (HTTPException 401
                      ''Refresh token reused; all sessions revoked. Re-login via MoltBook.'')) db
               else if rt_expires_at row \<le> re_check env then
                 (Inl (HTTPException 401 ''Refresh token expired''), db)
               else case verify_secret ph (rt_token_hash row) secret of
                      Inl e \<Rightarrow> (Inl e, db)
                    | Inr False \<Rightarrow> (Inl (HTTPException 401 ''Invalid refresh token''), db)
                    | Inr True \<Rightarrow>
                        let db1 = set_revoked token_id (re_revoke env) db
                        in case get_agent (rt_agent_id row) db1 of
                             None \<Rightarrow> (Inl (HTTPException 401 ''Agent not found''), db1)
                           | Some agent \<Rightarrow>
                               bind_act
                                 (mint_refresh_token ph settings (re_mint env) (rt_agent_id row)
                                    user_agent ip (Some token_id))
                                 (\<lambda>new_raw. ret (new_raw, agent)) db1))"

definition revoke_token :: "seconds \<Rightarrow> string \<Rightarrow> (mm_db, unit) action" where
  "revoke_token now raw_token db =
     (case parse_raw_token raw_token of
        None \<Rightarrow> (Inr (), db)
      | Some (token_id, _) \<Rightarrow>
          (case get_refresh_token token_id db of
             None \<Rightarrow> (Inr (), db)
           | Some row \<Rightarrow>
               (Inr (), if rt_revoked_at row = None then set_revoked token_id now db else db)))"

section \<open>The token text is a round trip\<close>

lemma pad_length:
  fixes n k :: nat
  assumes "k \<le> 2" and "(n + k) mod 4 = 0"
  shows "4 - n mod 4 = (if k = 0 then 4 else k)"
proof -
  obtain m where m: "n + k = 4 * m" using assms(2) by auto
  consider "k = 0" | "k = 1" | "k = 2" using assms(1) by linarith
  then show ?thesis using m by cases presburger+
qed

lemma rstrip_replicate:
  assumes "c \<notin> set body"
  shows "py_rstrip_chars (body @ replicate k c) [c] = body"
proof -
  have "dropWhile (\<lambda>x. x \<in> set [c]) (replicate k c @ rev body) = dropWhile (\<lambda>x. x \<in> set [c]) (rev body)"
    by (induction k) auto
  also have "\<dots> = rev body" using assms by (cases body rule: rev_cases) auto
  finally show ?thesis by (simp add: py_rstrip_chars_def)
qed

lemma base64url_roundtrip: "base64url_decode (base64url_encode bs) = Some bs"
proof -
  obtain body k where e: "urlsafe_b64encode bs = body @ replicate k pad_char" and k: "k \<le> 2"
    and p: "pad_char \<notin> set body" and l: "(length body + k) mod 4 = 0"
    using urlsafe_b64encode_shape [of bs] by (elim exE conjE)
  have b: "base64url_encode bs = body"
    unfolding base64url_encode_def e by (rule rstrip_replicate [OF p])
  have "4 - length body mod 4 = (if k = 0 then 4 else k)"
    by (rule pad_length [OF k l])
  then have "(if 4 - length body mod 4 \<noteq> 4 then body @ replicate (4 - length body mod 4) pad_char else body)
      = body @ replicate k pad_char"
    using k by (cases "k = 0") (simp_all only:, simp_all)
  then show ?thesis
    unfolding base64url_decode_def b Let_def e [symmetric] by (simp only: urlsafe_b64_roundtrip)
qed

lemma parse_raw_token_text:
  assumes "32 \<le> length secret"
  shows "parse_raw_token (uuid_hex u @ ''.'' @ base64url_encode secret) = Some (u, secret)"
proof -
  let ?raw = "uuid_hex u @ CHR ''.'' # base64url_encode secret"
  have nd: "CHR ''.'' \<notin> set (uuid_hex u)" using uuid_hex_lower [of u] hex_lower_ne by blast
  then have "py_split1 (CHR ''.'') ?raw = (uuid_hex u, base64url_encode secret)"
    by (simp add: py_split1_append)
  moreover have "py_in ''.'' (a @ CHR ''.'' # b)" for a b
    by (induction a) (auto simp: py_startswith_def)
  then have "py_in ''.'' ?raw" .
  ultimately show ?thesis using assms by (simp add: parse_raw_token_def base64url_roundtrip)
qed

section \<open>Tables through the operations\<close>

definition write_token :: "(uuid, MmRefreshToken) table_write \<Rightarrow> mm_db \<Rightarrow> mm_db" where
  "write_token w db = db\<lparr>mm_refresh_tokens := tbl_write rt_id w (mm_refresh_tokens db)\<rparr>"

interpretation tokens_tbl: keyed_table get_refresh_token write_token rt_id
  by unfold_locales
    (simp_all add: get_refresh_token_def write_token_def table_simps tbl_get_map tbl_get_filter)

definition revoked :: "MmRefreshToken \<Rightarrow> bool" where
  "revoked r \<longleftrightarrow> rt_revoked_at r \<noteq> None"

lemma revoke_at_simps [simp]:
  "rt_id (revoke_at now r) = rt_id r" "rt_agent_id (revoke_at now r) = rt_agent_id r"
  "rt_expires_at (revoke_at now r) = rt_expires_at r" "rt_revoked_at (revoke_at now r) = Some now"
  "rt_token_hash (revoke_at now r) = rt_token_hash r" "rt_created_at (revoke_at now r) = rt_created_at r"
  by (simp_all add: revoke_at_def)

lemma set_revoked_write: "set_revoked i now db = write_token (Upd i (revoke_at now)) db"
  by (simp add: set_revoked_def write_token_def)

lemma set_revoked_agents [simp]: "mm_agents (set_revoked i now db) = mm_agents db"
  by (simp add: set_revoked_def)

lemma make_room_agents [simp]: "mm_agents (make_room settings a now db) = mm_agents db"
  by (simp add: make_room_def split: option.split)

lemma get_agent_same: "mm_agents db = mm_agents db' \<Longrightarrow> get_agent i db = get_agent i db'"
  by (simp add: get_agent_def)

text \<open>A change of the tables after which every revoked token is still there, and revoked.\<close>

definition token_change :: "mm_db \<Rightarrow> mm_db \<Rightarrow> bool" where
  "token_change db db' \<longleftrightarrow>
     (\<forall>i r. get_refresh_token i db = Some r \<and> revoked r \<longrightarrow>
        (\<exists>r'. get_refresh_token i db' = Some r' \<and> revoked r' \<and> rt_agent_id r' = rt_agent_id r))"

lemma token_change_refl [simp]: "token_change db db"
  by (simp add: token_change_def)

lemma token_change_trans: "token_change a b \<Longrightarrow> token_change b c \<Longrightarrow> token_change a c"
  unfolding token_change_def by metis

lemma token_change_writes:
  assumes "mm_refresh_tokens db' = mm_refresh_tokens (fold write_token ws db)"
    and "\<And>w a i. w \<in> set ws \<Longrightarrow> tokens_tbl.write_keeps i (\<lambda>r. revoked r \<and> rt_agent_id r = a) w"
  shows "token_change db db'"
  unfolding token_change_def
proof (intro allI impI)
  fix i r
  assume "get_refresh_token i db = Some r \<and> revoked r"
  then obtain r' where "get_refresh_token i (fold write_token ws db) = Some r'"
    "revoked r' \<and> rt_agent_id r' = rt_agent_id r"
    using tokens_tbl.history_keeps [where P = "\<lambda>q. revoked q \<and> rt_agent_id q = rt_agent_id r" and ws = ws and k = i]
      assms(2) by blast
  with assms(1) show "\<exists>r'. get_refresh_token i db' = Some r' \<and> revoked r' \<and> rt_agent_id r' = rt_agent_id r"
    by (auto simp: get_refresh_token_def)
qed

lemma keeps_revoked:
  "tokens_tbl.write_keeps i (\<lambda>r. revoked r \<and> rt_agent_id r = a) (Upd j (revoke_at now))"
  "tokens_tbl.write_keeps i (\<lambda>r. revoked r \<and> rt_agent_id r = a) (Ins row)"
  "tokens_tbl.write_keeps i (\<lambda>r. revoked r \<and> rt_agent_id r = a)
     (UpdAll (\<lambda>r. if P r then revoke_at now r else r))"
  by (simp_all add: tokens_tbl.write_keeps_def revoked_def)

lemma set_revoked_change: "token_change db (set_revoked i now db)"
  by (rule token_change_writes [where ws = "[Upd i (revoke_at now)]"])
    (simp_all add: set_revoked_write keeps_revoked)

lemma make_room_change: "token_change db (make_room settings a now db)"
  by (simp add: make_room_def set_revoked_change split: option.split)

lemma insert_change: "token_change db (db\<lparr>mm_refresh_tokens := tbl_insert row (mm_refresh_tokens db)\<rparr>)"
  by (rule token_change_writes [where ws = "[Ins row]"]) (simp_all add: write_token_def keeps_revoked)

lemma mint_change: "token_change db (snd (mint_refresh_token ph settings env a ua ip rot db))"
proof -
  let ?db1 = "make_room settings a (me_now env) db"
  have "snd (mint_refresh_token ph settings env a ua ip rot db) = ?db1
    \<or> (\<exists>row. snd (mint_refresh_token ph settings env a ua ip rot db)
          = ?db1\<lparr>mm_refresh_tokens := tbl_insert row (mm_refresh_tokens ?db1)\<rparr>)"
    by (simp add: mint_refresh_token_def Let_def split: option.split) blast
  then show ?thesis
    using make_room_change token_change_trans [OF make_room_change insert_change] by metis
qed

lemma revoke_all_change: "token_change db (snd (revoke_all_agent_tokens now a db))"
  by (rule token_change_writes [where ws = "[UpdAll (\<lambda>r. if is_unrevoked a r then revoke_at now r else r)]"])
    (simp_all add: revoke_all_agent_tokens_def write_token_def keeps_revoked)

lemma revoke_change: "token_change db (snd (revoke_token now raw db))"
  by (simp add: revoke_token_def set_revoked_change split: option.split prod.split)

lemma rotate_change: "token_change db (snd (rotate_refresh_token ph settings env raw ua ip db))"
proof (cases "parse_raw_token raw")
  case (Some p)
  obtain i secret where p: "p = (i, secret)" by (cases p)
  show ?thesis
  proof (cases "get_refresh_token i db")
    case None
    with Some p show ?thesis by (simp add: rotate_refresh_token_def)
  next
    case row: (Some row)
    let ?db1 = "set_revoked i (re_revoke env) db"
    have m: "token_change db (snd (mint_refresh_token ph settings (re_mint env) (rt_agent_id row) ua ip (Some i) ?db1))"
      using token_change_trans [OF set_revoked_change mint_change] .
    have b: "snd (bind_act (mint_refresh_token ph settings (re_mint env) (rt_agent_id row) ua ip (Some i))
        (\<lambda>n. ret (n, ag)) ?db1) = snd (mint_refresh_token ph settings (re_mint env) (rt_agent_id row) ua ip (Some i) ?db1)"
      for ag by (simp add: bind_act_def split: prod.split sum.split)
    have v: "snd (bind_act (revoke_all_agent_tokens t a) (\<lambda>_. raise_exn e) db) = snd (revoke_all_agent_tokens t a db)"
      for t a e by (simp add: bind_act_def revoke_all_agent_tokens_def)
    show ?thesis
      using Some p row m revoke_all_change set_revoked_change
      by (simp add: rotate_refresh_token_def b v Let_def split: sum.split option.split bool.split)
  qed
qed (simp add: rotate_refresh_token_def)

inductive token_op :: "mm_db \<Rightarrow> mm_db \<Rightarrow> bool" where
  mint: "token_op db (snd (mint_refresh_token ph settings env a ua ip rot db))"
| rotate: "token_op db (snd (rotate_refresh_token ph settings env2 raw ua ip db))"
| revoke: "token_op db (snd (revoke_token now raw db))"
| revoke_all: "token_op db (snd (revoke_all_agent_tokens now a db))"
| agents: "mm_refresh_tokens db' = mm_refresh_tokens db \<Longrightarrow> token_op db db'"

lemma agents_change: "mm_refresh_tokens db' = mm_refresh_tokens db \<Longrightarrow> token_change db db'"
  by (simp add: token_change_def get_refresh_token_def)

lemma token_op_change: "token_op db db' \<Longrightarrow> token_change db db'"
  by (induction rule: token_op.induct)
    (simp_all add: mint_change rotate_change revoke_change revoke_all_change agents_change)

lemma token_ops_change: "token_op\<^sup>*\<^sup>* db db' \<Longrightarrow> token_change db db'"
  by (induction rule: rtranclp_induct) (auto intro: token_change_trans token_op_change)

section \<open>Minting\<close>

definition minted_row :: "argon2_lib \<Rightarrow> Settings \<Rightarrow> mint_env \<Rightarrow> uuid \<Rightarrow> string option \<Rightarrow> string option
    \<Rightarrow> uuid option \<Rightarrow> MmRefreshToken" where
  "minted_row ph settings env a ua ip rot =
     \<lparr>rt_id = me_uuid env, rt_agent_id = a, rt_token_hash = hash_secret ph (me_salt env) (me_secret env),
      rt_created_at = me_now env, rt_expires_at = me_now env + of_int (mm_refresh_ttl_seconds settings),
      rt_revoked_at = None, rt_rotated_from_id = rot, rt_user_agent = ua, rt_ip = ip\<rparr>"

lemma mint_InrD:
  assumes "mint_refresh_token ph settings env a ua ip rot db = (Inr raw, db')"
  shows "raw = uuid_hex (me_uuid env) @ ''.'' @ base64url_encode (me_secret env)"
    and "db' = write_token (Ins (minted_row ph settings env a ua ip rot)) (make_room settings a (me_now env) db)"
    and "get_refresh_token (me_uuid env) (make_room settings a (me_now env) db) = None"
  using assms
  by (auto simp: mint_refresh_token_def Let_def minted_row_def write_token_def
      refresh_token_violation_def split: option.splits if_splits)

lemma minted_row_found:
  "get_refresh_token (me_uuid env) db = None \<Longrightarrow>
   get_refresh_token (me_uuid env) (write_token (Ins (minted_row ph settings env a ua ip rot)) db)
     = Some (minted_row ph settings env a ua ip rot)"
  by (simp add: get_refresh_token_def write_token_def table_simps minted_row_def split: option.split)

lemma minted_token_facts:
  assumes "mint_refresh_token ph settings env a ua ip rot db = (Inr raw, db')"
    and "32 \<le> length (me_secret env)"
  shows "parse_raw_token raw = Some (me_uuid env, me_secret env)"
    and "get_refresh_token (me_uuid env) db' = Some (minted_row ph settings env a ua ip rot)"
    and "rt_revoked_at (minted_row ph settings env a ua ip rot) = None"
    and "rt_rotated_from_id (minted_row ph settings env a ua ip rot) = rot"
    and "rt_agent_id (minted_row ph settings env a ua ip rot) = a"
  using mint_InrD [OF assms(1)] minted_row_found parse_raw_token_text [OF assms(2)]
  by (simp_all add: minted_row_def)

text \<open>C8: a minted token is usable: the text that is handed out parses to the identifier and secret
  of the row that was stored, which belongs to the agent, is not revoked and expires after the
  configured time to live.\<close>

theorem minted_token_parses:
  assumes "mint_refresh_token ph settings env a ua ip rot db = (Inr raw, db')"
    and "32 \<le> length (me_secret env)"
  shows "parse_raw_token raw = Some (me_uuid env, me_secret env) \<and>
    get_refresh_token (me_uuid env) db' = Some
      \<lparr>rt_id = me_uuid env, rt_agent_id = a,
       rt_token_hash = hash_secret ph (me_salt env) (me_secret env),
       rt_created_at = me_now env,
       rt_expires_at = me_now env + of_int (mm_refresh_ttl_seconds settings),
       rt_revoked_at = None, rt_rotated_from_id = rot, rt_user_agent = ua, rt_ip = ip\<rparr>"
  using minted_token_facts [OF assms] by (simp add: minted_row_def)

section \<open>The cap on active tokens\<close>

lemma filter_update_revoked:
  assumes "distinct (map rt_id rows)" and "r \<in> set rows"
  shows "length (filter (is_active a now) (tbl_update rt_id (rt_id r) (revoke_at t) rows))
      + (if is_active a now r then 1 else 0) = length (filter (is_active a now) rows)"
  using assms
proof (induction rows)
  case Nil
  then show ?case by simp
next
  case (Cons x rows)
  have dead: "\<not> is_active a now (revoke_at t q)" for q by (simp add: is_active_def)
  show ?case
  proof (cases "x = r")
    case True
    then have "rt_id r \<notin> rt_id ` set rows" using Cons.prems(1) by simp
    then have "\<forall>q\<in>set rows. rt_id q \<noteq> rt_id r" by (metis imageI)
    then have "map (\<lambda>q. if rt_id q = rt_id r then revoke_at t q else q) rows = rows"
      by (intro map_idI) auto
    with True dead show ?thesis by (simp add: tbl_update_def)
  next
    case False
    with Cons.prems have "r \<in> set rows" "rt_id x \<noteq> rt_id r" by force+
    with Cons show ?thesis by (simp add: tbl_update_def)
  qed
qed

lemma oldest_unrevoked_Some:
  assumes "oldest_unrevoked a db = Some r"
  shows "r \<in> set (mm_refresh_tokens db)" and "is_unrevoked a r"
proof -
  let ?f = "filter (is_unrevoked a) (mm_refresh_tokens db)"
  obtain q where "sort_key rt_created_at ?f = r # q"
    using assms by (auto simp: oldest_unrevoked_def split: list.splits)
  then have "r \<in> set ?f" by (metis list.set_intros(1) set_sort)
  then show "r \<in> set (mm_refresh_tokens db)" "is_unrevoked a r" by simp_all
qed

lemma oldest_unrevoked_None:
  "oldest_unrevoked a db = None \<Longrightarrow> filter (is_unrevoked a) (mm_refresh_tokens db) = []"
  by (auto simp: oldest_unrevoked_def split: list.splits)
    (metis set_empty2 set_sort)

lemma active_unrevoked: "is_active a now r \<longleftrightarrow> is_unrevoked a r \<and> now < rt_expires_at r"
  by (auto simp: is_active_def is_unrevoked_def)

lemma active_count_insert:
  "0 < mm_refresh_ttl_seconds settings \<Longrightarrow>
   active_count a (me_now env) (write_token (Ins (minted_row ph settings env a ua ip rot)) db)
     = active_count a (me_now env) db + 1"
  by (simp add: active_count_def write_token_def tbl_insert_def minted_row_def is_active_def)

definition distinct_ids :: "mm_db \<Rightarrow> bool" where
  "distinct_ids db \<longleftrightarrow> distinct (map rt_id (mm_refresh_tokens db))"

lemma active_count_make_room:
  assumes "distinct_ids db" and "oldest_unrevoked a db = Some r"
    and "mm_refresh_max_active_per_agent settings \<le> int (active_count a now db)"
  shows "active_count a now (make_room settings a now db) + (if now < rt_expires_at r then 1 else 0)
    = active_count a now db"
  using filter_update_revoked [of "mm_refresh_tokens db" r a now now] oldest_unrevoked_Some [OF assms(2)] assms
  by (simp add: make_room_def active_count_def set_revoked_def distinct_ids_def active_unrevoked)

text \<open>When the query of \<open>mint_refresh_token\<close> finds a token whose revocation lowers the count.\<close>

definition make_room_revokes :: "Settings \<Rightarrow> uuid \<Rightarrow> seconds \<Rightarrow> mm_db \<Rightarrow> bool" where
  "make_room_revokes settings agent_id now db \<longleftrightarrow>
     mm_refresh_max_active_per_agent settings \<le> int (active_count agent_id now db)
     \<and> (case oldest_unrevoked agent_id db of None \<Rightarrow> False | Some r \<Rightarrow> now < rt_expires_at r)"

lemma make_room_count:
  assumes "distinct_ids db"
  shows "int (active_count a now (make_room settings a now db))
    = int (active_count a now db) - (if make_room_revokes settings a now db then 1 else 0)"
proof (cases "oldest_unrevoked a db")
  case None
  then show ?thesis by (simp add: make_room_def make_room_revokes_def)
next
  case (Some r)
  have pos: "0 < active_count a now db" if "now < rt_expires_at r"
    using oldest_unrevoked_Some [OF Some] that
    by (auto simp: active_count_def active_unrevoked filter_empty_conv)
  show ?thesis
    using active_count_make_room [OF assms Some, of settings now] pos Some
    by (auto simp: make_room_def make_room_revokes_def)
qed

lemma oldest_unexpired:
  assumes "list_all (\<lambda>r. is_unrevoked a r \<longrightarrow> now < rt_expires_at r) (mm_refresh_tokens db)" and "0 < active_count a now db"
  shows "\<exists>r. oldest_unrevoked a db = Some r \<and> now < rt_expires_at r"
proof -
  have "oldest_unrevoked a db \<noteq> None"
    using assms(2) oldest_unrevoked_None [of a db] by (auto simp: active_count_def filter_empty_conv active_unrevoked)
  then obtain r where r: "oldest_unrevoked a db = Some r" by blast
  with oldest_unrevoked_Some [OF r] assms(1) show ?thesis by (auto simp: list_all_iff)
qed

text \<open>C9: the cap on active tokens. A successful mint adds one active token, except when the agent already had the
  configured maximum (or more) and its oldest unrevoked token was unexpired: then that one gives way and the number
  stays. So an agent within a maximum of at least one stays within it as long as none of its unrevoked tokens has
  expired. (Identifiers of tokens are distinct and the configured lifetime is positive. With an expired unrevoked token
  the cap fails, lemma \<open>mint_exceeds_cap\<close>.)\<close>

theorem mint_keeps_cap:
  assumes "mint_refresh_token ph settings env a ua ip rot db = (Inr raw, db')"
    and "distinct_ids db" and "0 < mm_refresh_ttl_seconds settings"
  shows "int (active_count a (me_now env) db')
    = int (active_count a (me_now env) db) + (if make_room_revokes settings a (me_now env) db then 0 else 1) \<and>
    (1 \<le> mm_refresh_max_active_per_agent settings \<longrightarrow>
     int (active_count a (me_now env) db) \<le> mm_refresh_max_active_per_agent settings \<longrightarrow>
     list_all (\<lambda>r. is_unrevoked a r \<longrightarrow> me_now env < rt_expires_at r) (mm_refresh_tokens db) \<longrightarrow>
     int (active_count a (me_now env) db') \<le> mm_refresh_max_active_per_agent settings)"
proof -
  have db': "active_count a (me_now env) db'
      = active_count a (me_now env) (make_room settings a (me_now env) db) + 1"
    using mint_InrD(2) [OF assms(1)] active_count_insert [OF assms(3)] by simp
  then have exact: "int (active_count a (me_now env) db')
      = int (active_count a (me_now env) db) + (if make_room_revokes settings a (me_now env) db then 0 else 1)"
    using make_room_count [OF assms(2), where a = a and settings = settings and now = "me_now env"] by simp
  moreover have "make_room_revokes settings a (me_now env) db"
    if "1 \<le> mm_refresh_max_active_per_agent settings"
      "mm_refresh_max_active_per_agent settings \<le> int (active_count a (me_now env) db)"
      "list_all (\<lambda>r. is_unrevoked a r \<longrightarrow> me_now env < rt_expires_at r) (mm_refresh_tokens db)"
    using oldest_unexpired [OF that(3)] that(1,2) by (auto simp: make_room_revokes_def split: option.split)
  ultimately show ?thesis by (cases "make_room_revokes settings a (me_now env) db") force+
qed

text \<open>Where the cap fails. An expired token that was never revoked is not counted but is the
  oldest unrevoked one, so it is the one that is revoked: an agent at its cap gets one more active
  token than the maximum.\<close>

theorem mint_exceeds_cap:
  assumes "mint_refresh_token ph settings env a ua ip rot db = (Inr raw, db')"
    and "distinct_ids db" and "0 < mm_refresh_ttl_seconds settings"
    and "int (active_count a (me_now env) db) = mm_refresh_max_active_per_agent settings"
    and "oldest_unrevoked a db = Some r" and "rt_expires_at r \<le> me_now env"
  shows "int (active_count a (me_now env) db') = mm_refresh_max_active_per_agent settings + 1"
proof -
  have "active_count a (me_now env) (make_room settings a (me_now env) db) = active_count a (me_now env) db"
    using active_count_make_room [OF assms(2,5), of settings "me_now env"] assms(4,6) by simp
  then show ?thesis
    using mint_InrD(2) [OF assms(1)] active_count_insert [OF assms(3)] assms(4) by simp
qed

section \<open>Rotation\<close>

lemma get_set_revoked:
  "get_refresh_token k (set_revoked i now db) =
     (if k = i then map_option (revoke_at now) (get_refresh_token k db) else get_refresh_token k db)"
  by (simp add: set_revoked_write tokens_tbl.get_upd)

lemma rotate_InrD:
  assumes "rotate_refresh_token ph settings env raw ua ip db = (Inr (new_raw, agent), db')"
  obtains i secret row where "parse_raw_token raw = Some (i, secret)"
    and "get_refresh_token i db = Some row" and "rt_revoked_at row = None"
    and "re_check env < rt_expires_at row" and "verify_secret ph (rt_token_hash row) secret = Inr True"
    and "get_agent (rt_agent_id row) db = Some agent"
    and "mint_refresh_token ph settings (re_mint env) (rt_agent_id row) ua ip (Some i)
           (set_revoked i (re_revoke env) db) = (Inr new_raw, db')"
  using assms
  by (auto simp: rotate_refresh_token_def Let_def bind_act_eq_Inr get_agent_def
      split: option.splits prod.splits sum.splits bool.splits if_splits)

lemma agents_of_mint: "mm_agents (snd (mint_refresh_token ph settings env a ua ip rot db)) = mm_agents db"
  by (simp add: mint_refresh_token_def Let_def split: option.split)

text \<open>C7: a successful rotation. It happens only for a stored, unrevoked, unexpired token whose secret
  verifies and whose agent exists; it revokes that token and stores an unrevoked successor that
  points back to it, belongs to the same agent and is the token that is handed out.\<close>

theorem rotate_spec:
  assumes "rotate_refresh_token ph settings env raw ua ip db = (Inr (new_raw, agent), db')"
    and "32 \<le> length (me_secret (re_mint env))"
  shows "\<exists>i secret row old new.
    parse_raw_token raw = Some (i, secret) \<and> get_refresh_token i db = Some row \<and>
    rt_revoked_at row = None \<and> re_check env < rt_expires_at row \<and>
    verify_secret ph (rt_token_hash row) secret = Inr True \<and>
    get_agent (rt_agent_id row) db = Some agent \<and>
    get_refresh_token i db' = Some old \<and> rt_revoked_at old \<noteq> None \<and>
    parse_raw_token new_raw = Some (me_uuid (re_mint env), me_secret (re_mint env)) \<and>
    get_refresh_token (me_uuid (re_mint env)) db' = Some new \<and> rt_revoked_at new = None \<and>
    rt_rotated_from_id new = Some i \<and> rt_agent_id new = rt_agent_id row \<and>
    me_uuid (re_mint env) \<noteq> i"
proof (rule rotate_InrD [OF assms(1)])
  fix i secret row
  let ?db1 = "set_revoked i (re_revoke env) db"
  assume row: "get_refresh_token i db = Some row"
    and m: "mint_refresh_token ph settings (re_mint env) (rt_agent_id row) ua ip (Some i) ?db1 = (Inr new_raw, db')"
    and rest: "parse_raw_token raw = Some (i, secret)" "rt_revoked_at row = None"
      "re_check env < rt_expires_at row" "verify_secret ph (rt_token_hash row) secret = Inr True"
      "get_agent (rt_agent_id row) db = Some agent"
  have "get_refresh_token i ?db1 = Some (revoke_at (re_revoke env) row)"
    using row by (simp add: get_set_revoked)
  then obtain old where old: "get_refresh_token i db' = Some old" "revoked old"
    using mint_change [of ?db1] m unfolding token_change_def revoked_def
    by (metis option.distinct(1) revoke_at_simps(4) snd_conv)
  note new = minted_token_facts [OF m assms(2)]
  have "me_uuid (re_mint env) \<noteq> i"
    using old new by (auto simp: revoked_def)
  with row rest old new show ?thesis by (auto simp: revoked_def)
qed

lemma reuse_revokes_all:
  assumes "parse_raw_token raw = Some (i, secret)" and "get_refresh_token i db = Some row" and "revoked row"
  shows "rotate_refresh_token ph settings env raw ua ip db =
    (Inl (HTTPException 401 ''Refresh token reused; all sessions revoked. Re-login via MoltBook.''),
     snd (revoke_all_agent_tokens (re_reuse env) (rt_agent_id row) db))"
  using assms
  by (simp add: rotate_refresh_token_def revoked_def bind_act_def revoke_all_agent_tokens_def)

lemma active_count_revoke_all:
  "active_count a now (snd (revoke_all_agent_tokens t a db)) = 0"
  by (auto simp: active_count_def revoke_all_agent_tokens_def filter_empty_conv active_unrevoked
      is_unrevoked_def)

text \<open>C6: a refresh token works once. After a successful rotation, and whatever token operations and
  changes of agents follow, presenting the old text again is refused as reuse, mints nothing, and
  leaves (in the session) no active token of its agent.\<close>

theorem rotated_token_single_use:
  assumes "rotate_refresh_token ph settings env raw ua ip db = (Inr (new_raw, agent), db1)"
    and "token_op\<^sup>*\<^sup>* db1 db2"
  shows "\<exists>a db3. rotate_refresh_token ph' settings' env' raw ua' ip' db2 =
      (Inl (HTTPException 401 ''Refresh token reused; all sessions revoked. Re-login via MoltBook.''), db3)
    \<and> get_agent a db = Some agent \<and> active_count a now db3 = 0
    \<and> length (mm_refresh_tokens db3) = length (mm_refresh_tokens db2)"
proof (rule rotate_InrD [OF assms(1)])
  fix i secret row
  let ?db1 = "set_revoked i (re_revoke env) db"
  assume p: "parse_raw_token raw = Some (i, secret)" and row: "get_refresh_token i db = Some row"
    and ag: "get_agent (rt_agent_id row) db = Some agent"
    and m: "mint_refresh_token ph settings (re_mint env) (rt_agent_id row) ua ip (Some i) ?db1 = (Inr new_raw, db1)"
  have "token_change ?db1 db1" using mint_change [of ?db1] m by (metis snd_conv)
  then have "token_change ?db1 db2" using token_ops_change [OF assms(2)] token_change_trans by blast
  moreover have "get_refresh_token i ?db1 = Some (revoke_at (re_revoke env) row)"
    using row by (simp add: get_set_revoked)
  ultimately obtain r2 where r2: "get_refresh_token i db2 = Some r2" "revoked r2" "rt_agent_id r2 = rt_agent_id row"
    unfolding token_change_def by (metis option.distinct(1) revoke_at_simps(2,4) revoked_def)
  let ?db3 = "snd (revoke_all_agent_tokens (re_reuse env') (rt_agent_id row) db2)"
  have "length (mm_refresh_tokens ?db3) = length (mm_refresh_tokens db2)"
    by (simp add: revoke_all_agent_tokens_def)
  moreover have "rotate_refresh_token ph' settings' env' raw ua' ip' db2 =
      (Inl (HTTPException 401 ''Refresh token reused; all sessions revoked. Re-login via MoltBook.''), ?db3)"
    using reuse_revokes_all [OF p r2(1,2)] r2(3) by simp
  ultimately show ?thesis
    using active_count_revoke_all ag by (intro exI [of _ "rt_agent_id row"] exI [of _ ?db3] conjI) auto
qed

text \<open>Logging out ends a session. After \<open>revoke_token\<close> on a stored token, and whatever follows,
  a rotation of it is refused.\<close>

theorem revoked_token_refused:
  assumes "parse_raw_token raw = Some (i, secret)" and "get_refresh_token i db = Some row"
    and "token_op\<^sup>*\<^sup>* (snd (revoke_token now raw db)) db2"
  shows "fst (rotate_refresh_token ph settings env raw ua ip db2) =
    Inl (HTTPException 401 ''Refresh token reused; all sessions revoked. Re-login via MoltBook.'')"
proof -
  have "\<exists>r. get_refresh_token i (snd (revoke_token now raw db)) = Some r \<and> revoked r"
    using assms(1,2) by (simp add: revoke_token_def get_set_revoked revoked_def)
  with token_ops_change [OF assms(3)] obtain r2 where "get_refresh_token i db2 = Some r2" "revoked r2"
    unfolding token_change_def by blast
  from reuse_revokes_all [OF assms(1) this] show ?thesis by simp
qed

section \<open>A concrete agent\<close>

definition ex_ph :: argon2_lib where
  "ex_ph =
     \<lparr>ph_hash = (\<lambda>salt secret. map (\<lambda>b. char_of (unat b)) secret),
      ph_verify = (\<lambda>h secret. if h = map (\<lambda>b. char_of (unat b)) secret then Inr () else Inl VerifyMismatchError)\<rparr>"

definition ex_agent :: MmAgent where
  "ex_agent = \<lparr>ag_id = 1, ag_mb_agent_id = ''mb1'', ag_mb_name = ''alice'', ag_last_seen_at = 0,
     ag_created_at = 0, ag_updated_at = 0\<rparr>"

definition ex_env :: "seconds \<Rightarrow> uuid \<Rightarrow> mint_env" where
  "ex_env now i = \<lparr>me_now = now, me_uuid = i, me_secret = replicate 32 7, me_salt = []\<rparr>"

definition ex_raw :: "uuid \<Rightarrow> string" where
  "ex_raw i = uuid_hex i @ ''.'' @ base64url_encode (replicate 32 7)"

definition ex_db0 :: mm_db where
  "ex_db0 = \<lparr>mm_agents = [ex_agent], mm_refresh_tokens = []\<rparr>"

definition ex_row :: "uuid \<Rightarrow> seconds \<Rightarrow> uuid option \<Rightarrow> seconds option \<Rightarrow> MmRefreshToken" where
  "ex_row i now rot rv =
     \<lparr>rt_id = i, rt_agent_id = 1, rt_token_hash = replicate 32 (char_of (7 :: nat)), rt_created_at = now,
      rt_expires_at = now + 2592000, rt_revoked_at = rv, rt_rotated_from_id = rot,
      rt_user_agent = None, rt_ip = None\<rparr>"

definition ex_db :: "MmRefreshToken list \<Rightarrow> mm_db" where
  "ex_db rows = \<lparr>mm_agents = [ex_agent], mm_refresh_tokens = rows\<rparr>"

lemmas ex_simps = ex_ph_def ex_agent_def ex_env_def ex_raw_def ex_db_def ex_row_def default_settings_def

lemma ex_parse: "parse_raw_token (ex_raw i) = Some (i, replicate 32 7)"
  unfolding ex_raw_def by (rule parse_raw_token_text) simp

lemma ex_mint:
  "mint_refresh_token ex_ph default_settings (ex_env 0 10) 1 None None None (ex_db []) =
     (Inr (ex_raw 10), ex_db [ex_row 10 0 None None])"
  by (simp add: ex_simps mint_refresh_token_def make_room_def active_count_def
      refresh_token_violation_def get_refresh_token_def get_agent_def varchar_def hash_secret_def
      tbl_insert_def Let_def)

definition ex_rotate_env :: rotate_env where
  "ex_rotate_env = \<lparr>re_reuse = 5, re_check = 5, re_revoke = 5, re_mint = ex_env 5 11\<rparr>"

lemma ex_rotate:
  "rotate_refresh_token ex_ph default_settings ex_rotate_env (ex_raw 10) None None
     (ex_db [ex_row 10 0 None None])
   = (Inr (ex_raw 11, ex_agent), ex_db [ex_row 10 0 None (Some 5), ex_row 11 5 (Some 10) None])"
  by (simp add: rotate_refresh_token_def ex_parse)
    (simp add: ex_simps ex_rotate_env_def mint_refresh_token_def make_room_def active_count_def
      refresh_token_violation_def get_refresh_token_def get_agent_def varchar_def hash_secret_def
      tbl_insert_def Let_def verify_secret_def set_revoked_def tbl_update_def revoke_at_def is_active_def
      bind_act_def)

theorem minted_token_parses_witness:
  "parse_raw_token (ex_raw 10) = Some (10, replicate 32 7)"
  using minted_token_parses [OF ex_mint] by (simp add: ex_env_def)

theorem rotate_spec_witness:
  "parse_raw_token (ex_raw 11) = Some (11, replicate 32 7)"
  using rotate_spec [OF ex_rotate] by (auto simp: ex_rotate_env_def ex_env_def)

theorem rotated_token_single_use_witness:
  "\<exists>a db3. rotate_refresh_token ex_ph default_settings ex_rotate_env (ex_raw 10) None None
      (ex_db [ex_row 10 0 None (Some 5), ex_row 11 5 (Some 10) None]) =
      (Inl (HTTPException 401 ''Refresh token reused; all sessions revoked. Re-login via MoltBook.''), db3)
    \<and> get_agent a (ex_db [ex_row 10 0 None None]) = Some ex_agent \<and> active_count a 6 db3 = 0
    \<and> length (mm_refresh_tokens db3)
        = length (mm_refresh_tokens (ex_db [ex_row 10 0 None (Some 5), ex_row 11 5 (Some 10) None]))"
  by (rule rotated_token_single_use [OF ex_rotate]) simp

theorem revoked_token_refused_witness:
  "fst (rotate_refresh_token ex_ph default_settings ex_rotate_env (ex_raw 10) None None
      (snd (revoke_token 3 (ex_raw 10) (ex_db [ex_row 10 0 None None])))) =
    Inl (HTTPException 401 ''Refresh token reused; all sessions revoked. Re-login via MoltBook.'')"
proof (rule revoked_token_refused [OF ex_parse])
  show "get_refresh_token 10 (ex_db [ex_row 10 0 None None]) = Some (ex_row 10 0 None None)"
    by (simp add: ex_db_def ex_row_def get_refresh_token_def)
qed (rule rtranclp.rtrancl_refl)

definition ex_capped :: mm_db where
  "ex_capped = ex_db (map (\<lambda>k. ex_row (of_nat k) (of_nat k) None None) [1, 2, 3, 4, 5])"

lemma ex_mint_at_cap:
  "mint_refresh_token ex_ph default_settings (ex_env 10 10) 1 None None None ex_capped =
     (Inr (ex_raw 10), ex_db ([ex_row 1 1 None (Some 10), ex_row 2 2 None None, ex_row 3 3 None None,
        ex_row 4 4 None None, ex_row 5 5 None None, ex_row 10 10 None None]))"
  by (simp add: ex_capped_def ex_simps mint_refresh_token_def make_room_def active_count_def
      refresh_token_violation_def get_refresh_token_def get_agent_def varchar_def hash_secret_def
      tbl_insert_def Let_def oldest_unrevoked_def is_active_def is_unrevoked_def set_revoked_def
      tbl_update_def revoke_at_def sort_key_def)

theorem mint_keeps_cap_witness:
  "int (active_count 1 10 (ex_db ([ex_row 1 1 None (Some 10), ex_row 2 2 None None, ex_row 3 3 None None,
        ex_row 4 4 None None, ex_row 5 5 None None, ex_row 10 10 None None]))) = 5"
proof -
  have c: "active_count 1 10 ex_capped = 5"
    by (simp add: ex_capped_def active_count_def ex_db_def ex_row_def is_active_def)
  have o: "oldest_unrevoked 1 ex_capped = Some (ex_row 1 1 None None)"
    by (simp add: ex_capped_def ex_db_def ex_row_def oldest_unrevoked_def is_unrevoked_def sort_key_def)
  have r: "make_room_revokes default_settings 1 10 ex_capped"
    using c by (simp add: make_room_revokes_def o) (simp add: ex_row_def default_settings_def)
  have d: "distinct_ids ex_capped" by (simp add: ex_capped_def ex_db_def ex_row_def distinct_ids_def)
  have env: "me_now (ex_env 10 10) = 10" by (simp add: ex_env_def)
  have ttl: "0 < mm_refresh_ttl_seconds default_settings" by (simp add: default_settings_def)
  from mint_keeps_cap [OF ex_mint_at_cap d ttl] show ?thesis by (simp add: env c r)
qed

definition ex_stale :: mm_db where
  "ex_stale = ex_db ((ex_row 9 0 None None)\<lparr>rt_expires_at := 5\<rparr> # mm_refresh_tokens ex_capped)"

lemma ex_mint_stale:
  "mint_refresh_token ex_ph default_settings (ex_env 10 10) 1 None None None ex_stale =
     (Inr (ex_raw 10), ex_db ((ex_row 9 0 None (Some 10))\<lparr>rt_expires_at := 5\<rparr>
        # mm_refresh_tokens ex_capped @ [ex_row 10 10 None None]))"
  by (simp add: ex_capped_def ex_stale_def ex_simps mint_refresh_token_def make_room_def active_count_def
      refresh_token_violation_def get_refresh_token_def get_agent_def varchar_def hash_secret_def
      tbl_insert_def Let_def oldest_unrevoked_def is_active_def is_unrevoked_def set_revoked_def
      tbl_update_def revoke_at_def sort_key_def)

theorem mint_exceeds_cap_witness:
  "int (active_count 1 10 (ex_db ((ex_row 9 0 None (Some 10))\<lparr>rt_expires_at := 5\<rparr>
        # mm_refresh_tokens ex_capped @ [ex_row 10 10 None None]))) = 6"
proof -
  have c: "active_count 1 10 ex_stale = 5"
    by (simp add: ex_capped_def ex_stale_def active_count_def ex_db_def ex_row_def is_active_def)
  have o: "oldest_unrevoked 1 ex_stale = Some ((ex_row 9 0 None None)\<lparr>rt_expires_at := 5\<rparr>)"
    by (simp add: ex_capped_def ex_stale_def ex_db_def ex_row_def oldest_unrevoked_def is_unrevoked_def sort_key_def)
  have d: "distinct_ids ex_stale"
    by (simp add: ex_capped_def ex_stale_def ex_db_def ex_row_def distinct_ids_def)
  show ?thesis
    using mint_exceeds_cap [OF ex_mint_stale d _ _, of "(ex_row 9 0 None None)\<lparr>rt_expires_at := 5\<rparr>"] c o
    by (simp add: ex_env_def default_settings_def)
qed

end
