(* ===== verification/Auth.thy ===== *)
theory Auth
  imports Tokens JwtLib
begin

text \<open>
  Authentication requests: \<open>meritmolt/auth/jwt.py\<close>, \<open>auth/moltbook.py\<close>, \<open>auth/dependencies.py\<close> and
  \<open>auth/router.py\<close>. A request runs on the tables through \<open>get_db_session\<close>, which commits when the
  handler returns and rolls back when it raises.
\<close>

section \<open>Access tokens\<close>

definition ISSUER :: string where "ISSUER = ''meritmolt''"
definition AUDIENCE :: string where "AUDIENCE = ''meritmolt-api''"
definition ALGORITHM :: string where "ALGORITHM = ''ES256''"

definition access_payload :: "Settings \<Rightarrow> seconds \<Rightarrow> uuid \<Rightarrow> MmAgent \<Rightarrow> claims" where
  "access_payload settings now jti agent =
     [(''iss'', JStr ISSUER), (''aud'', JStr AUDIENCE), (''sub'', JStr (uuid_str (ag_id agent))),
      (''exp'', JFloat (now + of_int (mm_access_ttl_seconds settings))), (''iat'', JFloat now),
      (''nbf'', JFloat now), (''jti'', JStr (uuid_str jti)),
      (''mb_name'', JStr (ag_mb_name agent)), (''mb_agent_id'', JStr (ag_mb_agent_id agent))]"

definition create_access_token ::
  "jwt_lib \<Rightarrow> Settings \<Rightarrow> seconds \<Rightarrow> uuid \<Rightarrow> MmAgent \<Rightarrow> string result" where
  "create_access_token lib settings now jti agent =
     (case mm_jwt_private_keys settings of
        [] \<Rightarrow> Inl (ValueError ''MM_JWT_PRIVATE_KEYS must contain at least one key'')
      | (kid, private_pem) # _ \<Rightarrow>
          Inr (jl_encode lib (access_payload settings now jti agent) private_pem ALGORITHM
                 [(''kid'', JStr kid)]))"

definition decode_access_token :: "jwt_lib \<Rightarrow> Settings \<Rightarrow> seconds \<Rightarrow> string \<Rightarrow> claims result" where
  "decode_access_token lib settings now token =
     (let keys = mm_jwt_public_keys settings
      in if keys = [] then Inl (HTTPException 501 ''JWT public keys not configured'')
         else case bind_res (jl_header lib token) (\<lambda>h. select_key h keys) of
                Inl e \<Rightarrow> Inl (if e = JwtDecodeError then HTTPException 401 ''Invalid token format'' else e)
              | Inr None \<Rightarrow> Inl (HTTPException 401 ''Invalid token kid'')
              | Inr (Some public_pem) \<Rightarrow>
                  (case jl_decode lib token public_pem [ALGORITHM] AUDIENCE ISSUER
                          [''exp'', ''iat'', ''nbf'', ''sub''] now of
                     Inr payload \<Rightarrow> Inr payload
                   | Inl e \<Rightarrow>
                       Inl (if e = JwtExpiredSignatureError then HTTPException 401 ''Token expired''
                            else if is_invalid_token_error e then HTTPException 401 ''Invalid token''
                            else e)))"

section \<open>The identity provider\<close>

text \<open>
  A response of \<open>httpx\<close>: its status and what \<open>json()\<close> returns or raises. The client call itself is
  a parameter: the request is sent to a URL with a header and a JSON body, and answered or not.
\<close>

record http_response =
  rs_status :: int
  rs_json :: "json result"

type_synonym http_post = "string \<Rightarrow> (string \<times> string) list \<Rightarrow> json \<Rightarrow> http_response result"

record MBAgentInfo =
  mb_agent_id :: string
  mb_name :: string

definition should_retry :: "py_exn \<Rightarrow> bool" where
  "should_retry e = (case e of TransportError \<Rightarrow> True | HTTPStatusError status \<Rightarrow> status \<ge> 500 | _ \<Rightarrow> False)"

text \<open>\<open>resp.raise_for_status()\<close> raises unless the status is 2xx.\<close>

definition raise_for_status :: "http_response \<Rightarrow> unit result" where
  "raise_for_status resp =
     (if 200 \<le> rs_status resp \<and> rs_status resp \<le> 299 then Inr () else Inl (HTTPStatusError (rs_status resp)))"

definition read_agent_info :: "(json \<Rightarrow> string) \<Rightarrow> json \<Rightarrow> MBAgentInfo result" where
  "read_agent_info rep data =
     (case data of
        JObj kvs \<Rightarrow>
          let agent_id = py_or (dict_get kvs ''agent_id'') (py_or (dict_get kvs ''id'')
                           (py_or (dict_get kvs ''agentId'') (JStr [])));
              name = py_or (dict_get kvs ''name'') (py_or (dict_get kvs ''username'')
                           (py_or (dict_get kvs ''display_name'') (JStr [])))
          in if \<not> py_truthy agent_id then Inl (HTTPException 502 ''MoltBook missing agent_id'')
             else Inr \<lparr>mb_agent_id = py_str rep agent_id, mb_name = py_str rep name\<rparr>
      | _ \<Rightarrow> Inl AttributeError)"

definition verify_identity_once ::
  "(json \<Rightarrow> string) \<Rightarrow> http_post \<Rightarrow> Settings \<Rightarrow> string \<Rightarrow> MBAgentInfo result" where
  "verify_identity_once rep post settings identity_token =
     (case mm_moltbook_app_key settings of
        None \<Rightarrow> Inl (HTTPException 503 ''MoltBook not configured (MM_MOLTBOOK_APP_KEY missing)'')
      | Some app_key \<Rightarrow>
          if app_key = [] then Inl (HTTPException 503 ''MoltBook not configured (MM_MOLTBOOK_APP_KEY missing)'')
          else
            let url = py_rstrip_chars (mm_moltbook_api_base settings) ''/'' @ ''/agents/verify-identity''
            in case post url [(''X-Moltbook-App-Key'', app_key)] (JObj [(''token'', JStr identity_token)]) of
                 Inl e \<Rightarrow> Inl (if e = TransportError then HTTPException 502 ''MoltBook unreachable'' else e)
               | Inr resp \<Rightarrow>
                   if rs_status resp = 401 then Inl (HTTPException 401 ''Invalid or expired MoltBook token'')
                   else if rs_status resp \<ge> 500
                   then Inl (HTTPException 502 (''MoltBook error: '' @ int_str (rs_status resp)))
                   else bind_res (raise_for_status resp) (\<lambda>_. bind_res (rs_json resp) (read_agent_info rep)))"

text \<open>
  The \<open>tenacity\<close> decorator: up to three attempts, the next one only after an exception that
  \<open>_should_retry\<close> accepts; the last exception is raised again. The result carries the number of
  attempts made.
\<close>

fun retry_attempts :: "nat \<Rightarrow> nat \<Rightarrow> (nat \<Rightarrow> 'a result) \<Rightarrow> 'a result \<times> nat" where
  "retry_attempts n 0 f = (f n, n + 1)"
| "retry_attempts n (Suc left) f =
     (case f n of
        Inl e \<Rightarrow> if should_retry e then retry_attempts (n + 1) left f else (Inl e, n + 1)
      | Inr x \<Rightarrow> (Inr x, n + 1))"

definition verify_identity ::
  "(json \<Rightarrow> string) \<Rightarrow> (nat \<Rightarrow> http_post) \<Rightarrow> Settings \<Rightarrow> string \<Rightarrow> MBAgentInfo result \<times> nat" where
  "verify_identity rep posts settings identity_token =
     retry_attempts 0 2 (\<lambda>n. verify_identity_once rep (posts n) settings identity_token)"

section \<open>Dependencies\<close>

text \<open>\<open>initialized\<close> tells whether \<open>init_db\<close> has set \<open>async_session_factory\<close>.\<close>

definition get_db_session :: "bool \<Rightarrow> ('s, 'a) action \<Rightarrow> ('s, 'a) action" where
  "get_db_session initialized handler db =
     (if \<not> initialized then (Inl (HTTPException 503 ''Database not initialized''), db)
      else
        (case handler db of
           (Inr x, db') \<Rightarrow> (Inr x, db')
         | (Inl e, _) \<Rightarrow> (Inl e, db)))"

definition get_current_agent ::
  "jwt_lib \<Rightarrow> Settings \<Rightarrow> seconds \<Rightarrow> string option \<Rightarrow> (mm_db, MmAgent) action" where
  "get_current_agent lib settings now authorization db =
     (case authorization of
        None \<Rightarrow> (Inl (HTTPException 401 ''Missing or invalid Authorization''), db)
      | Some value \<Rightarrow>
          if \<not> py_startswith value ''Bearer '' then
            (Inl (HTTPException 401 ''Missing or invalid Authorization''), db)
          else
            let token = py_strip (py_removeprefix value ''Bearer '')
            in if token = [] then (Inl (HTTPException 401 ''Missing Bearer token''), db)
               else case decode_access_token lib settings now token of
                      Inl e \<Rightarrow> (Inl e, db)
                    | Inr payload \<Rightarrow>
                        (case dict_get payload ''sub'' of
                           JStr sub \<Rightarrow>
                             if sub = [] then (Inl (HTTPException 401 ''Invalid token claims''), db)
                             else (case uuid_parse sub of
                                     None \<Rightarrow> (Inl (HTTPException 401 ''Invalid token claims''), db)
                                   | Some agent_id \<Rightarrow>
                                       (case get_agent agent_id db of
                                          None \<Rightarrow> (Inl (HTTPException 401 ''Agent not found''), db)
                                        | Some agent \<Rightarrow> (Inr agent, db)))
                         | _ \<Rightarrow> (Inl (HTTPException 401 ''Invalid token claims''), db)))"

section \<open>Requests\<close>

record request =
  rq_client_host :: "string option"
  rq_user_agent :: "string option"

definition client_ip :: "request \<Rightarrow> string option" where
  "client_ip request = rq_client_host request"

definition user_agent :: "request \<Rightarrow> string option" where
  "user_agent request = rq_user_agent request"

definition require_identity_header :: "string option \<Rightarrow> string result" where
  "require_identity_header x_moltbook_identity =
     (case x_moltbook_identity of
        None \<Rightarrow> Inl (HTTPException 401 ''Missing X-Moltbook-Identity'')
      | Some v \<Rightarrow>
          if py_strip v = [] then Inl (HTTPException 401 ''Missing X-Moltbook-Identity'')
          else Inr (py_strip v))"

record TokenResponse =
  tr_access_token :: string
  tr_refresh_token :: string
  tr_token_type :: string
  tr_expires_in :: int

definition token_response :: "Settings \<Rightarrow> string \<Rightarrow> string \<Rightarrow> TokenResponse" where
  "token_response settings access refresh_raw =
     \<lparr>tr_access_token = access, tr_refresh_token = refresh_raw, tr_token_type = ''bearer'',
      tr_expires_in = mm_access_ttl_seconds settings\<rparr>"

text \<open>
  \<open>INSERT ... ON CONFLICT (mb_agent_id) DO UPDATE\<close>: the row of the agent gets the new name and
  time, or a new row is added with the generated identifier. PostgreSQL checks the length of both
  texts first.
\<close>

definition upsert_mm_agent ::
  "bool \<Rightarrow> seconds \<Rightarrow> seconds \<Rightarrow> uuid \<Rightarrow> MBAgentInfo \<Rightarrow> (mm_db, unit) action" where
  "upsert_mm_agent sqlite db_now py_now new_id mb_info db =
     (if \<not> sqlite \<and> (255 < length (mb_agent_id mb_info) \<or> 255 < length (mb_name mb_info))
      then (Inl (DataError ''value too long''), db)
      else if mb_agent_id mb_info \<in> set (map ag_mb_agent_id (mm_agents db))
      then (Inr (), db\<lparr>mm_agents := tbl_update ag_mb_agent_id (mb_agent_id mb_info)
              (\<lambda>r. r\<lparr>ag_mb_name := mb_name mb_info, ag_last_seen_at := db_now\<rparr>) (mm_agents db)\<rparr>)
      else if new_id \<in> set (map ag_id (mm_agents db))
      then (Inl (IntegrityError ''mm_agents_pkey''), db)
      else (Inr (), db\<lparr>mm_agents := tbl_insert
              \<lparr>ag_id = new_id, ag_mb_agent_id = mb_agent_id mb_info, ag_mb_name = mb_name mb_info,
               ag_last_seen_at = py_now, ag_created_at = db_now, ag_updated_at = db_now\<rparr> (mm_agents db)\<rparr>))"

text \<open>The query \<open>select(MmAgent).where(MmAgent.mb_agent_id == ...)\<close> and \<open>scalar_one()\<close>.\<close>

definition agent_by_mb_id :: "string \<Rightarrow> mm_db \<Rightarrow> MmAgent result" where
  "agent_by_mb_id mb db =
     (case filter (\<lambda>r. ag_mb_agent_id r = mb) (mm_agents db) of
        [agent] \<Rightarrow> Inr agent
      | _ \<Rightarrow> Inl (OtherException ''scalar_one''))"

record login_env =
  le_db_now :: seconds
  le_py_now :: seconds
  le_agent_id :: uuid
  le_mint :: mint_env
  le_jwt_now :: seconds
  le_jti :: uuid

definition login ::
  "argon2_lib \<Rightarrow> jwt_lib \<Rightarrow> (json \<Rightarrow> string) \<Rightarrow> (nat \<Rightarrow> http_post) \<Rightarrow> Settings \<Rightarrow> login_env \<Rightarrow> request
   \<Rightarrow> string \<Rightarrow> (mm_db, TokenResponse) action" where
  "login ph lib rep posts settings env request identity_token =
     bind_act (of_result (fst (verify_identity rep posts settings identity_token))) (\<lambda>mb_info.
     bind_act (upsert_mm_agent (py_in ''sqlite'' (database_url settings)) (le_db_now env) (le_py_now env)
                 (le_agent_id env) mb_info) (\<lambda>_.
     bind_act (\<lambda>db. (agent_by_mb_id (mb_agent_id mb_info) db, db)) (\<lambda>agent.
     bind_act (mint_refresh_token ph settings (le_mint env) (ag_id agent) (user_agent request)
                 (client_ip request) None) (\<lambda>refresh_raw.
     bind_act (of_result (create_access_token lib settings (le_jwt_now env) (le_jti env) agent)) (\<lambda>access.
     ret (token_response settings access refresh_raw))))))"

definition login_request ::
  "bool \<Rightarrow> argon2_lib \<Rightarrow> jwt_lib \<Rightarrow> (json \<Rightarrow> string) \<Rightarrow> (nat \<Rightarrow> http_post) \<Rightarrow> Settings \<Rightarrow> login_env \<Rightarrow> request
   \<Rightarrow> string option \<Rightarrow> (mm_db, TokenResponse) action" where
  "login_request initialized ph lib rep posts settings env request header =
     bind_act (of_result (require_identity_header header))
       (\<lambda>identity_token. get_db_session initialized (login ph lib rep posts settings env request identity_token))"

definition refresh ::
  "argon2_lib \<Rightarrow> jwt_lib \<Rightarrow> Settings \<Rightarrow> rotate_env \<Rightarrow> seconds \<Rightarrow> uuid \<Rightarrow> request \<Rightarrow> string
   \<Rightarrow> (mm_db, TokenResponse) action" where
  "refresh ph lib settings env jwt_now jti request refresh_token =
     bind_act (rotate_refresh_token ph settings env refresh_token (user_agent request) (client_ip request))
       (\<lambda>(new_raw, agent).
          bind_act (of_result (create_access_token lib settings jwt_now jti agent))
            (\<lambda>access. ret (token_response settings access new_raw)))"

definition refresh_request ::
  "bool \<Rightarrow> argon2_lib \<Rightarrow> jwt_lib \<Rightarrow> Settings \<Rightarrow> rotate_env \<Rightarrow> seconds \<Rightarrow> uuid \<Rightarrow> request \<Rightarrow> string
   \<Rightarrow> (mm_db, TokenResponse) action" where
  "refresh_request initialized ph lib settings env jwt_now jti request refresh_token =
     get_db_session initialized (refresh ph lib settings env jwt_now jti request refresh_token)"

definition logout :: "bool \<Rightarrow> seconds \<Rightarrow> string \<Rightarrow> (mm_db, unit) action" where
  "logout initialized now refresh_token = get_db_session initialized (revoke_token now refresh_token)"

text \<open>\<open>GET /v1/auth/me\<close>: the identifier, MoltBook identifier and name of the current agent.\<close>

definition me :: "bool \<Rightarrow> jwt_lib \<Rightarrow> Settings \<Rightarrow> seconds \<Rightarrow> string option \<Rightarrow> (mm_db, uuid \<times> string \<times> string) action" where
  "me initialized lib settings now authorization =
     get_db_session initialized (bind_act (get_current_agent lib settings now authorization)
       (\<lambda>agent. ret (ag_id agent, ag_mb_agent_id agent, ag_mb_name agent)))"

section \<open>Transactions\<close>

lemma get_db_session_Inr: "get_db_session initialized m db = (Inr x, db') \<longleftrightarrow> initialized \<and> m db = (Inr x, db')"
  by (auto simp: get_db_session_def split: prod.splits sum.splits)

lemma get_db_session_Inl: "fst (m db) = Inl e \<Longrightarrow> get_db_session True m db = (Inl e, db)"
  by (cases "m db") (simp add: get_db_session_def)

text \<open>C38: reuse detection does not survive its own exception. A request that presents a revoked
  refresh token is answered with the 401 that announces that all sessions were revoked; but the
  exception makes \<open>get_db_session\<close> roll back, and the tables are exactly as before.\<close>

theorem reuse_detection_rolled_back:
  assumes "parse_raw_token raw = Some (i, secret)" and "get_refresh_token i db = Some row"
    and "rt_revoked_at row \<noteq> None"
  shows "refresh_request True ph lib settings env jwt_now jti request raw db =
    (Inl (HTTPException 401 ''Refresh token reused; all sessions revoked. Re-login via MoltBook.''), db)"
  unfolding refresh_request_def
  by (rule get_db_session_Inl)
    (use assms in \<open>simp add: refresh_def bind_act_def reuse_revokes_all revoked_def\<close>)

section \<open>The identity check\<close>

lemma verify_identity_once_errors:
  assumes "verify_identity_once rep post settings tok = Inl e"
    and "\<And>url h b e'. post url h b = Inl e' \<Longrightarrow> \<not> should_retry e' \<or> e' = TransportError"
    and "\<And>url h b resp e'. post url h b = Inr resp \<Longrightarrow> rs_json resp = Inl e' \<Longrightarrow> \<not> should_retry e'"
  shows "\<not> should_retry e"
  using assms
  by (auto simp: verify_identity_once_def bind_res_def raise_for_status_def read_agent_info_def Let_def
      split: option.splits sum.splits if_splits json.splits) (auto simp: should_retry_def split: py_exn.splits)

lemma retry_once:
  assumes "\<forall>e. f n = Inl e \<longrightarrow> \<not> should_retry e"
  shows "retry_attempts n k f = (f n, n + 1)"
proof (cases k)
  case (Suc left)
  then show ?thesis using assms by (cases "f n") simp_all
qed simp

text \<open>What \<open>httpx\<close> documents: sending raises no \<open>HTTPStatusError\<close>, and \<open>json()\<close> a \<open>ValueError\<close> only.\<close>

definition httpx_documented :: "http_post \<Rightarrow> bool" where
  "httpx_documented post \<longleftrightarrow>
     (\<forall>url h b s. post url h b \<noteq> Inl (HTTPStatusError s)) \<and>
     (\<forall>url h b resp e. post url h b = Inr resp \<longrightarrow> rs_json resp = Inl e \<longrightarrow> (\<exists>m. e = ValueError m))"

text \<open>C39: the retry decorator of \<open>verify_identity\<close> never retries. Transport errors and 5xx answers have
  become \<open>HTTPException\<close>s inside the decorated function, so whatever MoltBook does, exactly one
  attempt is made. (httpx raises what \<open>httpx_documented\<close> says.)\<close>

theorem verify_identity_one_attempt:
  assumes "\<forall>n. httpx_documented (posts n)"
  shows "snd (verify_identity rep posts settings tok) = 1"
proof -
  have "\<not> should_retry e" if "verify_identity_once rep (posts 0) settings tok = Inl e" for e
    using that
  proof (rule verify_identity_once_errors)
    have doc: "httpx_documented (posts 0)" using assms by blast
    show "\<not> should_retry e' \<or> e' = TransportError" if "posts 0 url h b = Inl e'" for url h b e'
    proof -
      have "\<forall>s. posts 0 url h b \<noteq> Inl (HTTPStatusError s)"
        using doc unfolding httpx_documented_def by blast
      then have "e' \<noteq> HTTPStatusError s" for s using that by simp
      then show ?thesis by (cases e') (auto simp: should_retry_def)
    qed
    show "\<not> should_retry e'" if r: "posts 0 url h b = Inr resp" "rs_json resp = Inl e'" for url h b resp e'
    proof -
      obtain m where "e' = ValueError m" using doc r unfolding httpx_documented_def by blast
      then show ?thesis by (simp add: should_retry_def)
    qed
  qed
  then have "retry_attempts 0 2 (\<lambda>n. verify_identity_once rep (posts n) settings tok)
      = (verify_identity_once rep (posts 0) settings tok, 0 + 1)"
    by (intro retry_once) blast
  then show ?thesis by (simp only: verify_identity_def snd_conv)
qed

definition ex_settings :: Settings where
  "ex_settings = default_settings\<lparr>mm_moltbook_app_key := Some ''k'',
     mm_jwt_private_keys := [(''k1'', ''priv'')], mm_jwt_public_keys := [(''k1'', ''pub'')]\<rparr>"

definition ex_post :: "int \<Rightarrow> http_post" where
  "ex_post status url headers body =
     Inr \<lparr>rs_status = status, rs_json = Inr (JObj [(''id'', JStr ''mb1''), (''username'', JStr ''alice'')])\<rparr>"

lemma ex_once:
  "verify_identity_once rep (ex_post 503) ex_settings tok
     = Inl (HTTPException 502 (''MoltBook error: '' @ int_str 503))"
proof -
  have "mm_moltbook_app_key ex_settings = Some ''k''" by (simp add: ex_settings_def)
  then show ?thesis by (simp only: verify_identity_once_def ex_post_def Let_def) simp
qed

theorem verify_identity_one_attempt_witness:
  "verify_identity (\<lambda>_. []) (\<lambda>n. ex_post (if n = 0 then 503 else 200)) ex_settings ''tok''
     = (Inl (HTTPException 502 (''MoltBook error: '' @ int_str 503)), 1)"
proof -
  have "snd (verify_identity (\<lambda>_. []) (\<lambda>n. ex_post (if n = 0 then 503 else 200)) ex_settings ''tok'') = 1"
    by (rule verify_identity_one_attempt) (simp add: httpx_documented_def ex_post_def)
  moreover have "fst (verify_identity (\<lambda>_. []) (\<lambda>n. ex_post (if n = 0 then 503 else 200)) ex_settings ''tok'')
      = Inl (HTTPException 502 (''MoltBook error: '' @ int_str 503))"
    unfolding verify_identity_def by (subst retry_once) (simp_all add: ex_once should_retry_def)
  ultimately show ?thesis by (simp only: prod_eq_iff fst_conv snd_conv)
qed

section \<open>Who a request acts for\<close>

text \<open>
  What PyJWT does with the token that \<open>create_access_token\<close> signs, for a key pair: its header has the \<open>kid\<close>, and
  decoding with the public key gives the payload back as long as the time is in the window. PyJWT reads \<open>nbf\<close>, \<open>iat\<close>
  and \<open>exp\<close> with \<open>int\<close>, so the window is one of whole seconds: from the second of \<open>nbf\<close> on, up to the beginning of
  the second of \<open>exp\<close>, from when on it raises \<open>ExpiredSignatureError\<close>. The text is compact serialisation: not empty, no
  white space.
\<close>

definition jwt_documented :: "jwt_lib \<Rightarrow> string \<Rightarrow> string \<Rightarrow> string \<Rightarrow> claims \<Rightarrow> seconds \<Rightarrow> seconds \<Rightarrow> bool" where
  "jwt_documented lib kid priv pub payload nbf expiry \<longleftrightarrow>
     (let tok = jl_encode lib payload priv ALGORITHM [(''kid'', JStr kid)];
          decode = jl_decode lib tok pub [ALGORITHM] AUDIENCE ISSUER [''exp'', ''iat'', ''nbf'', ''sub'']
      in tok \<noteq> [] \<and> py_strip tok = tok
         \<and> jl_header lib tok = Inr [(''alg'', JStr ALGORITHM), (''kid'', JStr kid), (''typ'', JStr ''JWT'')]
         \<and> (\<forall>t. of_int \<lfloor>nbf\<rfloor> \<le> t \<longrightarrow>
              decode t = (if t < of_int \<lfloor>expiry\<rfloor> then Inr payload else Inl JwtExpiredSignatureError)))"

text \<open>A token made for an agent authenticates it until the second in which it expires.\<close>

lemma created_token_authenticates:
  assumes "mm_jwt_private_keys settings = (kid, priv) # ks"
    and "kid \<noteq> []" and "map_of (mm_jwt_public_keys settings) kid = Some pub"
    and "jwt_documented lib kid priv pub (access_payload settings now jti agent) now
           (now + of_int (mm_access_ttl_seconds settings))"
    and "create_access_token lib settings now jti agent = Inr tok"
    and "get_agent (ag_id agent) db = Some agent"
    and "of_int \<lfloor>now\<rfloor> \<le> t"
  shows "get_current_agent lib settings t (Some (''Bearer '' @ tok)) db =
    (if t < of_int \<lfloor>now + of_int (mm_access_ttl_seconds settings)\<rfloor> then Inr agent else Inl (HTTPException 401 ''Token expired''), db)"
proof -
  let ?p = "access_payload settings now jti agent"
  let ?valid = "t < of_int \<lfloor>now + of_int (mm_access_ttl_seconds settings)\<rfloor>"
  have tok: "tok = jl_encode lib ?p priv ALGORITHM [(''kid'', JStr kid)]"
    using assms(1,5) by (simp add: create_access_token_def)
  have strip: "tok \<noteq> []" "py_strip tok = tok"
    and header: "jl_header lib tok = Inr [(''alg'', JStr ALGORITHM), (''kid'', JStr kid), (''typ'', JStr ''JWT'')]"
    and dec: "jl_decode lib tok pub [ALGORITHM] AUDIENCE ISSUER [''exp'', ''iat'', ''nbf'', ''sub''] t
      = (if ?valid then Inr ?p else Inl JwtExpiredSignatureError)"
    using assms(4,7) unfolding tok jwt_documented_def Let_def by blast+
  have "select_key [(''alg'', JStr ALGORITHM), (''kid'', JStr kid), (''typ'', JStr ''JWT'')]
      (mm_jwt_public_keys settings) = Inr (Some pub)"
    using assms(2,3) by (simp add: select_key_def)
  then have "decode_access_token lib settings t tok = (if ?valid then Inr ?p else Inl (HTTPException 401 ''Token expired''))"
    using assms(3) header dec by (auto simp: decode_access_token_def Let_def)
  moreover have "dict_get ?p ''sub'' = JStr (uuid_str (ag_id agent))" by (simp add: access_payload_def)
  moreover have "uuid_str (ag_id agent) \<noteq> []" by (simp add: uuid_str_def Let_def)
  ultimately show ?thesis
    using strip assms(6) by (simp add: get_current_agent_def py_removeprefix_def py_startswith_def Let_def)
qed

text \<open>C11: an access token stands for its agent. The token created for an agent of the table is accepted as bearer
  token from the second of its creation up to the beginning of the second in which it expires, and the request
  then acts for exactly that agent: \<open>/me\<close> returns its identifier, MoltBook identifier and name. From then on it is answered
  401. (The public key of the first private key is configured, and PyJWT does what \<open>jwt_documented\<close> says.)\<close>

theorem access_token_identifies_agent:
  assumes "mm_jwt_private_keys settings = (kid, priv) # ks"
    and "kid \<noteq> []" and "map_of (mm_jwt_public_keys settings) kid = Some pub"
    and "jwt_documented lib kid priv pub (access_payload settings now jti agent) now
           (now + of_int (mm_access_ttl_seconds settings))"
    and "create_access_token lib settings now jti agent = Inr tok"
    and "get_agent (ag_id agent) db = Some agent"
    and "of_int \<lfloor>now\<rfloor> \<le> t"
  shows "me True lib settings t (Some (''Bearer '' @ tok)) db =
    (if t < of_int \<lfloor>now + of_int (mm_access_ttl_seconds settings)\<rfloor>
     then Inr (ag_id agent, ag_mb_agent_id agent, ag_mb_name agent) else Inl (HTTPException 401 ''Token expired''), db)"
  using created_token_authenticates [OF assms] by (simp add: me_def get_db_session_def bind_act_def)

text \<open>A library that decodes as PyJWT does, for the one token that it makes.\<close>

definition ex_jwt_lib :: "claims \<Rightarrow> seconds \<Rightarrow> seconds \<Rightarrow> jwt_lib" where
  "ex_jwt_lib payload nbf expiry =
     \<lparr>jl_header = (\<lambda>tok. if tok = ''T'' then Inr [(''alg'', JStr ''ES256''), (''kid'', JStr ''k1''), (''typ'', JStr ''JWT'')]
                         else Inl JwtDecodeError),
      jl_encode = (\<lambda>_ _ _ _. ''T''),
      jl_decode = (\<lambda>tok key _ _ _ _ t.
         if tok = ''T'' \<and> key = ''pub'' \<and> of_int \<lfloor>nbf\<rfloor> \<le> t
         then (if t < of_int \<lfloor>expiry\<rfloor> then Inr payload else Inl JwtExpiredSignatureError)
         else Inl JwtInvalidTokenError)\<rparr>"

lemma ex_jwt_documented: "jwt_documented (ex_jwt_lib p a b) ''k1'' ''priv'' ''pub'' p a b"
  by (simp add: jwt_documented_def ex_jwt_lib_def ALGORITHM_def Let_def py_strip_def py_lstrip_def
      py_rstrip_def py_isspace_def)

text \<open>Created at 100.5 for 900 seconds: accepted at 999.9, refused at 1000.25, before the 1000.5 that it names.\<close>

theorem access_token_identifies_agent_witness:
  "let lib = ex_jwt_lib (access_payload ex_settings (201 / 2) 3 ex_agent) (201 / 2) (2001 / 2)
   in me True lib ex_settings (9999 / 10) (Some (''Bearer '' @ ''T'')) (ex_db []) = (Inr (1, ''mb1'', ''alice''), ex_db [])
    \<and> me True lib ex_settings (4001 / 4) (Some (''Bearer '' @ ''T'')) (ex_db []) = (Inl (HTTPException 401 ''Token expired''), ex_db [])"
proof -
  let ?p = "access_payload ex_settings (201 / 2) 3 ex_agent"
  let ?lib = "ex_jwt_lib ?p (201 / 2) (2001 / 2)"
  have keys: "mm_jwt_private_keys ex_settings = (''k1'', ''priv'') # []" "map_of (mm_jwt_public_keys ex_settings) ''k1'' = Some ''pub''"
    by (simp_all add: ex_settings_def)
  have ttl: "201 / 2 + of_int (mm_access_ttl_seconds ex_settings) = (2001 / 2 :: seconds)"
    by (simp add: ex_settings_def default_settings_def)
  have lib: "jwt_documented ?lib ''k1'' ''priv'' ''pub'' ?p (201 / 2) (201 / 2 + of_int (mm_access_ttl_seconds ex_settings))"
    unfolding ttl by (rule ex_jwt_documented)
  have tok: "create_access_token ?lib ex_settings (201 / 2) 3 ex_agent = Inr ''T''"
    by (simp add: create_access_token_def keys ex_jwt_lib_def)
  have agent: "get_agent (ag_id ex_agent) (ex_db []) = Some ex_agent" by (simp add: get_agent_def ex_db_def ex_agent_def)
  have fl: "\<lfloor>201 / 2 :: seconds\<rfloor> = 100" "\<lfloor>2001 / 2 :: seconds\<rfloor> = 1000" by (simp_all add: floor_unique)
  have "me True ?lib ex_settings t (Some (''Bearer '' @ ''T'')) (ex_db []) =
      (if t < 1000 then Inr (ag_id ex_agent, ag_mb_agent_id ex_agent, ag_mb_name ex_agent)
       else Inl (HTTPException 401 ''Token expired''), ex_db [])" if "100 \<le> t" for t
    using access_token_identifies_agent [OF keys(1) _ keys(2) lib tok agent, of t] that by (simp add: ttl fl)
  from this [of "9999 / 10"] this [of "4001 / 4"] show ?thesis by (simp add: Let_def ex_agent_def)
qed

theorem reuse_detection_rolled_back_witness:
  "refresh_request True ex_ph (ex_jwt_lib [] 0 0) ex_settings ex_rotate_env 0 0
     \<lparr>rq_client_host = None, rq_user_agent = None\<rparr> (ex_raw 10)
     (ex_db [ex_row 10 0 None (Some 5), ex_row 11 5 (Some 10) None])
   = (Inl (HTTPException 401 ''Refresh token reused; all sessions revoked. Re-login via MoltBook.''),
      ex_db [ex_row 10 0 None (Some 5), ex_row 11 5 (Some 10) None])"
  by (rule reuse_detection_rolled_back [OF ex_parse, where row = "ex_row 10 0 None (Some 5)"])
    (simp_all add: ex_db_def ex_row_def get_refresh_token_def)

end
