(* ===== verification/Entities.thy ===== *)
theory Entities
  imports PyJson
begin

text \<open>
  The crawler's entity tables: \<open>textlake/models/entities.py\<close>, \<open>ids.py\<close> and \<open>utils.py\<close>, and the
  column rules PostgreSQL applies to them. A row maps column names to values; the columns of a
  table, with type, nullability, default, uniqueness and foreign key, are those of its model class.
\<close>

section \<open>Values and columns\<close>

text \<open>\<open>VNull\<close> is SQL \<open>NULL\<close>, which is also what Python's \<open>None\<close> becomes.\<close>

datatype dbval = VNull | VJson json | VTime seconds

type_synonym row = "string \<Rightarrow> dbval"

definition to_val :: "json \<Rightarrow> dbval" where
  "to_val v = (case v of JNull \<Rightarrow> VNull | _ \<Rightarrow> VJson v)"

definition opt_time :: "seconds option \<Rightarrow> dbval" where
  "opt_time t = (case t of None \<Rightarrow> VNull | Some s \<Rightarrow> VTime s)"

datatype entity = Agent | Submolt | Post | Comment

datatype coltype = CStr "nat option" | CCitext | CInt | CBool | CTime | CJsonb

text \<open>Column default: none, the time of the statement (\<open>func.now()\<close>), or a constant.\<close>

datatype coldefault = NoDefault | DefaultNow | DefaultConst json

record column =
  co_type :: coltype
  co_null :: bool
  co_default :: coldefault
  co_unique :: bool
  co_fk :: "entity option"

definition col :: "coltype \<Rightarrow> bool \<Rightarrow> column" where
  "col t n = \<lparr>co_type = t, co_null = n, co_default = NoDefault, co_unique = False, co_fk = None\<rparr>"

definition pk_col :: column where
  "pk_col = (col (CStr (Some 64)) False)\<lparr>co_unique := True\<rparr>"

definition fk_col :: "bool \<Rightarrow> entity \<Rightarrow> column" where
  "fk_col n e = (col (CStr (Some 64)) n)\<lparr>co_fk := Some e\<rparr>"

definition now_col :: column where
  "now_col = (col CTime False)\<lparr>co_default := DefaultNow\<rparr>"

definition const_col :: "coltype \<Rightarrow> json \<Rightarrow> column" where
  "const_col t v = (col t False)\<lparr>co_default := DefaultConst v\<rparr>"

definition MbAgent :: "(string \<times> column) list" where
  "MbAgent =
     [(''id'', pk_col), (''name'', (col CCitext False)\<lparr>co_unique := True\<rparr>),
      (''description'', col (CStr None) True), (''created_at_src'', col CTime True),
      (''karma'', col CInt True), (''is_claimed'', col CBool True), (''is_human'', col CBool True),
      (''raw_json'', col CJsonb False), (''first_seen_at'', now_col), (''last_seen_at'', now_col)]"

definition MbSubmolt :: "(string \<times> column) list" where
  "MbSubmolt =
     [(''id'', pk_col), (''name'', (col CCitext False)\<lparr>co_unique := True\<rparr>),
      (''display_name'', col (CStr None) True), (''description'', col (CStr None) True),
      (''created_at_src'', col CTime True), (''raw_json'', col CJsonb False),
      (''first_seen_at'', now_col), (''last_seen_at'', now_col)]"

definition MbPost :: "(string \<times> column) list" where
  "MbPost =
     [(''id'', pk_col), (''submolt_name'', col CCitext True), (''submolt_id'', fk_col True Submolt),
      (''author_name'', col CCitext True), (''author_id'', fk_col False Agent),
      (''title'', col (CStr None) True), (''content'', col (CStr None) True),
      (''url'', col (CStr None) True), (''created_at_src'', col CTime True),
      (''updated_at_src'', col CTime True), (''upvotes'', col CInt True),
      (''downvotes'', col CInt True), (''comment_count'', col CInt True),
      (''raw_json'', col CJsonb False), (''first_seen_at'', now_col), (''last_seen_at'', now_col),
      (''comments_fetched'', const_col CInt (JInt 0)),
      (''comments_truncated'', const_col CBool (JBool False)),
      (''last_comments_fetch_at'', col CTime True), (''ticker'', const_col CInt (JInt 0))]"

definition MbComment :: "(string \<times> column) list" where
  "MbComment =
     [(''id'', pk_col), (''post_id'', fk_col False Post), (''parent_id'', fk_col True Comment),
      (''author_name'', col CCitext True), (''author_id'', fk_col False Agent),
      (''content'', col (CStr None) False), (''created_at_src'', col CTime True),
      (''upvotes'', col CInt True), (''downvotes'', col CInt True), (''raw_json'', col CJsonb False),
      (''first_seen_at'', now_col), (''last_seen_at'', now_col), (''ticker'', const_col CInt (JInt 0))]"

fun columns_of :: "entity \<Rightarrow> (string \<times> column) list" where
  "columns_of Agent = MbAgent"
| "columns_of Submolt = MbSubmolt"
| "columns_of Post = MbPost"
| "columns_of Comment = MbComment"

text \<open>What the driver and the column type accept, \<open>NULL\<close> apart.\<close>

definition fits :: "coltype \<Rightarrow> dbval \<Rightarrow> bool" where
  "fits t v =
     (case v of
        VNull \<Rightarrow> True
      | VTime _ \<Rightarrow> t = CTime
      | VJson j \<Rightarrow>
          (case t of
             CStr limit \<Rightarrow> (case j of JStr s \<Rightarrow> (case limit of None \<Rightarrow> True | Some n \<Rightarrow> length s \<le> n) | _ \<Rightarrow> False)
           | CCitext \<Rightarrow> (case j of JStr _ \<Rightarrow> True | _ \<Rightarrow> False)
           | CInt \<Rightarrow> (case j of JInt i \<Rightarrow> - (2 ^ 31) \<le> i \<and> i < 2 ^ 31 | JBool _ \<Rightarrow> True | _ \<Rightarrow> False)
           | CBool \<Rightarrow> (case j of JBool _ \<Rightarrow> True | _ \<Rightarrow> False)
           | CTime \<Rightarrow> False
           | CJsonb \<Rightarrow> True))"

text \<open>Equality of two values of a column: \<open>CITEXT\<close> compares without case, and \<open>NULL\<close> equals nothing.\<close>

definition same_value :: "coltype \<Rightarrow> dbval \<Rightarrow> dbval \<Rightarrow> bool" where
  "same_value t a b =
     (case (a, b) of
        (VJson (JStr s), VJson (JStr s')) \<Rightarrow> if t = CCitext then py_lower s = py_lower s' else s = s'
      | _ \<Rightarrow> a \<noteq> VNull \<and> a = b)"

section \<open>The standard library\<close>

text \<open>
  \<open>sha256(...).hexdigest()\<close>, \<open>orjson.dumps\<close> with sorted keys, \<open>datetime.fromisoformat(...)\<close> as a UTC
  instant (\<open>None\<close>: \<open>ValueError\<close>), and \<open>repr\<close>: functions the sources call and do not define.
\<close>

record crawl_lib =
  cl_sha256 :: "string \<Rightarrow> string"
  cl_dumps :: "json \<Rightarrow> string"
  cl_fromiso :: "string \<Rightarrow> seconds option"
  cl_repr :: "json \<Rightarrow> string"

definition synthetic_agent_id :: "crawl_lib \<Rightarrow> string \<Rightarrow> string" where
  "synthetic_agent_id lib name = cl_sha256 lib (''agent:'' @ py_lower name)"

definition synthetic_submolt_id :: "crawl_lib \<Rightarrow> string \<Rightarrow> string" where
  "synthetic_submolt_id lib name = cl_sha256 lib (''submolt:'' @ py_lower name)"

text \<open>\<open>datetime.fromtimestamp(x, tz=utc)\<close>: years 1 to 9999, and a C \<open>time_t\<close> of 64 bits.\<close>

definition fromtimestamp :: "rat \<Rightarrow> seconds result" where
  "fromtimestamp x =
     (if - 62135596800 \<le> x \<and> x < 253402300800 then Inr x
      else if x < - (2 ^ 63) \<or> 2 ^ 63 \<le> x then Inl OverflowError
      else Inl (ValueError ''year is out of range''))"

definition parse_ts :: "crawl_lib \<Rightarrow> json \<Rightarrow> (seconds option) result" where
  "parse_ts lib raw =
     (case raw of
        JInt i \<Rightarrow> bind_res (fromtimestamp (of_int i)) (\<lambda>t. Inr (Some t))
      | JFloat x \<Rightarrow> bind_res (fromtimestamp x) (\<lambda>t. Inr (Some t))
      | JBool b \<Rightarrow> bind_res (fromtimestamp (if b then 1 else 0)) (\<lambda>t. Inr (Some t))
      | JStr s \<Rightarrow>
          Inr (if py_in ''T'' s \<or> py_in ''Z'' s \<or> py_in ''+'' s
               then cl_fromiso lib (py_replace ''Z'' ''+00:00'' s) else None)
      | _ \<Rightarrow> Inr None)"

text \<open>\<open>(x or empty).strip()\<close>: the method exists on strings only.\<close>

definition strip_json :: "json \<Rightarrow> string result" where
  "strip_json v = (case v of JStr s \<Rightarrow> Inr (py_strip s) | _ \<Rightarrow> Inl AttributeError)"

text \<open>\<open>aid = data.get(..) or ..; if isinstance(aid, dict): aid = aid.get("id") or synthetic\<close>.\<close>

definition unwrap_id :: "json \<Rightarrow> string \<Rightarrow> json" where
  "unwrap_id v synthetic =
     (case v of JObj kvs \<Rightarrow> py_or (dict_get kvs ''id'') (JStr synthetic) | _ \<Rightarrow> v)"

type_synonym colvals = "(string \<times> dbval) list"

definition agent_stub :: "crawl_lib \<Rightarrow> (string \<times> json) list \<Rightarrow> (colvals option) result" where
  "agent_stub lib data =
     bind_res (strip_json (py_or (dict_get data ''name'') (py_or (dict_get data ''username'')
                 (py_or (dict_get data ''author_name'') (JStr []))))) (\<lambda>name.
     if name = [] then Inr None
     else
       let aid = unwrap_id (py_or (dict_get data ''id'') (py_or (dict_get data ''agent_id'')
                   (JStr (synthetic_agent_id lib name)))) (synthetic_agent_id lib name)
       in bind_res (parse_ts lib (dict_get data ''created_at'')) (\<lambda>created.
          Inr (Some
            [(''id'', VJson (JStr (py_str (cl_repr lib) aid))), (''name'', VJson (JStr name)),
             (''description'', to_val (dict_get data ''description'')),
             (''created_at_src'', opt_time created),
             (''karma'', to_val (dict_get data ''karma'')),
             (''is_claimed'', to_val (dict_get data ''is_claimed'')),
             (''is_human'', to_val (dict_get data ''is_human'')),
             (''raw_json'', VJson (JObj data))])))"

end
