(* ===== verification/Upsert.thy ===== *)
theory Upsert
  imports Entities Bytes Tables
begin

text \<open>
  The crawler's database and the enrichment upserts of \<open>textlake/upsert.py\<close>. One definition,
  \<open>enrichment_upsert\<close>, models \<open>_enrichment_upsert\<close> for all four entity tables, as in the source.
\<close>

section \<open>The database\<close>

record CrawlTask =
  ct_id :: uuid
  ct_kind :: string
  ct_params :: json
  ct_dedupe_key :: "string option"
  ct_priority :: int
  ct_not_before :: "seconds option"
  ct_attempts :: int
  ct_max_attempts :: int
  ct_last_error :: "string option"
  ct_locked_by :: "string option"
  ct_locked_until :: "seconds option"
  ct_created_at :: seconds
  ct_updated_at :: seconds

record RawCapture =
  rc_id :: int
  rc_fetched_at :: seconds
  rc_method :: string
  rc_url :: string
  rc_status_code :: int
  rc_response_ms :: int
  rc_request_json :: json
  rc_response_json :: json
  rc_headers_json :: "(string \<times> json) list"

text \<open>A row of one of the append-only statistics tables; the key is the time and the entity.\<close>

record stats_row =
  sr_ts :: seconds
  sr_id :: string
  sr_values :: colvals

record crawl_db =
  entity_rows :: "entity \<Rightarrow> row list"
  stats_rows :: "entity \<Rightarrow> stats_row list"
  crawl_tasks :: "CrawlTask list"
  raw_captures :: "RawCapture list"

section \<open>Constraints\<close>

definition row_of :: "seconds \<Rightarrow> entity \<Rightarrow> colvals \<Rightarrow> row" where
  "row_of now e vals c =
     (case map_of vals c of
        Some v \<Rightarrow> v
      | None \<Rightarrow>
          (case map_of (columns_of e) c of
             None \<Rightarrow> VNull
           | Some co \<Rightarrow>
               (case co_default co of
                  NoDefault \<Rightarrow> VNull | DefaultNow \<Rightarrow> VTime now | DefaultConst v \<Rightarrow> VJson v)))"

definition row_violation :: "entity \<Rightarrow> row \<Rightarrow> py_exn option" where
  "row_violation e r =
     (if \<not> list_all (\<lambda>(c, co). fits (co_type co) (r c)) (columns_of e)
      then Some (DataError ''invalid input'')
      else if \<not> list_all (\<lambda>(c, co). co_null co \<or> r c \<noteq> VNull) (columns_of e)
      then Some (IntegrityError ''not null'')
      else None)"

text \<open>Another row (by primary key) with the same value in a unique column.\<close>

definition unique_violation :: "entity \<Rightarrow> row \<Rightarrow> row list \<Rightarrow> bool" where
  "unique_violation e r rows \<longleftrightarrow>
     list_ex (\<lambda>r'. r' ''id'' \<noteq> r ''id'' \<and>
       list_ex (\<lambda>(c, co). co_unique co \<and> same_value (co_type co) (r c) (r' c)) (columns_of e)) rows"

definition row_exists :: "entity \<Rightarrow> dbval \<Rightarrow> crawl_db \<Rightarrow> bool" where
  "row_exists e v db \<longleftrightarrow> list_ex (\<lambda>r. r ''id'' = v) (entity_rows db e)"

definition fk_violation :: "entity \<Rightarrow> row \<Rightarrow> crawl_db \<Rightarrow> bool" where
  "fk_violation e r db \<longleftrightarrow>
     list_ex (\<lambda>(c, co). case co_fk co of
        None \<Rightarrow> False | Some e' \<Rightarrow> r c \<noteq> VNull \<and> \<not> row_exists e' (r c) db) (columns_of e)"

definition set_rows :: "entity \<Rightarrow> row list \<Rightarrow> crawl_db \<Rightarrow> crawl_db" where
  "set_rows e rows db = db\<lparr>entity_rows := (entity_rows db)(e := rows)\<rparr>"

definition get_row :: "entity \<Rightarrow> dbval \<Rightarrow> crawl_db \<Rightarrow> row option" where
  "get_row e i db = tbl_get (\<lambda>r. r ''id'') i (entity_rows db e)"

section \<open>The upsert\<close>

definition coalesce :: "dbval \<Rightarrow> dbval \<Rightarrow> dbval" where
  "coalesce a b = (if a = VNull then b else a)"

text \<open>The \<open>SET\<close> clause: \<open>set_map\<close> applied to the existing row.\<close>

definition enrich :: "entity \<Rightarrow> string list \<Rightarrow> bool \<Rightarrow> seconds \<Rightarrow> row \<Rightarrow> row \<Rightarrow> row" where
  "enrich e enrichment_columns is_authoritative now excluded old c =
     (if map_of (columns_of e) c = None then old c
      else if c = ''last_seen_at'' then VTime now
      else if c = ''first_seen_at'' then coalesce (old c) (VTime now)
      else if c = ''raw_json'' then
        (if is_authoritative then excluded c else if old c = VNull then excluded c else old c)
      else if c \<in> set enrichment_columns then coalesce (excluded c) (old c)
      else old c)"

definition enrichment_upsert ::
  "entity \<Rightarrow> string list \<Rightarrow> bool \<Rightarrow> seconds \<Rightarrow> colvals \<Rightarrow> (crawl_db, unit) action" where
  "enrichment_upsert e enrichment_columns is_authoritative now vals db =
     (let excluded = row_of now e vals
      in case row_violation e excluded of
           Some err \<Rightarrow> (Inl err, db)
         | None \<Rightarrow>
             (let rows = entity_rows db e;
                  (new, rows') =
                    (case get_row e (excluded ''id'') db of
                       None \<Rightarrow> (excluded, tbl_insert excluded rows)
                     | Some old \<Rightarrow>
                         let r = enrich e enrichment_columns is_authoritative now excluded old
                         in (r, tbl_update (\<lambda>r. r ''id'') (excluded ''id'') (\<lambda>_. r) rows))
              in if unique_violation e new rows then (Inl (IntegrityError ''unique''), db)
                 else if fk_violation e new (set_rows e rows' db)
                 then (Inl (IntegrityError ''foreign key''), db)
                 else (Inr (), set_rows e rows' db)))"

definition MB_AGENT_ENRICHMENT :: "string list" where
  "MB_AGENT_ENRICHMENT =
     [''name'', ''description'', ''created_at_src'', ''karma'', ''is_claimed'', ''is_human'',
      ''raw_json'', ''first_seen_at'', ''last_seen_at'']"

definition MB_SUBMOLT_ENRICHMENT :: "string list" where
  "MB_SUBMOLT_ENRICHMENT =
     [''name'', ''display_name'', ''description'', ''created_at_src'', ''raw_json'',
      ''first_seen_at'', ''last_seen_at'']"

definition MB_POST_ENRICHMENT :: "string list" where
  "MB_POST_ENRICHMENT =
     [''submolt_name'', ''submolt_id'', ''author_name'', ''author_id'', ''title'', ''content'',
      ''url'', ''created_at_src'', ''updated_at_src'', ''upvotes'', ''downvotes'', ''comment_count'',
      ''raw_json'', ''first_seen_at'', ''last_seen_at'']"

definition MB_COMMENT_ENRICHMENT :: "string list" where
  "MB_COMMENT_ENRICHMENT =
     [''post_id'', ''parent_id'', ''author_name'', ''author_id'', ''content'', ''created_at_src'',
      ''upvotes'', ''downvotes'', ''raw_json'', ''first_seen_at'', ''last_seen_at'']"

definition upsert_agent :: "seconds \<Rightarrow> bool \<Rightarrow> colvals \<Rightarrow> (crawl_db, unit) action" where
  "upsert_agent now is_authoritative vals =
     enrichment_upsert Agent MB_AGENT_ENRICHMENT is_authoritative now vals"

definition upsert_submolt :: "seconds \<Rightarrow> bool \<Rightarrow> colvals \<Rightarrow> (crawl_db, unit) action" where
  "upsert_submolt now is_authoritative vals =
     enrichment_upsert Submolt MB_SUBMOLT_ENRICHMENT is_authoritative now vals"

definition upsert_post :: "seconds \<Rightarrow> bool \<Rightarrow> colvals \<Rightarrow> (crawl_db, unit) action" where
  "upsert_post now is_authoritative vals =
     enrichment_upsert Post MB_POST_ENRICHMENT is_authoritative now vals"

definition upsert_comment :: "seconds \<Rightarrow> bool \<Rightarrow> colvals \<Rightarrow> (crawl_db, unit) action" where
  "upsert_comment now is_authoritative vals =
     enrichment_upsert Comment MB_COMMENT_ENRICHMENT is_authoritative now vals"

section \<open>What an upsert does to a row\<close>

lemma get_row_set_rows:
  "get_row e' i (set_rows e rows db) = (if e' = e then tbl_get (\<lambda>r. r ''id'') i rows else get_row e' i db)"
  by (simp add: get_row_def set_rows_def)

lemma upsert_Inr:
  assumes "enrichment_upsert e cols auth now vals db = (Inr (), db')"
  obtains (inserted) "get_row e (row_of now e vals ''id'') db = None"
      "db' = set_rows e (tbl_insert (row_of now e vals) (entity_rows db e)) db"
      "row_violation e (row_of now e vals) = None"
      "\<not> unique_violation e (row_of now e vals) (entity_rows db e)"
      "\<not> fk_violation e (row_of now e vals) db'"
  | (updated) old where "get_row e (row_of now e vals ''id'') db = Some old"
      "db' = set_rows e (tbl_update (\<lambda>r. r ''id'') (row_of now e vals ''id'')
               (\<lambda>_. enrich e cols auth now (row_of now e vals) old) (entity_rows db e)) db"
      "row_violation e (row_of now e vals) = None"
      "\<not> unique_violation e (enrich e cols auth now (row_of now e vals) old) (entity_rows db e)"
      "\<not> fk_violation e (enrich e cols auth now (row_of now e vals) old) db'"
  using assms
  by (auto simp: enrichment_upsert_def Let_def split: option.splits if_splits)

lemma upsert_Inl: "enrichment_upsert e cols auth now vals db = (Inl err, db') \<Longrightarrow> db' = db"
  by (auto simp: enrichment_upsert_def Let_def split: option.splits if_splits)

lemma columns_facts:
  "map_of (columns_of e) ''id'' = Some pk_col"
  "map_of (columns_of e) ''raw_json'' = Some (col CJsonb False)"
  "map_of (columns_of e) ''first_seen_at'' = Some now_col"
  "map_of (columns_of e) ''last_seen_at'' = Some now_col"
  "distinct (map fst (columns_of e))"
  by (cases e; simp add: MbAgent_def MbSubmolt_def MbPost_def MbComment_def)+

lemma row_violation_None:
  "row_violation e r = None \<longleftrightarrow>
     (\<forall>(c, co)\<in>set (columns_of e). fits (co_type co) (r c) \<and> (co_null co \<or> r c \<noteq> VNull))"
  by (auto simp: row_violation_def list_all_iff)

lemma not_null_column:
  assumes "row_violation e r = None" and "map_of (columns_of e) c = Some co" and "\<not> co_null co"
  shows "r c \<noteq> VNull"
  using assms map_of_SomeD [OF assms(2)] by (auto simp: row_violation_None)

lemma excluded_not_null:
  assumes "row_violation e r = None"
  shows "r ''id'' \<noteq> VNull" "r ''raw_json'' \<noteq> VNull"
  using not_null_column [OF assms columns_facts(1)] not_null_column [OF assms columns_facts(2)]
  by (simp_all add: pk_col_def col_def)

lemma enrich_id:
  "old ''id'' = excluded ''id'' \<Longrightarrow> enrich e cols auth now excluded old ''id'' = excluded ''id''"
  by (simp add: enrich_def coalesce_def)

lemma enrich_keeps:
  assumes "row_violation e excluded = None" and "old c \<noteq> VNull"
  shows "enrich e cols auth now excluded old c \<noteq> VNull"
  using assms(2) excluded_not_null [OF assms(1)] by (simp add: enrich_def coalesce_def)

lemma enrich_first_seen:
  "old ''first_seen_at'' \<noteq> VNull \<Longrightarrow>
   enrich e cols auth now excluded old ''first_seen_at'' = old ''first_seen_at''"
  by (simp add: enrich_def coalesce_def)

text \<open>C16: an upsert never erases. An existing row keeps its identifier, its first-seen time and every
  value it has (a column may get another value, never \<open>NULL\<close>), and rows other than the upserted
  one do not change at all.\<close>

theorem upsert_never_erases:
  assumes "enrichment_upsert e cols auth now vals db = (Inr (), db')"
    and "get_row e' i db = Some old"
  shows "\<exists>new. get_row e' i db' = Some new \<and> new ''id'' = old ''id''
    \<and> (\<forall>c. old c \<noteq> VNull \<longrightarrow> new c \<noteq> VNull)
    \<and> (old ''first_seen_at'' \<noteq> VNull \<longrightarrow> new ''first_seen_at'' = old ''first_seen_at'')
    \<and> (e' \<noteq> e \<or> i \<noteq> row_of now e vals ''id'' \<longrightarrow> new = old)"
proof (rule upsert_Inr [OF assms(1)])
  assume db': "db' = set_rows e (tbl_insert (row_of now e vals) (entity_rows db e)) db"
  have "get_row e' i db' = Some old"
    using assms(2) by (cases "e' = e") (simp_all add: db' get_row_def set_rows_def table_simps)
  then show ?thesis by blast
next
  fix q
  let ?x = "row_of now e vals"
  let ?new = "enrich e cols auth now ?x q"
  assume q: "get_row e (?x ''id'') db = Some q" and v: "row_violation e ?x = None"
    and db': "db' = set_rows e (tbl_update (\<lambda>r. r ''id'') (?x ''id'') (\<lambda>_. ?new) (entity_rows db e)) db"
  have qid: "q ''id'' = ?x ''id''" using q tbl_get_SomeD by (fastforce simp: get_row_def)
  show ?thesis
  proof (cases "e' = e \<and> i = ?x ''id''")
    case True
    then have old: "old = q" using q assms(2) by simp
    have "get_row e' i db' = Some ?new"
      using True q tbl_get_replace [of "\<lambda>r. r ''id''" "?x ''id''" "entity_rows db e" q ?new]
        enrich_id [where old = q and excluded = ?x, OF qid]
      by (simp add: db' get_row_set_rows) (simp add: get_row_def)
    then show ?thesis
      using enrich_id [where old = q and excluded = ?x, OF qid] enrich_keeps [OF v] enrich_first_seen True qid by (auto simp: old)
  next
    case False
    have "get_row e' i db' = Some old"
      using False assms(2) tbl_get_replace_other [of "\<lambda>r. r ''id''" ?new "?x ''id''" i "entity_rows db e"]
        enrich_id [where old = q and excluded = ?x, OF qid]
      by (cases "e' = e") (auto simp: db' set_rows_def get_row_def)
    then show ?thesis using False by blast
  qed
qed

section \<open>Integrity\<close>

definition db_ok :: "crawl_db \<Rightarrow> bool" where
  "db_ok db \<longleftrightarrow>
     (\<forall>e. distinct (map (\<lambda>r. r ''id'') (entity_rows db e)) \<and>
       (\<forall>r\<in>set (entity_rows db e). row_violation e r = None \<and> \<not> fk_violation e r db
          \<and> \<not> unique_violation e r (entity_rows db e)))"

lemma row_exists_iff: "row_exists e v db \<longleftrightarrow> v \<in> (\<lambda>r. r ''id'') ` set (entity_rows db e)"
  by (auto simp: row_exists_def list_ex_iff)

lemma fk_violation_mono:
  assumes "\<And>e' v. row_exists e' v db \<Longrightarrow> row_exists e' v db'"
  shows "fk_violation e r db' \<Longrightarrow> fk_violation e r db"
  using assms unfolding fk_violation_def list_ex_iff by (fastforce split: option.splits)

lemma same_value_sym: "same_value t a b \<longleftrightarrow> same_value t b a"
  by (auto simp: same_value_def split: dbval.splits json.splits)

lemma unique_violation_iff:
  "unique_violation e r rows \<longleftrightarrow>
     (\<exists>r'\<in>set rows. r' ''id'' \<noteq> r ''id'' \<and>
       (\<exists>(c, co)\<in>set (columns_of e). co_unique co \<and> same_value (co_type co) (r c) (r' c)))"
  by (auto simp: unique_violation_def list_ex_iff)

text \<open>Replacing or adding one row that violates nothing leaves no other row in violation.\<close>

lemma unique_violation_new_row:
  assumes "\<not> unique_violation e new rows" and "r \<in> set rows" and "r ''id'' \<noteq> new ''id''"
    and "\<not> unique_violation e r rows" and "set rows' \<subseteq> insert new (set rows)"
  shows "\<not> unique_violation e r rows'"
proof
  assume "unique_violation e r rows'"
  then obtain r' c co where r': "r' \<in> set rows'" "r' ''id'' \<noteq> r ''id''" "(c, co) \<in> set (columns_of e)"
    "co_unique co" "same_value (co_type co) (r c) (r' c)"
    unfolding unique_violation_iff by blast
  then consider "r' = new" | "r' \<in> set rows" using assms(5) by blast
  then show False
  proof cases
    case 1
    then have "unique_violation e new rows"
      unfolding unique_violation_iff using r' assms(2,3) same_value_sym by blast
    with assms(1) show False by contradiction
  next
    case 2
    then have "unique_violation e r rows" unfolding unique_violation_iff using r' by blast
    with assms(4) show False by contradiction
  qed
qed

lemma unique_violation_self:
  assumes "\<not> unique_violation e new rows" and "set rows' \<subseteq> insert new (set rows)"
  shows "\<not> unique_violation e new rows'"
  using assms unfolding unique_violation_iff by blast

lemma enrich_fits:
  assumes "row_violation e excluded = None" and "row_violation e old = None"
    and "old ''id'' = excluded ''id''"
  shows "row_violation e (enrich e cols auth now excluded old) = None"
proof -
  let ?new = "enrich e cols auth now excluded old"
  have "fits (co_type co) (?new c) \<and> (co_null co \<or> ?new c \<noteq> VNull)" if "(c, co) \<in> set (columns_of e)" for c co
  proof -
    have m: "map_of (columns_of e) c = Some co" using that columns_facts(5) by (simp add: map_of_eq_Some_iff)
    have x: "fits (co_type co) (excluded c)" "co_null co \<or> excluded c \<noteq> VNull"
      and o: "fits (co_type co) (old c)" "co_null co \<or> old c \<noteq> VNull"
      using assms(1,2) that by (auto simp: row_violation_None)
    have t: "co_type co = CTime" if "c = ''last_seen_at'' \<or> c = ''first_seen_at''"
      using that m columns_facts(3,4) by (auto simp: now_col_def col_def)
    have "fits CTime (VTime now)" by (simp add: fits_def)
    with x o t m show ?thesis by (auto simp: enrich_def coalesce_def)
  qed
  then show ?thesis by (auto simp: row_violation_None)
qed

lemma rows_replaced:
  "r \<in> set (tbl_update key k (\<lambda>_. new) rows) \<Longrightarrow> r = new \<or> r \<in> set rows \<and> key r \<noteq> k"
  by (auto simp: tbl_update_def)

lemma set_rows_exists:
  assumes "(\<lambda>r. r ''id'') ` set (entity_rows db e) \<subseteq> (\<lambda>r. r ''id'') ` set rows"
    and "row_exists e' v db"
  shows "row_exists e' v (set_rows e rows db)"
  using assms by (auto simp: row_exists_iff set_rows_def)

lemma new_row_db_ok:
  assumes ok: "db_ok db" and db': "db' = set_rows e rows' db"
    and d: "distinct (map (\<lambda>r. r ''id'') rows')"
    and ids: "(\<lambda>r. r ''id'') ` set (entity_rows db e) \<subseteq> (\<lambda>r. r ''id'') ` set rows'"
    and sub: "\<And>r. r \<in> set rows' \<Longrightarrow> r = new \<or> r \<in> set (entity_rows db e) \<and> r ''id'' \<noteq> new ''id''"
    and v: "row_violation e new = None" and f: "\<not> fk_violation e new db'"
    and u: "\<not> unique_violation e new (entity_rows db e)"
  shows "db_ok db'"
  unfolding db_ok_def
proof (intro allI conjI ballI)
  fix e'
  show "distinct (map (\<lambda>r. r ''id'') (entity_rows db' e'))"
    using d ok by (simp add: db' set_rows_def db_ok_def)
  fix r
  assume r: "r \<in> set (entity_rows db' e')"
  have mono: "fk_violation q x db' \<Longrightarrow> fk_violation q x db" for q x
    using fk_violation_mono set_rows_exists [OF ids] unfolding db' by blast
  have sub': "set rows' \<subseteq> insert new (set (entity_rows db e))" using sub by blast
  consider (new) "e' = e" "r = new" | (same) "e' = e" "r \<in> set (entity_rows db e)" "r ''id'' \<noteq> new ''id''"
    | (other) "e' \<noteq> e" "r \<in> set (entity_rows db e')"
    using r sub [of r] by (auto simp: db' set_rows_def split: if_splits)
  then have "row_violation e' r = None \<and> \<not> fk_violation e' r db' \<and> \<not> unique_violation e' r (entity_rows db' e')"
  proof cases
    case new
    then show ?thesis using v f unique_violation_self [OF u sub'] by (simp add: db' set_rows_def)
  next
    case same
    then show ?thesis
      using ok mono unique_violation_new_row [OF u same(2,3) _ sub'] by (auto simp: db' set_rows_def db_ok_def)
  next
    case other
    then show ?thesis using ok mono by (auto simp: db' set_rows_def db_ok_def)
  qed
  then show "row_violation e' r = None" "\<not> fk_violation e' r db'"
    "\<not> unique_violation e' r (entity_rows db' e')" by blast+
qed

lemma upsert_db_ok:
  assumes "db_ok db"
  shows "db_ok (snd (enrichment_upsert e cols auth now vals db))"
proof (cases "enrichment_upsert e cols auth now vals db")
  case (Pair res db')
  show ?thesis
  proof (cases res)
    case (Inl err)
    with Pair assms show ?thesis using upsert_Inl by (metis snd_conv)
  next
    case (Inr x)
    then have run: "enrichment_upsert e cols auth now vals db = (Inr (), db')" using Pair by simp
    have "db_ok db'"
    proof (rule upsert_Inr [OF run])
      let ?x = "row_of now e vals"
      assume g: "get_row e (?x ''id'') db = None" and db': "db' = set_rows e (tbl_insert ?x (entity_rows db e)) db"
        and v: "row_violation e ?x = None" "\<not> unique_violation e ?x (entity_rows db e)" "\<not> fk_violation e ?x db'"
      have fresh: "?x ''id'' \<notin> (\<lambda>r. r ''id'') ` set (entity_rows db e)"
        using g by (simp add: get_row_def tbl_get_None_iff)
      have ne: "r ''id'' \<noteq> ?x ''id''" if "r \<in> set (entity_rows db e)" for r
        using fresh that by (metis imageI)
      have d: "distinct (map (\<lambda>r. r ''id'') (tbl_insert ?x (entity_rows db e)))"
        using fresh assms by (simp add: tbl_insert_def db_ok_def)
      show ?thesis
        by (rule new_row_db_ok [OF assms db' d _ _ v(1,3,2)])
          (use fresh ne in \<open>auto simp: tbl_insert_def\<close>)
    next
      fix old
      let ?x = "row_of now e vals"
      let ?new = "enrich e cols auth now ?x old"
      assume g: "get_row e (?x ''id'') db = Some old"
        and db': "db' = set_rows e (tbl_update (\<lambda>r. r ''id'') (?x ''id'') (\<lambda>_. ?new) (entity_rows db e)) db"
        and v: "row_violation e ?x = None" "\<not> unique_violation e ?new (entity_rows db e)" "\<not> fk_violation e ?new db'"
      have old: "old \<in> set (entity_rows db e)" "old ''id'' = ?x ''id''"
        using tbl_get_SomeD [OF g [unfolded get_row_def]] by auto
      have nid: "?new ''id'' = ?x ''id''" by (rule enrich_id [where old = old and excluded = ?x, OF old(2)])
      note keys = keys_replace [where key = "\<lambda>r. r ''id''" and r' = ?new, OF nid]
      have fit: "row_violation e ?new = None"
        using enrich_fits [where excluded = ?x and old = old, OF v(1) _ old(2)] assms old(1) by (simp add: db_ok_def)
      have d: "distinct (map (\<lambda>r. r ''id'') (tbl_update (\<lambda>r. r ''id'') (?x ''id'') (\<lambda>_. ?new) (entity_rows db e)))"
        unfolding keys using assms by (simp add: db_ok_def)
      have ids: "(\<lambda>r. r ''id'') ` set (entity_rows db e)
          \<subseteq> (\<lambda>r. r ''id'') ` set (tbl_update (\<lambda>r. r ''id'') (?x ''id'') (\<lambda>_. ?new) (entity_rows db e))"
        using keys by (metis order_refl set_map)
      show ?thesis
        by (rule new_row_db_ok [OF assms db' d ids _ fit v(3,2)]) (metis nid rows_replaced)
    qed
    with Pair show ?thesis by simp
  qed
qed

section \<open>A concrete agent\<close>

definition empty_db :: crawl_db where
  "empty_db = \<lparr>entity_rows = (\<lambda>_. []), stats_rows = (\<lambda>_. []), crawl_tasks = [], raw_captures = []\<rparr>"

definition ex_agent_vals :: "json \<Rightarrow> colvals" where
  "ex_agent_vals descr =
     [(''id'', VJson (JStr ''a1'')), (''name'', VJson (JStr ''Alice'')), (''description'', to_val descr),
      (''karma'', VJson (JInt 7)), (''raw_json'', VJson (JObj []))]"

definition ex_agent_db :: crawl_db where
  "ex_agent_db = set_rows Agent [row_of 1 Agent (ex_agent_vals (JStr ''first''))] empty_db"

lemma ex_upsert_runs:
  "fst (enrichment_upsert Agent MB_AGENT_ENRICHMENT False 5 (ex_agent_vals JNull) ex_agent_db) = Inr ()"
  by code_simp

lemma ex_agent_row:
  "get_row Agent (VJson (JStr ''a1'')) ex_agent_db = Some (row_of 1 Agent (ex_agent_vals (JStr ''first'')))"
  by (simp add: get_row_def ex_agent_db_def set_rows_def row_of_def ex_agent_vals_def)

theorem upsert_never_erases_witness:
  "\<exists>new. get_row Agent (VJson (JStr ''a1''))
      (snd (enrichment_upsert Agent MB_AGENT_ENRICHMENT False 5 (ex_agent_vals JNull) ex_agent_db)) = Some new
    \<and> new ''description'' \<noteq> VNull"
proof -
  let ?run = "enrichment_upsert Agent MB_AGENT_ENRICHMENT False 5 (ex_agent_vals JNull) ex_agent_db"
  have "?run = (Inr (), snd ?run)" using ex_upsert_runs by (metis prod.collapse)
  from upsert_never_erases [OF this ex_agent_row]
  show ?thesis by (auto simp: row_of_def ex_agent_vals_def to_val_def)
qed

lemma ex_agent_db_ok: "db_ok ex_agent_db"
proof -
  have "row_violation Agent (row_of 1 Agent (ex_agent_vals (JStr ''first''))) = None" by code_simp
  moreover have "\<not> fk_violation Agent (row_of 1 Agent (ex_agent_vals (JStr ''first''))) ex_agent_db" by code_simp
  moreover have "\<not> unique_violation Agent (row_of 1 Agent (ex_agent_vals (JStr ''first'')))
      [row_of 1 Agent (ex_agent_vals (JStr ''first''))]" by code_simp
  ultimately show ?thesis
    by (simp add: db_ok_def ex_agent_db_def set_rows_def empty_db_def)
qed

text \<open>An agent with the name of the first in capitals is refused.\<close>

lemma ex_name_taken:
  "fst (enrichment_upsert Agent MB_AGENT_ENRICHMENT True 5
      [(''id'', VJson (JStr ''a2'')), (''name'', VJson (JStr ''ALICE'')), (''raw_json'', VJson (JObj []))] ex_agent_db)
   = Inl (IntegrityError ''unique'')"
  by code_simp

end
