(* ===== verification/CrawlQueue.thy ===== *)
theory CrawlQueue
  imports Upsert
begin

text \<open>
  The crawl queue: \<open>textlake/handlers/enqueue.py\<close>, \<open>textlake/queue/worker.py\<close> and
  \<open>textlake/queue/scheduler.py\<close> on the table \<open>crawl_task\<close>. Every statement runs in a committed
  transaction of its own, so a worker is a claim, the handler, and a finalisation, with the steps of
  other workers in between.
\<close>

section \<open>Enqueue\<close>

definition dedupe_key :: "crawl_lib \<Rightarrow> string \<Rightarrow> json \<Rightarrow> string" where
  "dedupe_key lib kind params =
     cl_sha256 lib (kind @ '':'' @ cl_dumps lib (py_or params (JObj [])))"

text \<open>
  \<open>INSERT INTO crawl_task ... ON CONFLICT (dedupe_key) DO NOTHING\<close>, with the defaults of the model:
  a generated identifier, no attempts, at most five, and the current time.
\<close>

definition insert_task ::
  "seconds \<Rightarrow> uuid \<Rightarrow> string \<Rightarrow> json \<Rightarrow> string \<Rightarrow> int \<Rightarrow> (crawl_db, unit) action" where
  "insert_task now new_id kind params key priority db =
     (if 64 < length kind \<or> 64 < length key then (Inl (DataError ''value too long''), db)
      else if list_ex (\<lambda>t. ct_dedupe_key t = Some key) (crawl_tasks db) then (Inr (), db)
      else if list_ex (\<lambda>t. ct_id t = new_id) (crawl_tasks db)
      then (Inl (IntegrityError ''crawl_task_pkey''), db)
      else (Inr (), db\<lparr>crawl_tasks := tbl_insert
              \<lparr>ct_id = new_id, ct_kind = kind, ct_params = params, ct_dedupe_key = Some key,
               ct_priority = priority, ct_not_before = None, ct_attempts = 0, ct_max_attempts = 5,
               ct_last_error = None, ct_locked_by = None, ct_locked_until = None,
               ct_created_at = now, ct_updated_at = now\<rparr> (crawl_tasks db)\<rparr>))"

definition enqueue ::
  "crawl_lib \<Rightarrow> seconds \<Rightarrow> uuid \<Rightarrow> string \<Rightarrow> json \<Rightarrow> int \<Rightarrow> (crawl_db, unit) action" where
  "enqueue lib now new_id kind params priority =
     insert_task now new_id kind params (dedupe_key lib kind params) priority"

section \<open>The worker\<close>

definition LEASE_SECONDS :: seconds where "LEASE_SECONDS = 300"
definition PARK_DAYS :: seconds where "PARK_DAYS = 30"

definition backoff_seconds :: "int \<Rightarrow> seconds" where
  "backoff_seconds attempts = of_int (min (2 ^ nat attempts) 3600)"

definition claimable :: "seconds \<Rightarrow> CrawlTask \<Rightarrow> bool" where
  "claimable now t \<longleftrightarrow>
     ct_attempts t < ct_max_attempts t
     \<and> (case ct_not_before t of None \<Rightarrow> True | Some nb \<Rightarrow> nb \<le> now)
     \<and> (case ct_locked_until t of None \<Rightarrow> True | Some lu \<Rightarrow> lu < now)"

text \<open>
  \<open>ORDER BY priority DESC, created_at ASC LIMIT 1 FOR UPDATE SKIP LOCKED\<close>: rows another
  transaction holds are skipped.
\<close>

definition select_task :: "(uuid \<Rightarrow> bool) \<Rightarrow> seconds \<Rightarrow> CrawlTask list \<Rightarrow> CrawlTask option" where
  "select_task row_locked now tasks =
     (case sort_key (\<lambda>t. - ct_priority t) (sort_key ct_created_at
             (filter (\<lambda>t. claimable now t \<and> \<not> row_locked (ct_id t)) tasks)) of
        [] \<Rightarrow> None | t # _ \<Rightarrow> Some t)"

definition update_task :: "uuid \<Rightarrow> (CrawlTask \<Rightarrow> CrawlTask) \<Rightarrow> crawl_db \<Rightarrow> crawl_db" where
  "update_task i f db = db\<lparr>crawl_tasks := tbl_update ct_id i f (crawl_tasks db)\<rparr>"

definition get_task :: "uuid \<Rightarrow> crawl_db \<Rightarrow> CrawlTask option" where
  "get_task i db = tbl_get ct_id i (crawl_tasks db)"

definition delete_task :: "uuid \<Rightarrow> crawl_db \<Rightarrow> crawl_db" where
  "delete_task i db = db\<lparr>crawl_tasks := filter (\<lambda>t. ct_id t \<noteq> i) (crawl_tasks db)\<rparr>"

definition claim_task ::
  "(uuid \<Rightarrow> bool) \<Rightarrow> seconds \<Rightarrow> string \<Rightarrow> crawl_db \<Rightarrow> CrawlTask option \<times> crawl_db" where
  "claim_task row_locked now worker_id db =
     (case select_task row_locked now (crawl_tasks db) of
        None \<Rightarrow> (None, db)
      | Some t \<Rightarrow>
          (Some t, update_task (ct_id t)
             (\<lambda>r. r\<lparr>ct_locked_by := Some worker_id, ct_locked_until := Some (now + LEASE_SECONDS)\<rparr>) db))"

text \<open>
  What the worker does with the handler's outcome. \<open>now\<close> is the time of the claim, which the source
  keeps using; \<open>text\<close> is \<open>str(e)\<close>.
\<close>

definition finalize_transient :: "seconds \<Rightarrow> uuid \<Rightarrow> seconds option \<Rightarrow> string \<Rightarrow> crawl_db \<Rightarrow> crawl_db" where
  "finalize_transient now i reset_at etext =
     update_task i (\<lambda>r. r\<lparr>ct_attempts := ct_attempts r + 1,
        ct_not_before := Some (case reset_at of Some t \<Rightarrow> t | None \<Rightarrow> now + 300),
        ct_last_error := Some etext, ct_locked_by := None, ct_locked_until := None,
        ct_updated_at := now\<rparr>)"

definition finalize_failure :: "seconds \<Rightarrow> uuid \<Rightarrow> string \<Rightarrow> crawl_db \<Rightarrow> crawl_db" where
  "finalize_failure now i etext db =
     (case get_task i db of
        None \<Rightarrow> db
      | Some row \<Rightarrow>
          let new_attempts = ct_attempts row + 1;
              not_before = (if ct_max_attempts row \<le> new_attempts then now + PARK_DAYS * 86400
                            else now + backoff_seconds new_attempts)
          in update_task i (\<lambda>r. r\<lparr>ct_attempts := new_attempts, ct_not_before := Some not_before,
               ct_last_error := Some (take 4096 etext), ct_locked_by := None,
               ct_locked_until := None, ct_updated_at := now\<rparr>) db)"

type_synonym handler = "json \<Rightarrow> (crawl_db, unit) action"

definition run_handler :: "handler \<Rightarrow> json \<Rightarrow> (crawl_db, unit) action" where
  "run_handler h params db =
     (case h params db of (Inr x, db') \<Rightarrow> (Inr x, db') | (Inl e, _) \<Rightarrow> (Inl e, db))"

text \<open>A cancellation is not an \<open>Exception\<close>: the loop ends and the task keeps its lease.\<close>

definition finalize :: "(py_exn \<Rightarrow> string) \<Rightarrow> seconds \<Rightarrow> uuid \<Rightarrow> unit result \<Rightarrow> crawl_db \<Rightarrow> crawl_db" where
  "finalize exn_str now i outcome db =
     (case outcome of
        Inr _ \<Rightarrow> delete_task i db
      | Inl CancelledError \<Rightarrow> db
      | Inl TransientAuthError \<Rightarrow> finalize_transient now i None (exn_str TransientAuthError) db
      | Inl (RateLimitResetError t) \<Rightarrow> finalize_transient now i (Some t) (exn_str (RateLimitResetError t)) db
      | Inl e \<Rightarrow> finalize_failure now i (exn_str e) db)"

text \<open>One turn of the loop with nobody in between; the flag says whether a task was found.\<close>

definition worker_turn ::
  "(string \<Rightarrow> handler option) \<Rightarrow> (py_exn \<Rightarrow> string) \<Rightarrow> (uuid \<Rightarrow> bool) \<Rightarrow> seconds \<Rightarrow> string
   \<Rightarrow> crawl_db \<Rightarrow> bool \<times> crawl_db" where
  "worker_turn get_handler exn_str row_locked now worker_id db =
     (case claim_task row_locked now worker_id db of
        (None, db1) \<Rightarrow> (False, db1)
      | (Some t, db1) \<Rightarrow>
          (case get_handler (ct_kind t) of
             None \<Rightarrow> (True, delete_task (ct_id t) db1)
           | Some h \<Rightarrow>
               let (outcome, db2) = run_handler h (py_or (ct_params t) (JObj [])) db1
               in (True, finalize exn_str now (ct_id t) outcome db2)))"

section \<open>The scheduler\<close>

definition LIST_SUBMOLTS_INTERVAL :: seconds where "LIST_SUBMOLTS_INTERVAL = 900"
definition POLL_FEED_INTERVAL :: seconds where "POLL_FEED_INTERVAL = 60"
definition RAW_CAPTURE_PRUNE_INTERVAL :: seconds where "RAW_CAPTURE_PRUNE_INTERVAL = 3600"
definition PARKED_RECOVERY_AFTER_SECONDS :: seconds where "PARKED_RECOVERY_AFTER_SECONDS = 3600"
definition RAW_CAPTURE_TTL_HOURS :: seconds where "RAW_CAPTURE_TTL_HOURS = 24"

record sched =
  last_list_submolts :: "seconds option"
  last_poll_feed :: "string \<rightharpoonup> seconds"
  last_prune :: "seconds option"
  last_parked_recovery :: "seconds option"

definition due :: "seconds \<Rightarrow> seconds \<Rightarrow> seconds option \<Rightarrow> bool" where
  "due interval now prev = (case prev of None \<Rightarrow> True | Some l \<Rightarrow> interval \<le> now - l)"

definition schedule_feed ::
  "crawl_lib \<Rightarrow> seconds \<Rightarrow> (string \<Rightarrow> uuid) \<Rightarrow> string \<Rightarrow> sched \<times> crawl_db \<Rightarrow> unit result \<times> sched \<times> crawl_db" where
  "schedule_feed lib now ids feed = (\<lambda>(s, db).
     if due POLL_FEED_INTERVAL now (last_poll_feed s feed) then
       (case insert_task now (ids feed) ''poll_posts_feed''
               (JObj [(''sort'', JStr feed), (''limit'', JInt 25)])
               (dedupe_key lib ''poll_posts_feed'' (JObj [(''sort'', JStr feed)])) 8 db of
          (Inl e, db') \<Rightarrow> (Inl e, s, db')
        | (Inr _, db') \<Rightarrow> (Inr (), s\<lparr>last_poll_feed := (last_poll_feed s)(feed \<mapsto> now)\<rparr>, db'))
     else (Inr (), s, db))"

definition recover_parked :: "seconds \<Rightarrow> crawl_db \<Rightarrow> crawl_db" where
  "recover_parked now db =
     db\<lparr>crawl_tasks := map (\<lambda>t.
        if ct_max_attempts t \<le> ct_attempts t \<and> ct_updated_at t < now - PARKED_RECOVERY_AFTER_SECONDS
        then t\<lparr>ct_attempts := 0, ct_not_before := Some now, ct_updated_at := now\<rparr> else t) (crawl_tasks db)\<rparr>"

definition prune_captures :: "seconds \<Rightarrow> crawl_db \<Rightarrow> crawl_db" where
  "prune_captures now db =
     db\<lparr>raw_captures := filter (\<lambda>c. \<not> rc_fetched_at c < now - RAW_CAPTURE_TTL_HOURS * 3600) (raw_captures db)\<rparr>"

definition schedule_list ::
  "crawl_lib \<Rightarrow> seconds \<Rightarrow> (string \<Rightarrow> uuid) \<Rightarrow> (sched \<times> crawl_db, unit) action" where
  "schedule_list lib now ids = (\<lambda>(s, db).
     if due LIST_SUBMOLTS_INTERVAL now (last_list_submolts s) then
       (case insert_task now (ids ''list_submolts'') ''list_submolts'' (JObj [])
               (dedupe_key lib ''list_submolts'' (JObj [])) 10 db of
          (Inl e, db') \<Rightarrow> (Inl e, s, db')
        | (Inr _, db') \<Rightarrow> (Inr (), s\<lparr>last_list_submolts := Some now\<rparr>, db'))
     else (Inr (), s, db))"

definition schedule_recovery :: "seconds \<Rightarrow> (sched \<times> crawl_db, unit) action" where
  "schedule_recovery now = (\<lambda>(s, db).
     if due 600 now (last_parked_recovery s)
     then (Inr (), s\<lparr>last_parked_recovery := Some now\<rparr>, recover_parked now db) else (Inr (), s, db))"

definition schedule_prune :: "seconds \<Rightarrow> (sched \<times> crawl_db, unit) action" where
  "schedule_prune now = (\<lambda>(s, db).
     if due RAW_CAPTURE_PRUNE_INTERVAL now (last_prune s)
     then (Inr (), s\<lparr>last_prune := Some now\<rparr>, prune_captures now db) else (Inr (), s, db))"

text \<open>
  The transaction of one turn: the state it has reached, in memory and in the session, when it
  returns or raises.
\<close>

definition scheduler_body ::
  "crawl_lib \<Rightarrow> seconds \<Rightarrow> (string \<Rightarrow> uuid) \<Rightarrow> (sched \<times> crawl_db, unit) action" where
  "scheduler_body lib now ids =
     bind_act (schedule_list lib now ids) (\<lambda>_.
     bind_act (for_each [''hot'', ''new'', ''rising'', ''top''] (schedule_feed lib now ids)) (\<lambda>_.
     bind_act (schedule_recovery now) (\<lambda>_. schedule_prune now)))"

text \<open>
  One turn: the tables change only if nothing raised and the commit succeeded; the variables of the
  loop keep what was assigned. An exception is logged.
\<close>

definition scheduler_turn ::
  "crawl_lib \<Rightarrow> seconds \<Rightarrow> (string \<Rightarrow> uuid) \<Rightarrow> bool \<Rightarrow> sched \<Rightarrow> crawl_db \<Rightarrow> sched \<times> crawl_db" where
  "scheduler_turn lib now ids commit_ok s db =
     (case scheduler_body lib now ids (s, db) of
        (Inr _, s', db') \<Rightarrow> (s', if commit_ok then db' else db)
      | (Inl _, s', _) \<Rightarrow> (s', db))"

section \<open>The task table\<close>

definition write_task :: "(uuid, CrawlTask) table_write \<Rightarrow> crawl_db \<Rightarrow> crawl_db" where
  "write_task w db = db\<lparr>crawl_tasks := tbl_write ct_id w (crawl_tasks db)\<rparr>"

interpretation tasks_tbl: keyed_table get_task write_task ct_id
  by unfold_locales (simp_all add: get_task_def write_task_def table_simps tbl_get_map tbl_get_filter)

lemma task_writes:
  "update_task i f db = write_task (Upd i f) db"
  "delete_task i db = write_task (Del i) db"
  by (simp_all add: update_task_def delete_task_def write_task_def)

lemma insert_task_writes:
  "snd (insert_task now i kind params key priority db) = db \<or>
   (\<exists>r. snd (insert_task now i kind params key priority db) = write_task (Ins r) db)"
  by (auto simp: insert_task_def write_task_def)

section \<open>Choosing a task\<close>

lemma select_task_None:
  "select_task row_locked now tasks = None \<longleftrightarrow> (\<forall>t\<in>set tasks. claimable now t \<longrightarrow> row_locked (ct_id t))"
proof -
  let ?c = "filter (\<lambda>t. claimable now t \<and> \<not> row_locked (ct_id t)) tasks"
  have "select_task row_locked now tasks = None \<longleftrightarrow>
      sort_key (\<lambda>t. - ct_priority t) (sort_key ct_created_at ?c) = []"
    by (simp add: select_task_def split: list.split)
  also have "\<dots> \<longleftrightarrow> set (sort_key (\<lambda>t. - ct_priority t) (sort_key ct_created_at ?c)) = {}"
    by (simp only: set_empty)
  also have "\<dots> \<longleftrightarrow> set ?c = {}" by simp
  finally show ?thesis by (auto simp: filter_empty_conv)
qed

lemma sorted_head_least: "sorted (map f (x # xs)) \<Longrightarrow> y \<in> set (x # xs) \<Longrightarrow> f x \<le> f y"
  by auto

lemma stable_head_least:
  assumes "sort_key f (sort_key g xs) = x # rest" and "y \<in> set xs" and "f y = f x"
  shows "g x \<le> g y"
proof -
  let ?P = "\<lambda>z. f z = f x"
  have "filter ?P (sort_key f (sort_key g xs)) = filter ?P (sort_key g xs)"
    by (rule sort_key_stable)
  then have "filter ?P (sort_key g xs) = x # filter ?P rest" using assms(1) by simp
  moreover have "sorted (map g (filter ?P (sort_key g xs)))"
    by (simp add: sorted_filter)
  moreover have "y \<in> set (filter ?P (sort_key g xs))" using assms(2,3) by simp
  ultimately show ?thesis using sorted_head_least [of g x "filter ?P rest" y] by simp
qed

lemma select_task_Some:
  assumes "select_task row_locked now tasks = Some t"
  shows "t \<in> set tasks \<and> claimable now t \<and> \<not> row_locked (ct_id t)"
    and "\<And>t'. t' \<in> set tasks \<Longrightarrow> claimable now t' \<Longrightarrow> \<not> row_locked (ct_id t') \<Longrightarrow>
      ct_priority t' \<le> ct_priority t \<and>
      (ct_priority t' = ct_priority t \<longrightarrow> ct_created_at t \<le> ct_created_at t')"
proof -
  let ?c = "filter (\<lambda>t. claimable now t \<and> \<not> row_locked (ct_id t)) tasks"
  let ?s = "sort_key (\<lambda>t. - ct_priority t) (sort_key ct_created_at ?c)"
  obtain rest where s: "?s = t # rest"
    using assms by (auto simp: select_task_def split: list.splits)
  have set: "set ?s = set ?c" by simp
  then have "t \<in> set ?c" using s by (metis list.set_intros(1))
  then show "t \<in> set tasks \<and> claimable now t \<and> \<not> row_locked (ct_id t)" by simp
  fix t'
  assume "t' \<in> set tasks" "claimable now t'" "\<not> row_locked (ct_id t')"
  then have t': "t' \<in> set ?c" by simp
  have "sorted (map (\<lambda>t. - ct_priority t) ?s)" by (rule sorted_sort_key)
  then have "- ct_priority t \<le> - ct_priority t'"
    using sorted_head_least [of "\<lambda>t. - ct_priority t" t rest t'] s set t' by metis
  moreover have "ct_created_at t \<le> ct_created_at t'" if "ct_priority t' = ct_priority t"
    using stable_head_least [OF s t'] that by simp
  ultimately show "ct_priority t' \<le> ct_priority t \<and>
      (ct_priority t' = ct_priority t \<longrightarrow> ct_created_at t \<le> ct_created_at t')" by simp
qed

text \<open>C17: which task a worker takes. It takes one that is claimable and that no other transaction
  holds; no such task has a higher priority, and none of the same priority is older. It takes none
  only when there is none.\<close>

theorem select_task_best:
  "case select_task row_locked now tasks of
     None \<Rightarrow> filter (\<lambda>t. claimable now t \<and> \<not> row_locked (ct_id t)) tasks = []
   | Some t \<Rightarrow> t \<in> set tasks \<and> claimable now t \<and> \<not> row_locked (ct_id t) \<and>
       filter (\<lambda>t'. claimable now t' \<and> \<not> row_locked (ct_id t') \<and>
          (ct_priority t < ct_priority t' \<or>
           ct_priority t' = ct_priority t \<and> ct_created_at t' < ct_created_at t)) tasks = []"
proof (cases "select_task row_locked now tasks")
  case None
  then show ?thesis using select_task_None [of row_locked now tasks] by (auto simp: filter_empty_conv)
next
  case (Some t)
  have "\<not> (ct_priority t < ct_priority t' \<or> ct_priority t' = ct_priority t \<and> ct_created_at t' < ct_created_at t)"
    if "t' \<in> set tasks" "claimable now t'" "\<not> row_locked (ct_id t')" for t'
    using select_task_Some(2) [OF Some that] by linarith
  then show ?thesis using select_task_Some(1) [OF Some] Some by (auto simp: filter_empty_conv)
qed

section \<open>The lease\<close>

definition leased :: "seconds \<Rightarrow> CrawlTask \<Rightarrow> bool" where
  "leased lu t \<longleftrightarrow> ct_locked_until t = Some lu"

lemma leased_not_claimable: "leased lu t \<Longrightarrow> now \<le> lu \<Longrightarrow> \<not> claimable now t"
  by (auto simp: leased_def claimable_def)

lemma claim_other:
  assumes "distinct (map ct_id (crawl_tasks db))" and "get_task i db = Some r" and "leased lu r" and "now \<le> lu"
  shows "fst (claim_task row_locked now w db) \<noteq> Some t \<or> ct_id t \<noteq> i"
    and "get_task i (snd (claim_task row_locked now w db)) = Some r"
proof -
  have ne: "ct_id t \<noteq> i" if "select_task row_locked now (crawl_tasks db) = Some t" for t
  proof
    assume "ct_id t = i"
    then have "t = r"
      using select_task_Some(1) [OF that] assms(1,2) by (simp add: get_task_def tbl_get_Some_iff) (metis distinct_map inj_on_def)
    then show False using select_task_Some(1) [OF that] leased_not_claimable [OF assms(3,4)] by simp
  qed
  show "fst (claim_task row_locked now w db) \<noteq> Some t \<or> ct_id t \<noteq> i"
    using ne by (auto simp: claim_task_def split: option.splits)
  show "get_task i (snd (claim_task row_locked now w db)) = Some r"
    using ne assms(2) by (auto simp: claim_task_def task_writes tasks_tbl.get_upd split: option.split)
qed

definition distinct_tasks :: "crawl_db \<Rightarrow> bool" where
  "distinct_tasks db \<longleftrightarrow> distinct (map ct_id (crawl_tasks db))"

lemma distinct_tasks_write:
  assumes "distinct_tasks db" and "\<And>r. ct_id (f r) = ct_id r"
  shows "distinct_tasks (write_task (Upd i f) db)" "distinct_tasks (write_task (UpdAll f) db)"
    "distinct_tasks (write_task (Del i) db)"
  using assms by (simp_all add: distinct_tasks_def write_task_def table_simps distinct_map_filter comp_def)

lemma insert_task_distinct:
  "distinct_tasks db \<Longrightarrow> distinct_tasks (snd (insert_task now i kind params key priority db))"
  by (auto simp: insert_task_def distinct_tasks_def tbl_insert_def list_ex_iff)

lemma recover_parked_write:
  "recover_parked now db = write_task (UpdAll (\<lambda>t.
     if ct_max_attempts t \<le> ct_attempts t \<and> ct_updated_at t < now - PARKED_RECOVERY_AFTER_SECONDS
     then t\<lparr>ct_attempts := 0, ct_not_before := Some now, ct_updated_at := now\<rparr> else t)) db"
  by (simp add: recover_parked_def write_task_def)

section \<open>Retries\<close>

text \<open>C20: the retry schedule. A failed task has one more attempt on record and is released; it may be
  claimed again exactly from \<open>min(2^n, 3600)\<close> seconds after the claim on, where \<open>n\<close> is the number of
  attempts, and not at all once the maximum is reached.\<close>

theorem finalize_failure_schedule:
  assumes "get_task i db = Some r"
  shows "\<exists>r'. get_task i (finalize_failure now i etext db) = Some r' \<and> ct_attempts r' = ct_attempts r + 1
    \<and> ct_locked_by r' = None \<and> ct_priority r' = ct_priority r
    \<and> (\<forall>t. claimable t r' \<longleftrightarrow> ct_attempts r + 1 < ct_max_attempts r
              \<and> now + of_int (min (2 ^ nat (ct_attempts r + 1)) 3600) \<le> t)"
proof -
  let ?r = "r\<lparr>ct_attempts := ct_attempts r + 1,
      ct_not_before := Some (if ct_max_attempts r \<le> ct_attempts r + 1 then now + PARK_DAYS * 86400
                             else now + backoff_seconds (ct_attempts r + 1)),
      ct_last_error := Some (take 4096 etext), ct_locked_by := None, ct_locked_until := None, ct_updated_at := now\<rparr>"
  have "get_task i (finalize_failure now i etext db) = Some ?r"
    using assms by (simp add: finalize_failure_def Let_def task_writes tasks_tbl.get_upd)
  then show ?thesis by (intro exI [of _ ?r]) (auto simp: claimable_def backoff_seconds_def)
qed

text \<open>Parking does not last thirty days. A task that has used up its attempts is claimable again as
  soon as the scheduler's recovery runs more than an hour later.\<close>

theorem park_lasts_an_hour:
  assumes "get_task i db = Some r" and "ct_max_attempts r \<le> ct_attempts r + 1" and "0 < ct_max_attempts r"
    and "now + 3600 < t"
  shows "\<exists>r'. get_task i (recover_parked t (finalize_failure now i etext db)) = Some r' \<and> claimable t r'
    \<and> ct_attempts r' = 0"
  using assms
  by (simp add: finalize_failure_def Let_def task_writes recover_parked_write tasks_tbl.get_upd
      tasks_tbl.get_upd_all PARKED_RECOVERY_AFTER_SECONDS_def claimable_def)

text \<open>Finalising is not guarded by the lease. When a worker has outlived its lease and another one
  has claimed the task, the first one's failure releases the task: it can be claimed by a third
  worker although the second one's lease is running.\<close>

theorem stale_worker_breaks_lease:
  assumes "get_task i db = Some r" and "ct_locked_by r = Some w2" and "ct_locked_until r = Some lu"
    and "ct_attempts r + 1 < ct_max_attempts r"
    and "now1 + of_int (min (2 ^ nat (ct_attempts r + 1)) 3600) \<le> t" and "t \<le> lu"
  shows "\<not> claimable t r \<and> (\<exists>r'. get_task i (finalize_failure now1 i etext db) = Some r' \<and> claimable t r')"
  using assms
  by (auto simp: finalize_failure_def Let_def task_writes tasks_tbl.get_upd claimable_def backoff_seconds_def)

section \<open>Deduplication\<close>

definition queue_ok :: "crawl_db \<Rightarrow> bool" where
  "queue_ok db \<longleftrightarrow> distinct_tasks db
     \<and> distinct (filter (\<lambda>k. k \<noteq> None) (map ct_dedupe_key (crawl_tasks db)))"

lemma queue_ok_update_all:
  assumes "queue_ok db" and "\<And>r. ct_id (f r) = ct_id r" and "\<And>r. ct_dedupe_key (f r) = ct_dedupe_key r"
  shows "queue_ok (write_task (UpdAll f) db)"
  using assms by (simp add: queue_ok_def distinct_tasks_def write_task_def comp_def)

lemma queue_ok_update:
  assumes "queue_ok db" and "\<And>r. ct_id (f r) = ct_id r" and "\<And>r. ct_dedupe_key (f r) = ct_dedupe_key r"
  shows "queue_ok (update_task i f db)"
proof -
  have "update_task i f db = write_task (UpdAll (\<lambda>r. if ct_id r = i then f r else r)) db"
    by (simp add: update_task_def write_task_def tbl_update_def)
  then show ?thesis using queue_ok_update_all [OF assms(1)] assms(2,3) by simp
qed

lemma queue_ok_delete: "queue_ok db \<Longrightarrow> queue_ok (delete_task i db)"
proof -
  assume ok: "queue_ok db"
  have "distinct (filter P (map g (filter Q xs)))" if "distinct (filter P (map g xs))"
    for P :: "string option \<Rightarrow> bool" and g and Q :: "CrawlTask \<Rightarrow> bool" and xs
    using that by (induction xs) auto
  with ok show ?thesis by (simp add: queue_ok_def distinct_tasks_def delete_task_def distinct_map_filter)
qed

lemma queue_ok_insert: "queue_ok db \<Longrightarrow> queue_ok (snd (insert_task now k kind params key priority db))"
  using insert_task_distinct [of db now k kind params key priority]
  by (auto simp: insert_task_def queue_ok_def tbl_insert_def list_ex_iff split: if_splits)

lemma queue_ok_finalize: "queue_ok db \<Longrightarrow> queue_ok (finalize exn_str now i outcome db)"
proof (cases outcome)
  case (Inr x)
  assume "queue_ok db"
  with Inr show ?thesis by (simp add: finalize_def queue_ok_delete)
next
  case (Inl e)
  assume ok: "queue_ok db"
  have t: "queue_ok (finalize_transient now i reset etext db)" for reset etext
    unfolding finalize_transient_def by (rule queue_ok_update [OF ok]) simp_all
  have f: "queue_ok (finalize_failure now i etext db)" for etext
    unfolding finalize_failure_def Let_def
    using ok by (auto split: option.split intro!: queue_ok_update)
  show ?thesis unfolding Inl using t f ok by (cases e) (simp_all add: finalize_def)
qed

lemma queue_ok_scheduler: "queue_ok db \<Longrightarrow> queue_ok (snd (scheduler_turn lib now ids commit_ok s db))"
proof -
  assume ok: "queue_ok db"
  let ?I = "\<lambda>x :: sched \<times> crawl_db. queue_ok (snd x)"
  have ins: "queue_ok db' " if "insert_task t k kind params key prio db1 = (r, db')" "queue_ok db1"
    for t k kind params key prio db1 r db'
    using queue_ok_insert [OF that(2), of t k kind params key prio] that(1) by simp
  have feed: "preserves ?I (schedule_feed lib now ids f)" for f
    by (rule preservesI) (auto simp: schedule_feed_def split: prod.splits sum.splits dest: ins)
  have rec: "queue_ok (recover_parked now db1)" if "queue_ok db1" for db1
    unfolding recover_parked_write by (rule queue_ok_update_all [OF that]) simp_all
  have pr: "queue_ok (prune_captures now db1)" if "queue_ok db1" for db1
    using that by (simp add: queue_ok_def distinct_tasks_def prune_captures_def)
  have lists: "preserves ?I (schedule_list lib now ids)"
    by (rule preservesI) (auto simp: schedule_list_def split: prod.splits sum.splits dest: ins)
  have recs: "preserves ?I (schedule_recovery now)" and prunes: "preserves ?I (schedule_prune now)"
    by (rule preservesI; auto simp: schedule_recovery_def schedule_prune_def intro: rec pr)+
  have "preserves ?I (scheduler_body lib now ids)"
    unfolding scheduler_body_def
    by (intro preserves_bind preserves_for_each feed lists recs prunes)
  from preservesD [OF this, of "(s, db)"] have "queue_ok (snd (snd (scheduler_body lib now ids (s, db))))"
    using ok by simp
  then show ?thesis
    using ok by (auto simp: scheduler_turn_def split: prod.splits sum.splits)
qed

inductive queue_step :: "crawl_db \<Rightarrow> crawl_db \<Rightarrow> bool" where
  enqueue: "queue_step db (snd (enqueue lib now k kind params priority db))"
| claim: "queue_step db (snd (claim_task row_locked now w db))"
| finalize: "queue_step db (finalize exn_str now i outcome db)"
| unknown: "queue_step db (delete_task i db)"
| scheduler: "queue_step db (snd (scheduler_turn lib now ids commit_ok s db))"
| tables: "crawl_tasks db' = crawl_tasks db \<Longrightarrow> queue_step db db'"

inductive_cases queue_stepE: "queue_step db db'"

lemma queue_step_ok: "queue_step db db' \<Longrightarrow> queue_ok db \<Longrightarrow> queue_ok db'"
proof (induction rule: queue_step.induct)
  case (claim db row_locked now w)
  then show ?case by (auto simp: claim_task_def split: option.split intro: queue_ok_update)
qed (simp_all add: enqueue_def queue_ok_insert queue_ok_finalize queue_ok_delete queue_ok_scheduler,
     simp add: queue_ok_def distinct_tasks_def)

text \<open>C19: deduplication. However enqueues, claims, finalisations, deletions and scheduler turns are
  interleaved, the queue never holds two tasks with the same key or the same identifier; and
  enqueuing a kind and parameters that are queued changes nothing.\<close>

theorem queue_deduplicates:
  assumes "queue_step\<^sup>*\<^sup>* empty_db db"
  shows "distinct (map ct_id (crawl_tasks db)) \<and>
    distinct (filter (\<lambda>k. k \<noteq> None) (map ct_dedupe_key (crawl_tasks db))) \<and>
    (\<forall>db'. enqueue lib now k kind params priority db = (Inr (), db') \<longrightarrow>
       enqueue lib now2 k2 kind params priority2 db' = (Inr (), db'))"
proof -
  have "queue_ok db"
    using assms
  proof (induction rule: rtranclp_induct)
    case base
    show ?case by (simp add: queue_ok_def distinct_tasks_def empty_db_def)
  next
    case (step y z)
    then show ?case using queue_step_ok by blast
  qed
  moreover have "enqueue lib now2 k2 kind params priority2 db' = (Inr (), db')"
    if "enqueue lib now k kind params priority db = (Inr (), db')" for db'
    using that by (auto simp: enqueue_def insert_task_def tbl_insert_def list_ex_iff split: if_splits)
  ultimately show ?thesis by (auto simp: queue_ok_def distinct_tasks_def)
qed

section \<open>The scheduler's memory\<close>

text \<open>A failed commit is not repaired. The scheduler remembers that it has enqueued the listing of
  the submolts before the transaction commits; if the commit fails, the table is unchanged, but the
  listing is not due again for fifteen minutes.\<close>

theorem scheduler_failed_commit_skips:
  assumes "scheduler_body lib now ids (s, db) = (Inr (), s', db')"
    and "due LIST_SUBMOLTS_INTERVAL now (last_list_submolts s)"
  shows "scheduler_turn lib now ids False s db = (s', db) \<and>
    (\<forall>t. due LIST_SUBMOLTS_INTERVAL t (last_list_submolts s') \<longleftrightarrow> now + 900 \<le> t)"
proof -
  let ?I = "\<lambda>x :: sched \<times> crawl_db. last_list_submolts (fst x) = Some now"
  have feed: "preserves ?I (schedule_feed lib now ids f)" for f
    by (rule preservesI) (auto simp: schedule_feed_def split: prod.splits sum.splits)
  have "preserves ?I (bind_act (for_each [''hot'', ''new'', ''rising'', ''top''] (schedule_feed lib now ids))
      (\<lambda>_. bind_act (schedule_recovery now) (\<lambda>_. schedule_prune now)))"
    by (intro preserves_bind preserves_for_each feed; rule preservesI;
        auto simp: schedule_recovery_def schedule_prune_def)
  moreover obtain u x where "schedule_list lib now ids (s, db) = (Inr u, x)"
    and rest: "bind_act (for_each [''hot'', ''new'', ''rising'', ''top''] (schedule_feed lib now ids))
      (\<lambda>_. bind_act (schedule_recovery now) (\<lambda>_. schedule_prune now)) x = (Inr (), s', db')"
    using assms(1) unfolding scheduler_body_def bind_act_eq_Inr [of "schedule_list lib now ids"] by blast
  moreover from this have "last_list_submolts (fst x) = Some now"
    using assms(2) by (auto simp: schedule_list_def split: prod.splits sum.splits if_splits)
  ultimately have "last_list_submolts s' = Some now"
    using preservesD [of ?I _ x] by fastforce
  then have "due LIST_SUBMOLTS_INTERVAL t (last_list_submolts s') \<longleftrightarrow> now + 900 \<le> t" for t
    by (auto simp: due_def LIST_SUBMOLTS_INTERVAL_def)
  then show ?thesis using assms(1) by (simp add: scheduler_turn_def)
qed

section \<open>A concrete queue\<close>

definition ex_task :: "int \<Rightarrow> (string \<times> seconds) option \<Rightarrow> CrawlTask" where
  "ex_task attempts lease =
     \<lparr>ct_id = 1, ct_kind = ''fetch_post'', ct_params = JObj [(''post_id'', JStr ''p1'')],
      ct_dedupe_key = Some ''k'', ct_priority = 6, ct_not_before = None, ct_attempts = attempts,
      ct_max_attempts = 5, ct_last_error = None, ct_locked_by = map_option fst lease,
      ct_locked_until = map_option snd lease, ct_created_at = 0, ct_updated_at = 0\<rparr>"

definition ex_queue :: "CrawlTask \<Rightarrow> crawl_db" where
  "ex_queue t = empty_db\<lparr>crawl_tasks := [t]\<rparr>"

lemma ex_get_task: "get_task 1 (ex_queue (ex_task n l)) = Some (ex_task n l)"
  by (simp add: get_task_def ex_queue_def ex_task_def)

theorem finalize_failure_schedule_witness:
  "\<exists>r'. get_task 1 (finalize_failure 10 1 ''boom'' (ex_queue (ex_task 3 None))) = Some r'
     \<and> ct_attempts r' = 4 \<and> \<not> claimable 25 r' \<and> claimable 26 r'"
  using finalize_failure_schedule [OF ex_get_task [of 3 None], of 10 "''boom''"]
  by (auto simp: ex_task_def)

theorem park_lasts_an_hour_witness:
  "\<exists>r'. get_task 1 (recover_parked 3611 (finalize_failure 10 1 ''boom'' (ex_queue (ex_task 4 None)))) = Some r'
     \<and> claimable 3611 r' \<and> ct_attempts r' = 0"
  by (rule park_lasts_an_hour [OF ex_get_task]) (simp_all add: ex_task_def)

theorem stale_worker_breaks_lease_witness:
  "\<not> claimable 402 (ex_task 1 (Some (''w-1'', 700))) \<and>
   (\<exists>r'. get_task 1 (finalize_failure 10 1 ''boom'' (ex_queue (ex_task 1 (Some (''w-1'', 700))))) = Some r'
      \<and> claimable 402 r')"
  by (rule stale_worker_breaks_lease [OF ex_get_task, where ?w2.0 = "''w-1''" and lu = 700])
    (simp_all add: ex_task_def)

definition ex_lib :: crawl_lib where
  "ex_lib = \<lparr>cl_sha256 = (\<lambda>s. take 64 s), cl_dumps = (\<lambda>_. ''{}''), cl_fromiso = (\<lambda>_. None), cl_repr = (\<lambda>_. ''...'')\<rparr>"

theorem queue_deduplicates_witness:
  "let db = snd (enqueue ex_lib 5 1 ''list_submolts'' JNull 10 empty_db)
   in distinct (map ct_id (crawl_tasks db))
      \<and> enqueue ex_lib 9 2 ''list_submolts'' JNull 3 db = (Inr (), db)"
proof -
  let ?db = "snd (enqueue ex_lib 5 1 ''list_submolts'' JNull 10 empty_db)"
  have "queue_step empty_db ?db" by (rule queue_step.enqueue)
  then have steps: "queue_step\<^sup>*\<^sup>* empty_db ?db" by (rule r_into_rtranclp)
  have run: "enqueue ex_lib 9 3 ''list_submolts'' JNull 10 ?db = (Inr (), ?db)"
    by (simp add: enqueue_def insert_task_def dedupe_key_def ex_lib_def empty_db_def tbl_insert_def)
  show ?thesis
    using queue_deduplicates [OF steps, of ex_lib 9 3 "''list_submolts''" JNull 10 9 2 3] run
    by (simp add: Let_def)
qed

definition ex_sched :: sched where
  "ex_sched = \<lparr>last_list_submolts = None, last_poll_feed = (\<lambda>_. Some 50), last_prune = Some 50,
     last_parked_recovery = Some 50\<rparr>"

theorem scheduler_failed_commit_skips_witness:
  "snd (scheduler_turn ex_lib 100 (\<lambda>_. 1) False ex_sched empty_db) = empty_db \<and>
   \<not> due LIST_SUBMOLTS_INTERVAL 999
       (last_list_submolts (fst (scheduler_turn ex_lib 100 (\<lambda>_. 1) False ex_sched empty_db)))"
proof -
  let ?t = "\<lparr>ct_id = 1, ct_kind = ''list_submolts'', ct_params = JObj [], ct_dedupe_key = Some ''list_submolts:{}'',
     ct_priority = 10, ct_not_before = None, ct_attempts = 0, ct_max_attempts = 5, ct_last_error = None,
     ct_locked_by = None, ct_locked_until = None, ct_created_at = 100, ct_updated_at = 100\<rparr>"
  have run: "scheduler_body ex_lib 100 (\<lambda>_. 1) (ex_sched, empty_db)
      = (Inr (), ex_sched\<lparr>last_list_submolts := Some 100\<rparr>, empty_db\<lparr>crawl_tasks := [?t]\<rparr>)"
    by (simp add: scheduler_body_def schedule_list_def schedule_feed_def schedule_recovery_def
        schedule_prune_def bind_act_def due_def ex_sched_def insert_task_def dedupe_key_def ex_lib_def
        empty_db_def tbl_insert_def POLL_FEED_INTERVAL_def RAW_CAPTURE_PRUNE_INTERVAL_def)
  show ?thesis
    using scheduler_failed_commit_skips [OF run]
    by (simp add: due_def ex_sched_def LIST_SUBMOLTS_INTERVAL_def)
qed

end
