(* ===== verification/Handlers.thy ===== *)
theory Handlers
  imports CrawlQueue
begin

text \<open>
  What the task handlers share: the environment they run in, the list of items of a feed, the
  upsert of an embedded author, the statistics tables of \<open>textlake/models/timeseries.py\<close>, and the
  invariant of the crawler's database that every handler keeps.
\<close>

section \<open>The environment\<close>

text \<open>
  \<open>ce_get path params\<close> is \<open>client.get\<close> as a handler sees it: the decoded body, or the exception
  left when the retries are over. \<open>ce_new_id\<close> is the identifier drawn for a new task with a given
  deduplication key. The clock is read once per task.
\<close>

record crawl_env =
  ce_lib :: crawl_lib
  ce_get :: "string \<Rightarrow> json \<Rightarrow> json result"
  ce_now :: seconds
  ce_new_id :: "string \<Rightarrow> uuid"

definition env_enqueue :: "crawl_env \<Rightarrow> string \<Rightarrow> json \<Rightarrow> int \<Rightarrow> (crawl_db, unit) action" where
  "env_enqueue env kind params priority =
     enqueue (ce_lib env) (ce_now env) (ce_new_id env (dedupe_key (ce_lib env) kind params)) kind params priority"

text \<open>
  The items of a feed. The conditional expression of the source binds weaker than its \<open>or\<close>s: on a
  list it evaluates \<open>data.get\<close>, which a list does not have, and otherwise it reads one key only.
\<close>

definition feed_items :: "string \<Rightarrow> json \<Rightarrow> json list result" where
  "feed_items key data =
     (case data of
        JObj kvs \<Rightarrow> (case py_or (dict_get kvs key) (JList []) of JList items \<Rightarrow> Inr items | _ \<Rightarrow> Inr [data])
      | _ \<Rightarrow> Inl AttributeError)"

text \<open>\<open>if isinstance(author, dict): stub = agent_stub(author); if stub: await upsert_agent(...)\<close>.\<close>

definition upsert_author :: "crawl_env \<Rightarrow> json \<Rightarrow> (crawl_db, unit) action" where
  "upsert_author env author =
     (case author of
        JObj kvs \<Rightarrow>
          bind_act (of_result (agent_stub (ce_lib env) kvs)) (\<lambda>stub.
          case stub of None \<Rightarrow> ret () | Some vals \<Rightarrow> upsert_agent (ce_now env) False vals)
      | _ \<Rightarrow> ret ())"

text \<open>A value of a row dictionary that is a string.\<close>

definition stub_str :: "colvals \<Rightarrow> string \<Rightarrow> string option" where
  "stub_str vals k = (case map_of vals k of Some (VJson (JStr s)) \<Rightarrow> Some s | _ \<Rightarrow> None)"

text \<open>\<open>agent_stub(author) if isinstance(author, dict) else None\<close> with \<open>author = data.get("author") or data\<close>.\<close>

definition author_stub :: "crawl_lib \<Rightarrow> (string \<times> json) list \<Rightarrow> (colvals option) result" where
  "author_stub lib data =
     (case py_or (dict_get data ''author'') (JObj data) of
        JObj author \<Rightarrow> agent_stub lib author
      | _ \<Rightarrow> Inr None)"

definition opt_str :: "string option \<Rightarrow> dbval" where
  "opt_str v = (case v of None \<Rightarrow> VNull | Some s \<Rightarrow> VJson (JStr s))"

definition stub_field :: "colvals option \<Rightarrow> string \<Rightarrow> dbval" where
  "stub_field stub k = (case stub of None \<Rightarrow> VNull | Some vals \<Rightarrow> opt_str (stub_str vals k))"

text \<open>\<open>n < v\<close> for an integer and a decoded JSON value.\<close>

definition int_less :: "int \<Rightarrow> json \<Rightarrow> bool result" where
  "int_less n v =
     (case v of
        JInt m \<Rightarrow> Inr (n < m)
      | JFloat x \<Rightarrow> Inr (of_int n < x)
      | JBool b \<Rightarrow> Inr (n < (if b then 1 else 0))
      | _ \<Rightarrow> Inl TypeError)"

section \<open>Statistics\<close>

definition MbAgentStatsTs :: "(string \<times> coltype) list" where
  "MbAgentStatsTs =
     [(''karma'', CInt), (''follower_count'', CInt), (''following_count'', CInt), (''raw_json'', CJsonb)]"

definition MbSubmoltStatsTs :: "(string \<times> coltype) list" where
  "MbSubmoltStatsTs = [(''subscriber_count'', CInt), (''post_count'', CInt), (''raw_json'', CJsonb)]"

definition MbPostStatsTs :: "(string \<times> coltype) list" where
  "MbPostStatsTs =
     [(''upvotes'', CInt), (''downvotes'', CInt), (''comment_count'', CInt), (''raw_json'', CJsonb)]"

definition MbCommentStatsTs :: "(string \<times> coltype) list" where
  "MbCommentStatsTs = [(''upvotes'', CInt), (''downvotes'', CInt), (''raw_json'', CJsonb)]"

fun stats_columns :: "entity \<Rightarrow> (string \<times> coltype) list" where
  "stats_columns Agent = MbAgentStatsTs"
| "stats_columns Submolt = MbSubmoltStatsTs"
| "stats_columns Post = MbPostStatsTs"
| "stats_columns Comment = MbCommentStatsTs"

definition stats_value :: "stats_row \<Rightarrow> string \<Rightarrow> dbval" where
  "stats_value r c = (case map_of (sr_values r) c of None \<Rightarrow> VNull | Some v \<Rightarrow> v)"

definition stats_fit :: "entity \<Rightarrow> stats_row \<Rightarrow> bool" where
  "stats_fit e r \<longleftrightarrow> length (sr_id r) \<le> 64 \<and> list_all (\<lambda>(c, t). fits t (stats_value r c)) (stats_columns e)"

definition stats_key :: "stats_row \<Rightarrow> seconds \<times> string" where
  "stats_key r = (sr_ts r, sr_id r)"

text \<open>
  \<open>session.add\<close> leaves the rows pending, as the session does not flush by itself; the commit inserts
  them, and the primary key is the time and the entity.
\<close>

definition insert_stats :: "entity \<Rightarrow> stats_row \<Rightarrow> (crawl_db, unit) action" where
  "insert_stats e r db =
     (if \<not> stats_fit e r then (Inl (DataError ''invalid input''), db)
      else if list_ex (\<lambda>r'. stats_key r' = stats_key r) (stats_rows db e)
      then (Inl (IntegrityError ''primary key''), db)
      else (Inr (), db\<lparr>stats_rows := (stats_rows db)(e := stats_rows db e @ [r])\<rparr>))"

definition commit_stats :: "entity \<Rightarrow> stats_row list \<Rightarrow> (crawl_db, unit) action" where
  "commit_stats e pending = for_each pending (insert_stats e)"

text \<open>\<open>select(MbPost).where(MbPost.id == post_id)\<close>: only a string can be compared with the column.\<close>

definition select_post :: "json \<Rightarrow> (crawl_db, row option) action" where
  "select_post post_id db =
     (case post_id of
        JStr s \<Rightarrow> (Inr (get_row Post (VJson (JStr s)) db), db)
      | _ \<Rightarrow> (Inl (DataError ''invalid input''), db))"

text \<open>\<open>post.comments_fetched or 0\<close>.\<close>

definition comments_fetched_of :: "row \<Rightarrow> int" where
  "comments_fetched_of r = (case r ''comments_fetched'' of VJson (JInt n) \<Rightarrow> n | _ \<Rightarrow> 0)"

text \<open>\<open>UPDATE mb_post SET comments_fetched = ..., comments_truncated = ..., ... WHERE id = post_id\<close>.\<close>

definition mark_fetched :: "seconds \<Rightarrow> row \<Rightarrow> int \<Rightarrow> bool \<Rightarrow> (crawl_db, unit) action" where
  "mark_fetched now post new_fetched truncated db =
     (if \<not> fits CInt (VJson (JInt new_fetched)) then (Inl (DataError ''integer out of range''), db)
      else (Inr (), set_rows Post (tbl_update (\<lambda>r. r ''id'') (post ''id'')
         (\<lambda>r. r(''comments_fetched'' := VJson (JInt new_fetched),
           ''comments_truncated'' := VJson (JBool (post ''comments_truncated'' = VJson (JBool True) \<or> truncated)),
           ''last_comments_fetch_at'' := VTime now)) (entity_rows db Post)) db))"

section \<open>The invariant of the database\<close>

text \<open>
  Entities well-formed, the queue without duplicates, statistics with distinct keys and columns of
  their types.
\<close>

definition stats_ok :: "crawl_db \<Rightarrow> bool" where
  "stats_ok db \<longleftrightarrow> (\<forall>e. distinct (map stats_key (stats_rows db e)) \<and> list_all (stats_fit e) (stats_rows db e))"

definition crawl_ok :: "crawl_db \<Rightarrow> bool" where
  "crawl_ok db \<longleftrightarrow> db_ok db \<and> queue_ok db \<and> stats_ok db"

lemma db_ok_cong:
  assumes "entity_rows db = entity_rows db'"
  shows "db_ok db \<longleftrightarrow> db_ok db'"
proof -
  have "row_exists e v db = row_exists e v db'" for e v by (simp add: row_exists_def assms)
  then have "(\<lambda>e v. row_exists e v db) = (\<lambda>e v. row_exists e v db')" by blast
  then have "fk_violation e r db = fk_violation e r db'" for e r by (metis fk_violation_mono)
  then show ?thesis by (simp add: db_ok_def assms)
qed

lemma queue_ok_cong: "crawl_tasks db = crawl_tasks db' \<Longrightarrow> queue_ok db \<longleftrightarrow> queue_ok db'"
  by (simp add: queue_ok_def distinct_tasks_def)

lemma stats_ok_cong: "stats_rows db = stats_rows db' \<Longrightarrow> stats_ok db \<longleftrightarrow> stats_ok db'"
  by (simp add: stats_ok_def)

lemma upsert_frame:
  "crawl_tasks (snd (enrichment_upsert e cols auth now vals db)) = crawl_tasks db"
  "stats_rows (snd (enrichment_upsert e cols auth now vals db)) = stats_rows db"
  by (simp_all add: enrichment_upsert_def Let_def set_rows_def split: option.split)

lemma upsert_keeps: "preserves crawl_ok (enrichment_upsert e cols auth now vals)"
proof (rule preservesI)
  fix db
  assume ok: "crawl_ok db"
  let ?db' = "snd (enrichment_upsert e cols auth now vals db)"
  have "db_ok ?db'" using ok upsert_db_ok by (simp add: crawl_ok_def)
  moreover have "queue_ok ?db'" using ok queue_ok_cong [OF upsert_frame(1)] by (simp add: crawl_ok_def)
  moreover have "stats_ok ?db'" using ok stats_ok_cong [OF upsert_frame(2)] by (simp add: crawl_ok_def)
  ultimately show "crawl_ok ?db'" by (simp add: crawl_ok_def)
qed

lemma tasks_only_ok:
  assumes "crawl_ok db" and "entity_rows db' = entity_rows db" and "stats_rows db' = stats_rows db"
    and "queue_ok db'"
  shows "crawl_ok db'"
  using assms db_ok_cong [OF assms(2)] stats_ok_cong [OF assms(3)] by (simp add: crawl_ok_def)

lemma insert_task_keeps: "preserves crawl_ok (insert_task now i kind params key priority)"
proof (rule preservesI)
  fix db
  assume ok: "crawl_ok db"
  let ?db' = "snd (insert_task now i kind params key priority db)"
  have "entity_rows ?db' = entity_rows db" "stats_rows ?db' = stats_rows db"
    by (simp_all add: insert_task_def)
  then show "crawl_ok ?db'"
    using ok queue_ok_insert by (intro tasks_only_ok [OF ok]) (simp_all add: crawl_ok_def)
qed

lemma insert_stats_keeps: "preserves crawl_ok (insert_stats e r)"
proof (rule preservesI)
  fix db
  assume ok: "crawl_ok db"
  let ?db' = "snd (insert_stats e r db)"
  have "entity_rows ?db' = entity_rows db" "crawl_tasks ?db' = crawl_tasks db"
    by (simp_all add: insert_stats_def)
  moreover have "stats_ok ?db'"
    using ok by (auto simp: insert_stats_def crawl_ok_def stats_ok_def list_ex_iff)
  ultimately show "crawl_ok ?db'"
    using ok db_ok_cong [of ?db' db] queue_ok_cong [of ?db' db] by (simp add: crawl_ok_def)
qed

section \<open>Foreign keys\<close>

text \<open>The result of a statement that does not fail on a foreign key.\<close>

definition no_fk_error :: "'a result \<Rightarrow> bool" where
  "no_fk_error r \<longleftrightarrow> r \<noteq> Inl (IntegrityError ''foreign key'')"

lemma no_fk_error_simps [simp]:
  "no_fk_error (Inr x)" "no_fk_error (Inl TypeError)" "no_fk_error (Inl AttributeError)" "no_fk_error (Inl OverflowError)"
  "no_fk_error (Inl (ValueError m))" "no_fk_error (Inl (DataError m))"
  "no_fk_error (Inl (IntegrityError ''unique''))" "no_fk_error (Inl (IntegrityError ''not null''))"
  "no_fk_error (Inl (IntegrityError ''primary key''))"
  by (simp_all add: no_fk_error_def)

lemma no_fk_error_bind [intro]:
  "no_fk_error r \<Longrightarrow> (\<And>x. no_fk_error (f x)) \<Longrightarrow> no_fk_error (bind_res r f)"
  by (cases r) (simp_all add: no_fk_error_def)

lemma no_fk_error_bind_act:
  assumes "no_fk_error (fst (m s))" and "\<And>x s'. m s = (Inr x, s') \<Longrightarrow> no_fk_error (fst (f x s'))"
  shows "no_fk_error (fst (bind_act m f s))"
  using assms by (cases "m s") (auto simp: bind_act_def no_fk_error_def split: sum.split)

definition refs_ok :: "entity \<Rightarrow> row \<Rightarrow> crawl_db \<Rightarrow> bool" where
  "refs_ok e r db \<longleftrightarrow>
     (\<forall>(c, co)\<in>set (columns_of e). \<forall>e'. co_fk co = Some e' \<longrightarrow> r c = VNull \<or> row_exists e' (r c) db)"

lemma fk_violation_refs: "fk_violation e r db \<longleftrightarrow> \<not> refs_ok e r db"
  unfolding fk_violation_def refs_ok_def list_ex_iff by (fastforce split: option.splits)

lemma enrich_refs_ok:
  "refs_ok e excluded db \<Longrightarrow> refs_ok e old db \<Longrightarrow> refs_ok e (enrich e cols auth now excluded old) db"
  unfolding refs_ok_def
proof (intro ballI, clarify)
  fix c co e'
  assume x: "\<forall>(c, co)\<in>set (columns_of e). \<forall>e'. co_fk co = Some e' \<longrightarrow> excluded c = VNull \<or> row_exists e' (excluded c) db"
    and o: "\<forall>(c, co)\<in>set (columns_of e). \<forall>e'. co_fk co = Some e' \<longrightarrow> old c = VNull \<or> row_exists e' (old c) db"
    and c: "(c, co) \<in> set (columns_of e)" "co_fk co = Some e'"
    and nex: "\<not> row_exists e' (enrich e cols auth now excluded old c) db"
  have m: "map_of (columns_of e) c = Some co" using c(1) columns_facts(5) by (simp add: map_of_eq_Some_iff)
  then have special: "c \<noteq> ''last_seen_at''" "c \<noteq> ''first_seen_at''" "c \<noteq> ''raw_json''"
    using c(2) columns_facts(2-4) by (auto simp: now_col_def col_def)
  show "enrich e cols auth now excluded old c = VNull"
    using x o c nex m special by (auto simp: enrich_def coalesce_def split: if_splits)
qed

lemma row_exists_insert:
  "row_exists e' v db \<Longrightarrow> row_exists e' v (set_rows e (tbl_insert r (entity_rows db e)) db)"
  by (auto simp: row_exists_iff set_rows_def tbl_insert_def)

lemma row_exists_replace:
  "r ''id'' = k \<Longrightarrow>
   row_exists e' v (set_rows e (tbl_update (\<lambda>r. r ''id'') k (\<lambda>_. r) (entity_rows db e)) db) = row_exists e' v db"
  using keys_replace [of "\<lambda>r. r ''id''" r k "entity_rows db e"]
  by (simp add: row_exists_iff set_rows_def flip: set_map)

lemma get_row_exists: "get_row e v db = Some r \<Longrightarrow> row_exists e v db"
  by (auto simp: get_row_def row_exists_iff dest: tbl_get_SomeD)

lemma get_row_in: "get_row e v db = Some r \<Longrightarrow> r \<in> set (entity_rows db e) \<and> r ''id'' = v"
  by (auto simp: get_row_def dest: tbl_get_SomeD)

lemma upsert_no_fk_error:
  assumes ok: "db_ok db" and refs: "refs_ok e (row_of now e vals) db"
  shows "no_fk_error (fst (enrichment_upsert e cols auth now vals db))"
proof (cases "row_violation e (row_of now e vals)")
  case (Some err)
  then have "err = DataError ''invalid input'' \<or> err = IntegrityError ''not null''"
    by (auto simp: row_violation_def split: if_splits)
  with Some show ?thesis by (auto simp: enrichment_upsert_def)
next
  case v: None
  let ?x = "row_of now e vals"
  have mono: "refs_ok e r (set_rows e rows' db)"
    if "refs_ok e r db" "\<And>e' v. row_exists e' v db \<Longrightarrow> row_exists e' v (set_rows e rows' db)" for r rows'
    using that unfolding refs_ok_def by blast
  show ?thesis
  proof (cases "get_row e (?x ''id'') db")
    case None
    have "refs_ok e ?x (set_rows e (tbl_insert ?x (entity_rows db e)) db)"
      by (rule mono [OF refs row_exists_insert])
    then show ?thesis by (simp add: enrichment_upsert_def Let_def v None fk_violation_refs)
  next
    case (Some old)
    let ?new = "enrich e cols auth now ?x old"
    have old: "refs_ok e old db" "old ''id'' = ?x ''id''"
      using get_row_in [OF Some] ok by (auto simp: db_ok_def fk_violation_refs)
    have nid: "?new ''id'' = ?x ''id''" by (rule enrich_id [where old = old and excluded = ?x, OF old(2)])
    have "refs_ok e ?new (set_rows e (tbl_update (\<lambda>r. r ''id'') (?x ''id'') (\<lambda>_. ?new) (entity_rows db e)) db)"
      by (rule mono [OF enrich_refs_ok [OF refs old(1)]]) (simp add: row_exists_replace [where r = ?new, OF nid])
    then show ?thesis by (simp add: enrichment_upsert_def Let_def v Some fk_violation_refs)
  qed
qed

lemma upsert_row_exists:
  assumes "enrichment_upsert e cols auth now vals db = (Inr (), db')"
  shows "row_exists e (row_of now e vals ''id'') db'"
    and "row_exists e' v db \<Longrightarrow> row_exists e' v db'"
proof -
  let ?x = "row_of now e vals"
  have "row_exists e (?x ''id'') db' \<and> (row_exists e' v db \<longrightarrow> row_exists e' v db')" for e' v
  proof (rule upsert_Inr [OF assms])
    assume "db' = set_rows e (tbl_insert ?x (entity_rows db e)) db"
    then show ?thesis using row_exists_insert by (auto simp: row_exists_iff set_rows_def tbl_insert_def)
  next
    fix old
    let ?new = "enrich e cols auth now ?x old"
    assume g: "get_row e (?x ''id'') db = Some old"
      and db': "db' = set_rows e (tbl_update (\<lambda>r. r ''id'') (?x ''id'') (\<lambda>_. ?new) (entity_rows db e)) db"
    have nid: "?new ''id'' = ?x ''id''"
      using get_row_in [OF g] by (intro enrich_id [where old = old and excluded = ?x]) simp
    show ?thesis
      using get_row_exists [OF g] by (simp add: db' row_exists_replace [where r = ?new, OF nid])
  qed
  then show "row_exists e (?x ''id'') db'" "row_exists e' v db \<Longrightarrow> row_exists e' v db'" by blast+
qed

text \<open>Whatever its outcome, an upsert removes no row.\<close>

lemma upsert_row_exists_mono:
  "row_exists e' v db \<Longrightarrow> row_exists e' v (snd (enrichment_upsert e cols auth now vals db))"
  by (cases "enrichment_upsert e cols auth now vals db"; cases "fst (enrichment_upsert e cols auth now vals db)")
    (auto dest: upsert_Inl upsert_row_exists(2))

lemma agent_refs_ok: "refs_ok Agent r db"
  by (simp add: refs_ok_def MbAgent_def col_def pk_col_def now_col_def)

lemma submolt_refs_ok: "refs_ok Submolt r db"
  by (simp add: refs_ok_def MbSubmolt_def col_def pk_col_def now_col_def)

lemma post_refs_ok:
  "refs_ok Post r db \<longleftrightarrow>
     (r ''author_id'' = VNull \<or> row_exists Agent (r ''author_id'') db) \<and>
     (r ''submolt_id'' = VNull \<or> row_exists Submolt (r ''submolt_id'') db)"
  by (auto simp: refs_ok_def MbPost_def col_def pk_col_def now_col_def fk_col_def const_col_def)

lemma comment_refs_ok:
  "refs_ok Comment r db \<longleftrightarrow>
     (r ''author_id'' = VNull \<or> row_exists Agent (r ''author_id'') db) \<and>
     (r ''post_id'' = VNull \<or> row_exists Post (r ''post_id'') db) \<and>
     (r ''parent_id'' = VNull \<or> row_exists Comment (r ''parent_id'') db)"
  by (auto simp: refs_ok_def MbComment_def col_def pk_col_def now_col_def fk_col_def const_col_def)

section \<open>Embedded authors\<close>

lemma parse_ts_no_fk_error: "no_fk_error (parse_ts lib raw)"
  by (cases raw) (auto simp: parse_ts_def fromtimestamp_def split: if_splits)

lemma agent_stub_no_fk_error: "no_fk_error (agent_stub lib data)"
  unfolding agent_stub_def Let_def
  by (intro no_fk_error_bind parse_ts_no_fk_error)
     (auto simp: strip_json_def intro!: no_fk_error_bind parse_ts_no_fk_error split: json.splits)

lemma agent_stub_id: "agent_stub lib data = Inr (Some vals) \<Longrightarrow> \<exists>s. map_of vals ''id'' = Some (VJson (JStr s))"
  by (auto simp: agent_stub_def Let_def split: if_splits)

definition rows_kept :: "crawl_db \<Rightarrow> crawl_db \<Rightarrow> bool" where
  "rows_kept db db' \<longleftrightarrow> (\<forall>e v. row_exists e v db \<longrightarrow> row_exists e v db')"

lemma rows_kept_refl [simp]: "rows_kept db db"
  by (simp add: rows_kept_def)

lemma rows_kept_trans: "rows_kept db db1 \<Longrightarrow> rows_kept db1 db2 \<Longrightarrow> rows_kept db db2"
  by (simp add: rows_kept_def)

lemma upsert_effect:
  assumes "enrichment_upsert e cols auth now vals db = (Inr x, db')" and "db_ok db"
  shows "db_ok db' \<and> rows_kept db db' \<and> row_exists e (row_of now e vals ''id'') db'"
proof -
  have run: "enrichment_upsert e cols auth now vals db = (Inr (), db')" using assms(1) by simp
  show ?thesis
    using upsert_db_ok [OF assms(2), of e cols auth now vals] upsert_row_exists [OF run] run
    by (auto simp: rows_kept_def)
qed

lemma upsert_author_no_fk_error: "db_ok db \<Longrightarrow> no_fk_error (fst (upsert_author env author db))"
  unfolding upsert_author_def
  by (cases author)
     (auto intro!: no_fk_error_bind_act upsert_no_fk_error agent_refs_ok agent_stub_no_fk_error
       simp: upsert_agent_def split: option.split)

lemma upsert_author_effect:
  assumes "upsert_author env author db = (Inr x, db')" and "db_ok db"
  shows "db_ok db' \<and> rows_kept db db' \<and>
    (\<forall>kvs vals s. author = JObj kvs \<longrightarrow> agent_stub (ce_lib env) kvs = Inr (Some vals) \<longrightarrow>
       stub_str vals ''id'' = Some s \<longrightarrow> row_exists Agent (VJson (JStr s)) db')"
proof (cases "\<exists>kvs vals. author = JObj kvs \<and> agent_stub (ce_lib env) kvs = Inr (Some vals)")
  case True
  then obtain kvs vals where a: "author = JObj kvs" "agent_stub (ce_lib env) kvs = Inr (Some vals)" by blast
  from agent_stub_id [OF a(2)] obtain s where s: "map_of vals ''id'' = Some (VJson (JStr s))" ..
  have "enrichment_upsert Agent MB_AGENT_ENRICHMENT False (ce_now env) vals db = (Inr x, db')"
    using assms(1) a by (simp add: upsert_author_def upsert_agent_def bind_act_def)
  from upsert_effect [OF this assms(2)] show ?thesis
    using a s by (auto simp: row_of_def stub_str_def)
next
  case False
  then have "db' = db"
    using assms(1)
    by (auto simp: upsert_author_def bind_act_def split: json.splits sum.splits option.splits)
  then show ?thesis using False assms(2) by auto
qed

section \<open>Updates of one row\<close>

lemma update_row_db_ok:
  assumes ok: "db_ok db" and id: "\<And>r. f r ''id'' = r ''id''"
    and same: "\<And>r c co. (c, co) \<in> set (columns_of e) \<Longrightarrow> co_unique co \<or> co_fk co \<noteq> None \<Longrightarrow> f r c = r c"
    and fit: "\<And>r. row_violation e r = None \<Longrightarrow> row_violation e (f r) = None"
  shows "db_ok (set_rows e (tbl_update (\<lambda>r. r ''id'') k f (entity_rows db e)) db)"
proof (cases "get_row e k db")
  case None
  then have "tbl_update (\<lambda>r. r ''id'') k f (entity_rows db e) = entity_rows db e"
    by (auto simp: get_row_def tbl_get_None_iff tbl_update_def intro!: map_idI)
  then show ?thesis using ok by (simp add: set_rows_def)
next
  case (Some old)
  note old = get_row_in [OF Some]
  have v: "row_violation e old = None" "\<not> fk_violation e old db" "\<not> unique_violation e old (entity_rows db e)"
    using ok old by (auto simp: db_ok_def)
  have d: "distinct (map (\<lambda>r. r ''id'') (entity_rows db e))" using ok by (simp add: db_ok_def)
  let ?rows = "tbl_update (\<lambda>r. r ''id'') k f (entity_rows db e)"
  have keys: "map (\<lambda>r. r ''id'') ?rows = map (\<lambda>r. r ''id'') (entity_rows db e)"
    using id by (simp add: tbl_update_def)
  have ex: "row_exists e' v (set_rows e ?rows db) = row_exists e' v db" for e' v
    using keys by (simp add: row_exists_iff set_rows_def flip: set_map)
  show ?thesis
  proof (rule new_row_db_ok [OF ok refl, where new = "f old"])
    show "distinct (map (\<lambda>r. r ''id'') ?rows)" using d keys by simp
    show "(\<lambda>r. r ''id'') ` set (entity_rows db e) \<subseteq> (\<lambda>r. r ''id'') ` set ?rows"
      using keys by (metis order_refl set_map)
    show "row_violation e (f old) = None" by (rule fit [OF v(1)])
    have "refs_ok e (f old) (set_rows e ?rows db)"
      unfolding refs_ok_def
    proof (intro ballI, clarify)
      fix c co e'
      assume "(c, co) \<in> set (columns_of e)" "co_fk co = Some e'" "\<not> row_exists e' (f old c) (set_rows e ?rows db)"
      then show "f old c = VNull"
        using v(2) same [of c co old] by (auto simp: fk_violation_refs refs_ok_def ex)
    qed
    then show "\<not> fk_violation e (f old) (set_rows e ?rows db)" by (simp add: fk_violation_refs)
    show "\<not> unique_violation e (f old) (entity_rows db e)"
    proof
      assume "unique_violation e (f old) (entity_rows db e)"
      then obtain r' c co where "r' \<in> set (entity_rows db e)" "r' ''id'' \<noteq> old ''id''" "(c, co) \<in> set (columns_of e)"
        "co_unique co" "same_value (co_type co) (old c) (r' c)"
        unfolding unique_violation_iff id using same by auto
      then have "unique_violation e old (entity_rows db e)" unfolding unique_violation_iff by blast
      with v(3) show False by contradiction
    qed
    fix r
    assume "r \<in> set ?rows"
    then obtain q where q: "q \<in> set (entity_rows db e)" "r = (if q ''id'' = k then f q else q)"
      by (auto simp: tbl_update_def)
    then show "r = f old \<or> r \<in> set (entity_rows db e) \<and> r ''id'' \<noteq> f old ''id''"
      using old id inj_onD [of "\<lambda>r. r ''id''" "set (entity_rows db e)" q old] d
      by (cases "q ''id'' = k") (simp_all add: distinct_map)
  qed
qed

lemma counter_columns:
  "map_of (columns_of Post) ''comments_fetched'' = Some (const_col CInt (JInt 0))"
  "map_of (columns_of Post) ''comments_truncated'' = Some (const_col CBool (JBool False))"
  "map_of (columns_of Post) ''last_comments_fetch_at'' = Some (col CTime True)"
  by (simp_all add: MbPost_def)

lemma counter_update_column:
  assumes "(c, co) \<in> set (columns_of Post)" and "fits CInt v"
    and "v \<noteq> VNull" and "f = (\<lambda>r. r(''comments_fetched'' := v, ''comments_truncated'' := VJson (JBool b),
       ''last_comments_fetch_at'' := VTime t))"
  shows "co_unique co \<or> co_fk co \<noteq> None \<Longrightarrow> f r c = r c"
    and "fits (co_type co) (r c) \<Longrightarrow> fits (co_type co) (f r c)" and "r c \<noteq> VNull \<Longrightarrow> f r c \<noteq> VNull"
proof -
  have m: "map_of (columns_of Post) c = Some co"
    by (rule map_of_is_SomeI [OF columns_facts(5) assms(1)])
  have fit: "fits CBool (VJson (JBool b))" "fits CTime (VTime t)" by (simp_all add: fits_def)
  consider (fetched) "c = ''comments_fetched''" "co = const_col CInt (JInt 0)"
    | (truncated) "c = ''comments_truncated''" "co = const_col CBool (JBool False)"
    | (time) "c = ''last_comments_fetch_at''" "co = col CTime True"
    | (other) "c \<noteq> ''comments_fetched''" "c \<noteq> ''comments_truncated''" "c \<noteq> ''last_comments_fetch_at''"
    using m counter_columns by (metis option.inject)
  note cs = this
  show "co_unique co \<or> co_fk co \<noteq> None \<Longrightarrow> f r c = r c"
    by (rule cs) (simp_all add: assms(4) const_col_def col_def)
  show "fits (co_type co) (r c) \<Longrightarrow> fits (co_type co) (f r c)"
    by (rule cs) (use assms(2) fit in \<open>simp_all add: assms(4) const_col_def col_def\<close>)
  show "r c \<noteq> VNull \<Longrightarrow> f r c \<noteq> VNull"
    by (rule cs) (use assms(3) in \<open>simp_all add: assms(4)\<close>)
qed

lemma mark_fetched_keeps: "preserves crawl_ok (mark_fetched now post n truncated)"
proof (rule preservesI)
  fix db
  assume ok: "crawl_ok db"
  let ?b = "post ''comments_truncated'' = VJson (JBool True) \<or> truncated"
  let ?f = "\<lambda>r. r(''comments_fetched'' := VJson (JInt n), ''comments_truncated'' := VJson (JBool ?b),
     ''last_comments_fetch_at'' := VTime now)"
  let ?db' = "set_rows Post (tbl_update (\<lambda>r. r ''id'') (post ''id'') ?f (entity_rows db Post)) db"
  have "db_ok ?db'" if n: "fits CInt (VJson (JInt n))"
  proof (rule update_row_db_ok)
    note column = counter_update_column [OF _ n _ refl, where b = ?b and t = now]
    show "db_ok db" using ok by (simp add: crawl_ok_def)
    show "?f r ''id'' = r ''id''" for r :: row by simp
    show "?f r c = r c" if "(c, co) \<in> set (columns_of Post)" "co_unique co \<or> co_fk co \<noteq> None" for r c co
      using column(1) [OF that(1) _ that(2)] by blast
    show "row_violation Post (?f r) = None" if "row_violation Post r = None" for r
    proof -
      have "fits (co_type co) (?f r c) \<and> (co_null co \<or> ?f r c \<noteq> VNull)" if c: "(c, co) \<in> set (columns_of Post)" for c co
      proof -
        have "fits (co_type co) (r c)" "co_null co \<or> r c \<noteq> VNull"
          using \<open>row_violation Post r = None\<close> c unfolding row_violation_None by fast+
        then show ?thesis using column(2,3) [OF c] by blast
      qed
      then show ?thesis unfolding row_violation_None by fast
    qed
  qed
  moreover have "crawl_tasks ?db' = crawl_tasks db" "stats_rows ?db' = stats_rows db"
    by (simp_all add: set_rows_def)
  ultimately show "crawl_ok (snd (mark_fetched now post n truncated db))"
    using ok queue_ok_cong [of ?db' db] stats_ok_cong [of ?db' db] by (simp add: mark_fetched_def crawl_ok_def)
qed

section \<open>Invariants kept by the handlers\<close>

text \<open>The kinds of task that the program enqueues, with \<open>search_probe\<close>, which only an operator does.\<close>

definition crawl_kinds :: "string list" where
  "crawl_kinds = [''fetch_post_comments'', ''poll_posts_feed'', ''fetch_post'', ''search_probe'',
     ''list_submolts'', ''fetch_submolt'']"

text \<open>
  The interface between an invariant of the database and the handlers: when the four kinds of
  statement they execute keep it, so do the handlers, which is proved once, here and in the theories
  of the handlers.
\<close>

named_theorems keeps \<open>actions that keep the invariant at hand\<close>

locale crawl_invariant =
  fixes I :: "crawl_db \<Rightarrow> bool"
  assumes upsert_I: "preserves I (enrichment_upsert e cols auth now vals)"
    and enqueue_I: "kind \<in> set crawl_kinds \<Longrightarrow> preserves I (insert_task now i kind params key priority)"
    and stats_I: "preserves I (insert_stats e r)"
    and counter_I: "preserves I (mark_fetched now post n truncated)"
begin

lemma upserts_I [keeps]:
  "preserves I (upsert_agent now auth vals)"
  "preserves I (upsert_submolt now auth vals)"
  "preserves I (upsert_post now auth vals)"
  "preserves I (upsert_comment now auth vals)"
  by (simp_all add: upsert_agent_def upsert_submolt_def upsert_post_def upsert_comment_def upsert_I)

lemma env_enqueue_I [keeps]:
  "kind \<in> set crawl_kinds \<Longrightarrow> preserves I (env_enqueue env kind params priority)"
  by (simp add: env_enqueue_def enqueue_def enqueue_I)

lemma commit_stats_I [keeps]: "preserves I (commit_stats e pending)"
  unfolding commit_stats_def by (rule preserves_for_each) (rule stats_I)

lemma upsert_author_I [keeps]: "preserves I (upsert_author env author)"
  unfolding upsert_author_def
  by (auto intro!: preserves_bind keeps split: json.split option.split)

lemma select_post_I [keeps]: "preserves I (select_post post_id)"
  by (rule preservesI) (simp add: select_post_def split: json.split)

declare counter_I [keeps]

end

text \<open>A handler runs in a transaction, so a worker sees the invariant whether it succeeds or not.\<close>

lemma run_handler_keeps: "preserves I (h params) \<Longrightarrow> preserves I (run_handler h params)"
  by (auto simp: run_handler_def preserves_def split: prod.split sum.split)

interpretation ok: crawl_invariant crawl_ok
  by unfold_locales (simp_all add: upsert_keeps insert_task_keeps insert_stats_keeps mark_fetched_keeps)

text \<open>Every task in the queue is of a kind that has a handler.\<close>

definition kinds_known :: "crawl_db \<Rightarrow> bool" where
  "kinds_known db \<longleftrightarrow> list_all (\<lambda>t. ct_kind t \<in> set crawl_kinds) (crawl_tasks db)"

interpretation kinds: crawl_invariant kinds_known
  by unfold_locales
     (auto simp: preserves_def kinds_known_def upsert_frame insert_task_def tbl_insert_def insert_stats_def
       mark_fetched_def set_rows_def)

end
