(* ===== verification/Comments.thy ===== *)
theory Comments
  imports Handlers "HOL-Library.AList" "HOL-Library.Multiset"
begin

text \<open>
  The ordering of a batch of comments: \<open>_comment_row\<close> and \<open>_topological_sort_comment_rows\<close> of
  \<open>textlake/handlers/comments.py\<close>. Dictionaries are association lists in insertion order.
\<close>

section \<open>Rows\<close>

record comment_row =
  cr_id :: string
  cr_post_id :: json
  cr_parent_id :: "string option"
  cr_author_name :: "string option"
  cr_author_id :: "string option"
  cr_content :: json
  cr_created_at_src :: "seconds option"
  cr_upvotes :: json
  cr_downvotes :: json
  cr_raw_json :: "(string \<times> json) list"

definition comment_values :: "comment_row \<Rightarrow> colvals" where
  "comment_values r =
     [(''id'', VJson (JStr (cr_id r))), (''post_id'', to_val (cr_post_id r)),
      (''parent_id'', opt_str (cr_parent_id r)), (''author_name'', opt_str (cr_author_name r)),
      (''author_id'', opt_str (cr_author_id r)), (''content'', to_val (cr_content r)),
      (''created_at_src'', opt_time (cr_created_at_src r)), (''upvotes'', to_val (cr_upvotes r)),
      (''downvotes'', to_val (cr_downvotes r)), (''raw_json'', VJson (JObj (cr_raw_json r)))]"

definition mk_comment_row ::
  "crawl_lib \<Rightarrow> (string \<times> json) list \<Rightarrow> json \<Rightarrow> (comment_row option) result" where
  "mk_comment_row lib data post_id =
     (let cid = dict_get data ''id''
      in if \<not> py_truthy cid then Inr None
         else bind_res (author_stub lib data) (\<lambda>agent.
              bind_res (parse_ts lib (dict_get data ''created_at'')) (\<lambda>created.
              Inr (Some
                \<lparr>cr_id = py_str (cl_repr lib) cid, cr_post_id = post_id,
                 cr_parent_id = (case dict_get data ''parent_id'' of
                                   JNull \<Rightarrow> None | p \<Rightarrow> Some (py_str (cl_repr lib) p)),
                 cr_author_name = (case agent of None \<Rightarrow> None | Some a \<Rightarrow> stub_str a ''name''),
                 cr_author_id = (case agent of None \<Rightarrow> None | Some a \<Rightarrow> stub_str a ''id''),
                 cr_content = py_or (dict_get data ''content'')
                                (py_or (dict_get data ''body'') (JStr [])),
                 cr_created_at_src = created, cr_upvotes = dict_get data ''upvotes'',
                 cr_downvotes = dict_get data ''downvotes'', cr_raw_json = data\<rparr>))))"

section \<open>The sort\<close>

definition setdefault_append :: "string \<Rightarrow> string \<Rightarrow> (string \<times> string list) list \<Rightarrow> (string \<times> string list) list" where
  "setdefault_append p c m =
     AList.update p ((case map_of m p of None \<Rightarrow> [] | Some l \<Rightarrow> l) @ [c]) m"

text \<open>The first loop: \<open>children_by_parent\<close> and \<open>in_degree\<close>.\<close>

definition count_row ::
  "string set \<Rightarrow> (string \<times> string list) list \<times> (string \<times> int) list \<Rightarrow> comment_row
   \<Rightarrow> (string \<times> string list) list \<times> (string \<times> int) list" where
  "count_row batch_ids = (\<lambda>(children, in_degree) r.
     (case cr_parent_id r of
        Some p \<Rightarrow>
          if p \<in> batch_ids
          then (setdefault_append p (cr_id r) children, AList.update (cr_id r) 1 in_degree)
          else (children, AList.update (cr_id r) 0 in_degree)
      | None \<Rightarrow> (children, AList.update (cr_id r) 0 in_degree)))"

text \<open>The inner loop's body for one child. Every child has an entry, so the \<open>KeyError\<close> of a missing
  one does not occur.\<close>

definition visit_child :: "(string \<times> int) list \<times> string list \<Rightarrow> string \<Rightarrow> (string \<times> int) list \<times> string list" where
  "visit_child = (\<lambda>(in_degree, ready) child.
     (case map_of in_degree child of
        None \<Rightarrow> (in_degree, ready)
      | Some d \<Rightarrow> (AList.update child (d - 1) in_degree,
                   if d - 1 = 0 then ready @ [child] else ready)))"

definition open_degrees :: "(string \<times> int) list \<Rightarrow> nat" where
  "open_degrees in_degree = sum_list (map (\<lambda>(_, d). nat d) in_degree)"

lemma open_degrees_decrement:
  "map_of m c = Some d \<Longrightarrow> open_degrees (AList.update c (d - 1) m) + (if 0 < d then 1 else 0) = open_degrees m"
  by (induction m) (auto simp: open_degrees_def)

lemma visit_child_measure:
  "length (snd (visit_child s c)) + open_degrees (fst (visit_child s c)) \<le> length (snd s) + open_degrees (fst s)"
proof (cases "map_of (fst s) c")
  case None
  then show ?thesis by (simp add: visit_child_def case_prod_beta)
next
  case (Some d)
  then show ?thesis
    using open_degrees_decrement [OF Some] by (auto simp: visit_child_def case_prod_beta)
qed

lemma visit_children_measure:
  "length (snd (foldl visit_child s cs)) + open_degrees (fst (foldl visit_child s cs))
     \<le> length (snd s) + open_degrees (fst s)"
proof (induction cs arbitrary: s)
  case (Cons c cs)
  show ?case
    unfolding foldl.simps by (rule order_trans [OF Cons.IH visit_child_measure])
qed simp

text \<open>The loop \<open>while ready\<close>: every turn takes one element out, and every element put in uses up one
  degree, so it ends.\<close>

function kahn ::
  "(string \<times> comment_row) list \<Rightarrow> (string \<times> string list) list \<Rightarrow> (string \<times> int) list \<Rightarrow> string list
   \<Rightarrow> comment_row list \<Rightarrow> comment_row list" where
  "kahn rows_by_id children in_degree [] sorted_rows = sorted_rows"
| "kahn rows_by_id children in_degree (cid # ready) sorted_rows =
     (let (in_degree', ready') =
            foldl visit_child (in_degree, ready) (case map_of children cid of None \<Rightarrow> [] | Some l \<Rightarrow> l)
      in kahn rows_by_id children in_degree' ready'
           (case map_of rows_by_id cid of None \<Rightarrow> sorted_rows | Some r \<Rightarrow> sorted_rows @ [r]))"
  by pat_completeness auto
termination
proof (relation "measure (\<lambda>(_, _, in_degree, ready, _). length ready + open_degrees in_degree)", goal_cases)
  case (2 rows_by_id children in_degree cid ready sorted_rows x in_degree' ready')
  have "length ready' + open_degrees in_degree' \<le> length ready + open_degrees in_degree"
    using visit_children_measure [of "(in_degree, ready)" "case map_of children cid of None \<Rightarrow> [] | Some l \<Rightarrow> l"]
    unfolding 2(1) [symmetric] 2(2) [symmetric] by simp
  then show ?case by simp
qed simp

definition topological_sort_comment_rows :: "comment_row list \<Rightarrow> string set \<Rightarrow> comment_row list" where
  "topological_sort_comment_rows rows batch_ids =
     (let rows_by_id = foldl (\<lambda>m r. AList.update (cr_id r) r m) [] rows;
          (children, in_degree) = foldl (count_row batch_ids) ([], []) rows;
          ready = filter (\<lambda>c. map_of in_degree c = Some 0) (map fst rows_by_id);
          sorted_rows = kahn rows_by_id children in_degree ready [];
          output_ids = set (map cr_id sorted_rows)
      in sorted_rows @ map (\<lambda>r. r\<lparr>cr_parent_id := None\<rparr>)
           (filter (\<lambda>r. cr_id r \<notin> output_ids) rows))"

section \<open>The dictionaries the first loop builds\<close>

definition batch :: "comment_row list \<Rightarrow> string set" where
  "batch rows = set (map cr_id rows)"

text \<open>The parent of a row when it is in the batch.\<close>

definition parent_in :: "string set \<Rightarrow> comment_row \<Rightarrow> string option" where
  "parent_in ids r = (case cr_parent_id r of None \<Rightarrow> None | Some p \<Rightarrow> if p \<in> ids then Some p else None)"

definition children_of :: "(string \<times> string list) list \<Rightarrow> string \<Rightarrow> string list" where
  "children_of children p = (case map_of children p of None \<Rightarrow> [] | Some l \<Rightarrow> l)"

definition child_ids :: "string set \<Rightarrow> comment_row list \<Rightarrow> string \<Rightarrow> string list" where
  "child_ids ids rows p = map cr_id (filter (\<lambda>r. parent_in ids r = Some p) rows)"

lemma count_row_eq:
  "count_row ids (ch, deg) r =
     (case parent_in ids r of
        None \<Rightarrow> (ch, AList.update (cr_id r) 0 deg)
      | Some p \<Rightarrow> (setdefault_append p (cr_id r) ch, AList.update (cr_id r) 1 deg))"
  by (simp add: count_row_def parent_in_def split: option.splits)

lemma children_of_append:
  "children_of (setdefault_append p c ch) q = (if q = p then children_of ch p @ [c] else children_of ch q)"
  by (simp add: children_of_def setdefault_append_def update_conv')

lemma count_rows_children:
  "children_of (fst (foldl (count_row ids) s rows)) p = children_of (fst s) p @ child_ids ids rows p"
proof (induction rows arbitrary: s)
  case Nil
  then show ?case by (simp add: child_ids_def)
next
  case (Cons r rows)
  obtain ch deg where s: "s = (ch, deg)" by force
  show ?case
    by (simp add: Cons.IH s count_row_eq child_ids_def children_of_append split: option.split)
qed

lemma count_rows_degree:
  "distinct (map cr_id rows) \<Longrightarrow>
   map_of (snd (foldl (count_row ids) s rows)) c =
     (case find (\<lambda>r. cr_id r = c) rows of
        None \<Rightarrow> map_of (snd s) c
      | Some r \<Rightarrow> Some (if parent_in ids r = None then 0 else 1))"
proof (induction rows arbitrary: s)
  case Nil
  then show ?case by simp
next
  case (Cons r rows)
  obtain ch deg where s: "s = (ch, deg)" by force
  from Cons.prems have d: "distinct (map cr_id rows)" by simp
  from Cons.prems have "find (\<lambda>r'. cr_id r' = cr_id r) rows = None"
    by (simp add: find_None_iff) (metis image_eqI)
  with d show ?case
    unfolding foldl.simps Cons.IH [OF d]
    by (auto simp: s count_row_eq update_conv' split: option.split)
qed

lemma update_fresh: "k \<notin> fst ` set m \<Longrightarrow> AList.update k v m = m @ [(k, v)]"
  by (induction m) auto

lemma rows_by_id_eq:
  assumes "distinct (map cr_id rows)" "fst ` set m \<inter> batch rows = {}"
  shows "foldl (\<lambda>m r. AList.update (cr_id r) r m) m rows = m @ map (\<lambda>r. (cr_id r, r)) rows"
  using assms
proof (induction rows arbitrary: m)
  case (Cons r rows)
  have "cr_id r \<notin> fst ` set m" using Cons.prems by (auto simp: batch_def)
  moreover have "fst ` set (m @ [(cr_id r, r)]) \<inter> batch rows = {}"
    using Cons.prems by (auto simp: batch_def)
  ultimately show ?case using Cons.IH Cons.prems by (simp add: update_fresh)
qed simp

lemma map_of_rows:
  assumes "distinct (map cr_id rows)" "r \<in> set rows"
  shows "map_of (map (\<lambda>r. (cr_id r, r)) rows) (cr_id r) = Some r"
    and "find (\<lambda>r'. cr_id r' = cr_id r) rows = Some r"
  using assms by (induction rows) (auto simp: rev_image_eqI)

lemma find_id_None: "find (\<lambda>r. cr_id r = c) rows = None \<longleftrightarrow> c \<notin> batch rows"
  by (auto simp: batch_def find_None_iff)

section \<open>The invariant of the loop\<close>

text \<open>A row is released when it has no parent in the batch or its parent has been put out.\<close>

definition released :: "comment_row list \<Rightarrow> comment_row list \<Rightarrow> comment_row \<Rightarrow> bool" where
  "released rows out r =
     (case parent_in (batch rows) r of None \<Rightarrow> True | Some p \<Rightarrow> p \<in> batch out)"

text \<open>Every row comes after its parent.\<close>

definition parents_first :: "string set \<Rightarrow> comment_row list \<Rightarrow> bool" where
  "parents_first ids out =
     list_all (\<lambda>i. case parent_in ids (out ! i) of None \<Rightarrow> True | Some p \<Rightarrow> p \<in> set (map cr_id (take i out)))
       [0..<length out]"

definition kahn_inv ::
  "comment_row list \<Rightarrow> (string \<times> int) list \<Rightarrow> string list \<Rightarrow> comment_row list \<Rightarrow> bool" where
  "kahn_inv rows deg ready out \<longleftrightarrow>
     distinct (map cr_id out @ ready) \<and> set out \<subseteq> set rows \<and> set ready \<subseteq> batch rows \<and>
     (\<forall>r\<in>set rows. map_of deg (cr_id r) = Some (if released rows out r then 0 else 1)) \<and>
     (\<forall>r\<in>set rows. released rows out r \<longleftrightarrow> cr_id r \<in> batch out \<union> set ready) \<and>
     parents_first (batch rows) out"

lemma parents_first_snoc:
  "parents_first ids (out @ [r]) \<longleftrightarrow>
     parents_first ids out \<and> (case parent_in ids r of None \<Rightarrow> True | Some p \<Rightarrow> p \<in> batch out)"
  by (auto simp: parents_first_def batch_def nth_append list_all_iff split: option.splits)

lemma released_snoc:
  "released rows (out @ [r]) x \<longleftrightarrow> released rows out x \<or> parent_in (batch rows) x = Some (cr_id r)"
  by (auto simp: released_def batch_def split: option.split)

lemma visit_children_fold:
  "distinct cs \<Longrightarrow> \<forall>c\<in>set cs. map_of deg c = Some 1 \<Longrightarrow>
   snd (foldl visit_child (deg, ready) cs) = ready @ cs \<and>
   map_of (fst (foldl visit_child (deg, ready) cs)) = (\<lambda>c. if c \<in> set cs then Some 0 else map_of deg c)"
proof (induction cs arbitrary: deg ready)
  case (Cons c cs)
  have "\<forall>x\<in>set cs. map_of (AList.update c 0 deg) x = Some 1"
    using Cons.prems by (auto simp: update_conv')
  from Cons.IH [OF _ this, of "ready @ [c]"] Cons.prems show ?case
    by (auto simp: visit_child_def update_conv' fun_eq_iff)
qed simp

lemma same_id: "distinct (map cr_id rows) \<Longrightarrow> r \<in> set rows \<Longrightarrow> x \<in> set rows \<Longrightarrow> cr_id x = cr_id r \<Longrightarrow> x = r"
  by (metis distinct_map inj_onD)

lemma set_child_ids:
  "set (child_ids ids rows p) = {cr_id r |r. r \<in> set rows \<and> parent_in ids r = Some p}"
  by (auto simp: child_ids_def)

lemma distinct_child_ids: "distinct (map cr_id rows) \<Longrightarrow> distinct (child_ids ids rows p)"
  unfolding child_ids_def by (rule distinct_map_filter)

text \<open>One turn of \<open>while ready\<close>.\<close>

lemma kahn_inv_step:
  assumes inv: "kahn_inv rows deg (cr_id r # ready) out"
    and d: "distinct (map cr_id rows)" and r: "r \<in> set rows"
    and cs: "cs = child_ids (batch rows) rows (cr_id r)"
    and deg': "map_of deg' = (\<lambda>c. if c \<in> set cs then Some 0 else map_of deg c)"
  shows "kahn_inv rows deg' (ready @ cs) (out @ [r])"
proof -
  let ?child = "\<lambda>x. parent_in (batch rows) x = Some (cr_id r)"
  have fresh: "cr_id r \<notin> batch out" "cr_id r \<notin> set ready" "distinct (map cr_id out @ ready)"
    using inv by (auto simp: kahn_inv_def batch_def)
  have child: "x \<in> set rows \<Longrightarrow> ?child x \<Longrightarrow> cr_id x \<notin> batch out \<union> set (cr_id r # ready)" for x
    using inv fresh by (auto simp: kahn_inv_def released_def)
  have mem: "x \<in> set rows \<Longrightarrow> cr_id x \<in> set cs \<longleftrightarrow> ?child x" for x
    using same_id [OF d] by (auto simp: cs set_child_ids)
  have "set cs \<inter> (batch out \<union> set (cr_id r # ready)) = {}"
    using child by (force simp: cs set_child_ids)
  then have dist: "distinct (map cr_id (out @ [r]) @ ready @ cs)"
    using fresh distinct_child_ids [OF d, of "batch rows" "cr_id r", folded cs]
    by (auto simp: batch_def)
  have rel: "released rows out r" using inv r by (simp add: kahn_inv_def)
  show ?thesis
    unfolding kahn_inv_def
  proof (intro conjI ballI)
    show "set (ready @ cs) \<subseteq> batch rows"
      using inv by (auto simp: kahn_inv_def cs set_child_ids batch_def)
    show "map_of deg' (cr_id x) = Some (if released rows (out @ [r]) x then 0 else 1)" if "x \<in> set rows" for x
      using inv that mem [OF that] by (auto simp: kahn_inv_def deg' released_snoc)
    show "released rows (out @ [r]) x \<longleftrightarrow> cr_id x \<in> batch (out @ [r]) \<union> set (ready @ cs)"
      if "x \<in> set rows" for x
      using inv that mem [OF that] by (auto simp: kahn_inv_def released_snoc batch_def)
    show "parents_first (batch rows) (out @ [r])"
      using inv rel by (simp add: kahn_inv_def parents_first_snoc released_def)
  qed (use dist inv r in \<open>auto simp: kahn_inv_def\<close>)
qed

lemma kahn_inv_result:
  assumes "kahn_inv rows deg ready out" and d: "distinct (map cr_id rows)"
    and "\<forall>p. children_of children p = child_ids (batch rows) rows p"
  shows "\<exists>deg'. kahn_inv rows deg' []
           (kahn (map (\<lambda>r. (cr_id r, r)) rows) children deg ready out)"
  using assms
proof (induction "map (\<lambda>r. (cr_id r, r)) rows" children deg ready out rule: kahn.induct)
  case (1 children deg out)
  show ?case unfolding kahn.simps using "1.prems"(1) by (rule exI)
next
  case (2 children deg cid ready out)
  let ?cs = "child_ids (batch rows) rows cid"
  obtain r where r: "r \<in> set rows" "cid = cr_id r"
    using "2.prems"(1) by (auto simp: kahn_inv_def batch_def)
  have child: "x \<in> set rows \<Longrightarrow> parent_in (batch rows) x = Some cid \<Longrightarrow> map_of deg (cr_id x) = Some 1" for x
    using "2.prems"(1) r by (auto simp: kahn_inv_def released_def batch_def)
  obtain deg' where step: "foldl visit_child (deg, ready) ?cs = (deg', ready @ ?cs)"
    and deg': "map_of deg' = (\<lambda>c. if c \<in> set ?cs then Some 0 else map_of deg c)"
    using visit_children_fold [OF distinct_child_ids [OF d], of "batch rows" cid deg ready] child
    by (cases "foldl visit_child (deg, ready) ?cs") (auto simp: set_child_ids)
  have cs: "(case map_of children cid of None \<Rightarrow> [] | Some l \<Rightarrow> l) = ?cs"
    using "2.prems"(3) by (simp add: children_of_def)
  have inv: "kahn_inv rows deg' (ready @ ?cs) (out @ [r])"
    using kahn_inv_step "2.prems"(1) d r deg' by simp
  show ?case
    using "2.hyps" [of "foldl visit_child (deg, ready) ?cs" deg' "ready @ ?cs"] inv "2.prems" step r
    by (simp add: cs [unfolded r] map_of_rows(1) [OF d])
qed

section \<open>The result\<close>

text \<open>A row is rooted when following parents inside the batch ends outside of it.\<close>

inductive rooted :: "comment_row list \<Rightarrow> string \<Rightarrow> bool" for rows where
  root: "r \<in> set rows \<Longrightarrow> parent_in (batch rows) r = None \<Longrightarrow> rooted rows (cr_id r)"
| reply: "r \<in> set rows \<Longrightarrow> parent_in (batch rows) r = Some p \<Longrightarrow> rooted rows p \<Longrightarrow> rooted rows (cr_id r)"

lemma out_rooted:
  "set out \<subseteq> set rows \<Longrightarrow> parents_first (batch rows) out \<Longrightarrow> r \<in> set out \<Longrightarrow> rooted rows (cr_id r)"
proof (induction out arbitrary: r rule: rev_induct)
  case (snoc x out)
  then have sub: "set out \<subseteq> set rows" "parents_first (batch rows) out" and x: "x \<in> set rows"
    and p: "case parent_in (batch rows) x of None \<Rightarrow> True | Some p \<Rightarrow> p \<in> batch out"
    by (simp_all add: parents_first_snoc)
  have "rooted rows (cr_id x)"
    using x p snoc.IH [OF sub] by (auto simp: batch_def split: option.splits intro: rooted.intros)
  then show ?case using snoc.prems(3) snoc.IH [OF sub] by auto
qed simp

lemma rooted_out: "rooted rows c \<Longrightarrow> kahn_inv rows deg [] out \<Longrightarrow> c \<in> batch out"
  by (induction rule: rooted.induct) (auto simp: kahn_inv_def released_def)

lemma parents_first_append:
  "parents_first ids out \<Longrightarrow> \<forall>x\<in>set xs. cr_parent_id x = None \<Longrightarrow> parents_first ids (out @ xs)"
  by (induction xs rule: rev_induct)
     (simp_all add: parents_first_snoc parent_in_def flip: append_assoc)

lemma first_loop_inv:
  assumes d: "distinct (map cr_id rows)"
    and deg: "deg = snd (foldl (count_row (batch rows)) ([], []) rows)"
  shows "kahn_inv rows deg (filter (\<lambda>c. map_of deg c = Some 0) (map cr_id rows)) []"
proof -
  have deg_r: "map_of deg (cr_id r) = Some (if parent_in (batch rows) r = None then 0 else 1)"
    if "r \<in> set rows" for r
    using that by (simp add: deg count_rows_degree [OF d] map_of_rows(2) [OF d])
  have "released rows [] r \<longleftrightarrow> parent_in (batch rows) r = None" for r
    by (simp add: released_def batch_def split: option.split)
  then show ?thesis
    using d deg_r by (auto simp: kahn_inv_def batch_def parents_first_def)
qed

lemma sort_result:
  assumes d: "distinct (map cr_id rows)"
  obtains deg out where "kahn_inv rows deg [] out"
    and "topological_sort_comment_rows rows (batch rows) =
           out @ map (\<lambda>r. r\<lparr>cr_parent_id := None\<rparr>) (filter (\<lambda>r. cr_id r \<notin> batch out) rows)"
proof -
  obtain ch deg where l1: "foldl (count_row (batch rows)) ([], []) rows = (ch, deg)" by force
  let ?ready = "filter (\<lambda>c. map_of deg c = Some 0) (map cr_id rows)"
  have by_id: "foldl (\<lambda>m r. AList.update (cr_id r) r m) [] rows = map (\<lambda>r. (cr_id r, r)) rows"
    using rows_by_id_eq [OF d, of "[]"] by simp
  have ch: "\<forall>p. children_of ch p = child_ids (batch rows) rows p"
    using count_rows_children [of "batch rows" "([], [])" rows] l1 by (simp add: children_of_def)
  have "kahn_inv rows deg ?ready []" using first_loop_inv [OF d] l1 by simp
  from kahn_inv_result [OF this d ch] obtain deg' where
    inv: "kahn_inv rows deg' [] (kahn (map (\<lambda>r. (cr_id r, r)) rows) ch deg ?ready [])" ..
  have "map (fst \<circ> (\<lambda>r. (cr_id r, r))) rows = map cr_id rows" by simp
  then show ?thesis
    by (intro that [OF inv])
       (simp add: topological_sort_comment_rows_def by_id l1 [unfolded batch_def set_map] batch_def Let_def comp_def)
qed

lemma topological_sort_order:
  assumes "distinct (map cr_id rows)"
  shows "parents_first (batch rows) (topological_sort_comment_rows rows (batch rows))"
proof -
  from sort_result [OF assms] obtain deg out where inv: "kahn_inv rows deg [] out"
    and eq: "topological_sort_comment_rows rows (batch rows) =
           out @ map (\<lambda>r. r\<lparr>cr_parent_id := None\<rparr>) (filter (\<lambda>r. cr_id r \<notin> batch out) rows)" .
  have "parents_first (batch rows) out" using inv by (simp add: kahn_inv_def)
  then show ?thesis unfolding eq by (rule parents_first_append) auto
qed

lemma topological_sort_rows:
  assumes d: "distinct (map cr_id rows)"
  shows "mset (topological_sort_comment_rows rows (batch rows)) =
     image_mset (\<lambda>r. if rooted rows (cr_id r) then r else r\<lparr>cr_parent_id := None\<rparr>) (mset rows)"
proof -
  from sort_result [OF d] obtain deg out where inv: "kahn_inv rows deg [] out"
    and eq: "topological_sort_comment_rows rows (batch rows) =
           out @ map (\<lambda>r. r\<lparr>cr_parent_id := None\<rparr>) (filter (\<lambda>r. cr_id r \<notin> batch out) rows)" .
  have sub: "set out \<subseteq> set rows" and dist: "distinct out" and pf: "parents_first (batch rows) out"
    using inv by (auto simp: kahn_inv_def distinct_map)
  have rooted_iff: "rooted rows c \<longleftrightarrow> c \<in> batch out" for c
    using out_rooted [OF sub pf] rooted_out [OF _ inv] by (auto simp: batch_def)
  have "set out = set (filter (\<lambda>r. cr_id r \<in> batch out) rows)"
    using sub same_id [OF d] by (auto simp: batch_def dest: subsetD)
  then have out: "mset out = mset (filter (\<lambda>r. cr_id r \<in> batch out) rows)"
    using dist d by (intro iffD1 [OF set_eq_iff_mset_eq_distinct]) (auto simp: distinct_map)
  show ?thesis
    unfolding eq mset_append out rooted_iff
    by (induction rows) auto
qed

text \<open>C14: sorting a batch of comments. Every comment of the batch comes out exactly once and after its
  parent, if its parent is in the batch too; a comment whose chain of parents leaves the batch is
  unchanged, and exactly those caught in a cycle lose their parent.\<close>

theorem topological_sort_correct:
  assumes "distinct (map cr_id rows)"
  shows "parents_first (set (map cr_id rows)) (topological_sort_comment_rows rows (set (map cr_id rows)))
    \<and> mset (topological_sort_comment_rows rows (set (map cr_id rows))) =
        image_mset (\<lambda>r. if rooted rows (cr_id r) then r else r\<lparr>cr_parent_id := None\<rparr>) (mset rows)"
  using topological_sort_order [OF assms] topological_sort_rows [OF assms] unfolding batch_def by blast

definition ex_row :: "string \<Rightarrow> string option \<Rightarrow> comment_row" where
  "ex_row i p = \<lparr>cr_id = i, cr_post_id = JStr ''p'', cr_parent_id = p, cr_author_name = None,
     cr_author_id = None, cr_content = JNull, cr_created_at_src = None, cr_upvotes = JNull,
     cr_downvotes = JNull, cr_raw_json = []\<rparr>"

text \<open>A reply before its parent, a reply to a comment elsewhere, and a cycle of two.\<close>

definition ex_batch :: "comment_row list" where
  "ex_batch = [ex_row ''b'' (Some ''a''), ex_row ''a'' (Some ''z''), ex_row ''c'' (Some ''d''), ex_row ''d'' (Some ''c'')]"

lemma ex_sorted:
  "topological_sort_comment_rows ex_batch (set (map cr_id ex_batch)) =
     [ex_row ''a'' (Some ''z''), ex_row ''b'' (Some ''a''), ex_row ''c'' None, ex_row ''d'' None]"
  by code_simp

theorem topological_sort_correct_witness:
  "parents_first (set (map cr_id ex_batch))
     [ex_row ''a'' (Some ''z''), ex_row ''b'' (Some ''a''), ex_row ''c'' None, ex_row ''d'' None]"
proof -
  have "distinct (map cr_id ex_batch)" by (simp add: ex_batch_def ex_row_def)
  from topological_sort_correct [OF this] show ?thesis unfolding ex_sorted by blast
qed

end
