(* ===== verification/CommentsHandler.thy ===== *)
theory CommentsHandler
  imports Comments
begin

text \<open>
  \<open>handle_fetch_post_comments\<close> of \<open>textlake/handlers/comments.py\<close>: collecting the rows of a page of
  comments, resolving parents outside of it, and storing everything in dependency order.
\<close>

section \<open>The handler\<close>

text \<open>The first loop; \<open>seen_ids\<close> are the identifiers of the rows collected so far.\<close>

fun collect_rows ::
  "crawl_env \<Rightarrow> json \<Rightarrow> json list \<Rightarrow> comment_row list \<Rightarrow> (crawl_db, comment_row list) action" where
  "collect_rows env post_id [] rows = ret rows"
| "collect_rows env post_id (item # items) rows =
     (case item of
        JObj data \<Rightarrow>
          bind_act (upsert_author env (dict_get data ''author'')) (\<lambda>_.
          bind_act (of_result (mk_comment_row (ce_lib env) data post_id)) (\<lambda>row.
          case row of
            None \<Rightarrow> collect_rows env post_id items rows
          | Some r \<Rightarrow>
              if cr_id r \<in> set (map cr_id rows) then collect_rows env post_id items rows
              else collect_rows env post_id items (rows @ [r])))
      | _ \<Rightarrow> collect_rows env post_id items rows)"

text \<open>A parent is dropped when it is neither in the batch nor in the table.\<close>

definition resolve_parent :: "string set \<Rightarrow> crawl_db \<Rightarrow> comment_row \<Rightarrow> comment_row" where
  "resolve_parent batch_ids db r =
     (case cr_parent_id r of
        None \<Rightarrow> r
      | Some p \<Rightarrow>
          if p \<noteq> [] \<and> p \<notin> batch_ids \<and> \<not> row_exists Comment (VJson (JStr p)) db
          then r\<lparr>cr_parent_id := None\<rparr> else r)"

definition comment_stats :: "crawl_env \<Rightarrow> json \<Rightarrow> stats_row list" where
  "comment_stats env item =
     (case item of
        JObj data \<Rightarrow>
          (let cid = dict_get data ''id''
           in if py_truthy cid then
                [\<lparr>sr_ts = ce_now env, sr_id = py_str (cl_repr (ce_lib env)) cid,
                  sr_values = [(''upvotes'', to_val (dict_get data ''upvotes'')),
                    (''downvotes'', to_val (dict_get data ''downvotes'')), (''raw_json'', VJson item)]\<rparr>]
              else [])
      | _ \<Rightarrow> [])"

definition store_comments :: "crawl_env \<Rightarrow> comment_row list \<Rightarrow> (crawl_db, unit) action" where
  "store_comments env sorted_rows =
     for_each sorted_rows (\<lambda>r. upsert_comment (ce_now env) False (comment_values r))"

text \<open>The counters of the post: what was expected, and whether the page falls short of it.\<close>

definition count_comments ::
  "crawl_env \<Rightarrow> json \<Rightarrow> (string \<times> json) list \<Rightarrow> json list \<Rightarrow> nat \<Rightarrow> (crawl_db, unit) action" where
  "count_comments env post_id data items fetched =
     bind_act (select_post post_id) (\<lambda>post.
     case post of
       None \<Rightarrow> ret ()
     | Some p \<Rightarrow>
         let expected = py_or (dict_get data ''total'')
               (py_or (dict_get data ''comment_count'') (JInt (int (length items))));
             new_fetched = comments_fetched_of p + int fetched
         in bind_act (of_result (int_less new_fetched expected)) (\<lambda>truncated.
            mark_fetched (ce_now env) p new_fetched truncated))"

definition store_page ::
  "crawl_env \<Rightarrow> json \<Rightarrow> (string \<times> json) list \<Rightarrow> json list \<Rightarrow> comment_row list \<Rightarrow> (crawl_db, unit) action" where
  "store_page env post_id data items rows db =
     (let batch_ids = set (map cr_id rows);
          sorted_rows = topological_sort_comment_rows (map (resolve_parent batch_ids db) rows) batch_ids
      in bind_act (store_comments env sorted_rows) (\<lambda>_.
         bind_act (count_comments env post_id data items (length sorted_rows)) (\<lambda>_.
         commit_stats Comment (concat (map (comment_stats env) items)))) db)"

definition handle_fetch_post_comments :: "crawl_env \<Rightarrow> handler" where
  "handle_fetch_post_comments env params =
     bind_act (of_result (json_get params ''post_id'')) (\<lambda>post_id.
     if \<not> py_truthy post_id then ret ()
     else
       bind_act (of_result (case params of
           JObj kvs \<Rightarrow> ce_get env (''/posts/'' @ py_str (cl_repr (ce_lib env)) post_id @ ''/comments'')
             (JObj [(''sort'', dict_get_default kvs ''sort'' (JStr ''top''))])
         | _ \<Rightarrow> Inl AttributeError)) (\<lambda>data.
       bind_act (of_result (feed_items ''comments'' data)) (\<lambda>items.
       bind_act (collect_rows env post_id items []) (\<lambda>rows.
       store_page env post_id (case data of JObj kvs \<Rightarrow> kvs | _ \<Rightarrow> []) items rows))))"

section \<open>Collecting the rows\<close>

text \<open>
  A comment of a well-behaved feed: its author is embedded and named, and a parent identifier is not
  the empty string.
\<close>

definition complete_comment :: "crawl_lib \<Rightarrow> json \<Rightarrow> bool" where
  "complete_comment lib item =
     (case item of
        JObj data \<Rightarrow>
          \<not> py_truthy (dict_get data ''id'') \<or>
          (case dict_get data ''author'' of JObj kvs \<Rightarrow> kvs \<noteq> [] \<and> agent_stub lib kvs \<noteq> Inr None | _ \<Rightarrow> False) \<and>
          py_str (cl_repr lib) (dict_get data ''parent_id'') \<noteq> []
      | _ \<Rightarrow> True)"

definition row_known :: "json \<Rightarrow> crawl_db \<Rightarrow> comment_row \<Rightarrow> bool" where
  "row_known post_id db r \<longleftrightarrow>
     cr_post_id r = post_id \<and> cr_parent_id r \<noteq> Some [] \<and>
     (case cr_author_id r of None \<Rightarrow> True | Some a \<Rightarrow> row_exists Agent (VJson (JStr a)) db)"

lemma row_known_mono: "row_known post_id db r \<Longrightarrow> rows_kept db db' \<Longrightarrow> row_known post_id db' r"
  by (auto simp: row_known_def rows_kept_def split: option.splits)

lemma mk_comment_row_no_fk_error: "no_fk_error (mk_comment_row lib data post_id)"
  unfolding mk_comment_row_def Let_def author_stub_def
  by (auto intro!: no_fk_error_bind agent_stub_no_fk_error parse_ts_no_fk_error split: json.split)

lemma mk_comment_row_known:
  assumes row: "mk_comment_row lib data post_id = Inr (Some r)"
    and complete: "complete_comment lib (JObj data)"
    and authors: "\<And>kvs vals s. dict_get data ''author'' = JObj kvs \<Longrightarrow> agent_stub lib kvs = Inr (Some vals) \<Longrightarrow>
        stub_str vals ''id'' = Some s \<Longrightarrow> row_exists Agent (VJson (JStr s)) db"
  shows "row_known post_id db r"
proof -
  have truthy: "py_truthy (dict_get data ''id'')"
    using row by (auto simp: mk_comment_row_def Let_def split: if_splits)
  then obtain kvs where kvs: "dict_get data ''author'' = JObj kvs" "kvs \<noteq> []"
    and parent: "py_str (cl_repr lib) (dict_get data ''parent_id'') \<noteq> []"
    using complete by (auto simp: complete_comment_def split: json.splits)
  have stub: "author_stub lib data = agent_stub lib kvs"
    using kvs by (simp add: author_stub_def py_or_def)
  from row truthy obtain agent created where a: "agent_stub lib kvs = Inr agent"
    and r: "cr_post_id r = post_id"
      "cr_parent_id r = (case dict_get data ''parent_id'' of JNull \<Rightarrow> None | p \<Rightarrow> Some (py_str (cl_repr lib) p))"
      "cr_author_id r = (case agent of None \<Rightarrow> None | Some a \<Rightarrow> stub_str a ''id'')"
    by (auto simp: mk_comment_row_def Let_def stub)
  have "cr_parent_id r \<noteq> Some []" using parent r(2) by (auto split: json.splits)
  moreover have "case cr_author_id r of None \<Rightarrow> True | Some a \<Rightarrow> row_exists Agent (VJson (JStr a)) db"
    using authors [OF kvs(1)] a r(3) by (auto split: option.splits)
  ultimately show ?thesis using r(1) by (simp add: row_known_def)
qed

lemma collect_rows_no_fk_error:
  "db_ok db \<Longrightarrow> no_fk_error (fst (collect_rows env post_id items rows db))"
proof (induction items arbitrary: rows db)
  case (Cons item items)
  show ?case
    using Cons
    by (cases item)
       (auto intro!: no_fk_error_bind_act upsert_author_no_fk_error mk_comment_row_no_fk_error
         dest: upsert_author_effect split: option.split)
qed simp

lemma collect_rows_spec:
  assumes "collect_rows env post_id items rows db = (Inr rows', db')" and "db_ok db"
    and "\<forall>i\<in>set items. complete_comment (ce_lib env) i"
    and "\<forall>r\<in>set rows. row_known post_id db r" and "distinct (map cr_id rows)"
  shows "db_ok db' \<and> rows_kept db db' \<and> (\<forall>r\<in>set rows'. row_known post_id db' r) \<and> distinct (map cr_id rows')"
  using assms
proof (induction items arbitrary: rows db)
  case Nil
  then show ?case by simp
next
  case (Cons item items)
  show ?case
  proof (cases "\<exists>data. item = JObj data")
    case False
    then have "collect_rows env post_id (item # items) rows = collect_rows env post_id items rows"
      by (cases item) auto
    with Cons show ?thesis by simp
  next
    case True
    then obtain data where item: "item = JObj data" ..
    from Cons.prems(1) obtain x db1 row where
      a: "upsert_author env (dict_get data ''author'') db = (Inr x, db1)"
      and m: "mk_comment_row (ce_lib env) data post_id = Inr row"
      and rest: "(case row of None \<Rightarrow> collect_rows env post_id items rows
          | Some r \<Rightarrow> if cr_id r \<in> set (map cr_id rows) then collect_rows env post_id items rows
                      else collect_rows env post_id items (rows @ [r])) db1 = (Inr rows', db')"
      unfolding item collect_rows.simps json.case bind_act_eq_Inr of_result_apply prod.inject by blast
    note eff = upsert_author_effect [OF a Cons.prems(2)]
    have old: "\<forall>r\<in>set rows. row_known post_id db1 r" using Cons.prems(4) eff row_known_mono by blast
    have new: "row_known post_id db1 r" if "row = Some r" for r
      using mk_comment_row_known [OF m [unfolded that], of db1] eff Cons.prems(3) item by auto
    define rows1 where "rows1 = (case row of None \<Rightarrow> rows
      | Some r \<Rightarrow> if cr_id r \<in> set (map cr_id rows) then rows else rows @ [r])"
    have run: "collect_rows env post_id items rows1 db1 = (Inr rows', db')"
      using rest by (auto simp: rows1_def split: option.splits if_splits)
    have known1: "\<forall>r\<in>set rows1. row_known post_id db1 r"
      using old new by (auto simp: rows1_def split: option.split)
    have dist1: "distinct (map cr_id rows1)"
      using Cons.prems(5) by (auto simp: rows1_def split: option.split)
    from Cons.IH [OF run _ _ known1 dist1] Cons.prems(3) eff show ?thesis
      using rows_kept_trans by auto
  qed
qed

section \<open>Storing the rows\<close>

lemma comment_row_of:
  "row_of now Comment (comment_values r) ''id'' = VJson (JStr (cr_id r))"
  "row_of now Comment (comment_values r) ''post_id'' = to_val (cr_post_id r)"
  "row_of now Comment (comment_values r) ''parent_id'' = opt_str (cr_parent_id r)"
  "row_of now Comment (comment_values r) ''author_id'' = opt_str (cr_author_id r)"
  by (simp_all add: row_of_def comment_values_def)

text \<open>Every row's parent is stored already or stands before it.\<close>

definition parents_known :: "crawl_db \<Rightarrow> comment_row list \<Rightarrow> bool" where
  "parents_known db rs \<longleftrightarrow>
     (\<forall>i<length rs. case cr_parent_id (rs ! i) of None \<Rightarrow> True
        | Some p \<Rightarrow> row_exists Comment (VJson (JStr p)) db \<or> p \<in> set (map cr_id (take i rs)))"

lemma parents_known_Cons:
  assumes "parents_known db (r # rs)" and "rows_kept db db'" and "row_exists Comment (VJson (JStr (cr_id r))) db'"
  shows "case cr_parent_id r of None \<Rightarrow> True | Some p \<Rightarrow> row_exists Comment (VJson (JStr p)) db"
    and "parents_known db' rs"
proof -
  show "case cr_parent_id r of None \<Rightarrow> True | Some p \<Rightarrow> row_exists Comment (VJson (JStr p)) db"
    using assms(1) by (auto simp: parents_known_def split: option.splits dest: spec [of _ 0])
  have "case cr_parent_id (rs ! i) of None \<Rightarrow> True
      | Some p \<Rightarrow> row_exists Comment (VJson (JStr p)) db' \<or> p \<in> set (map cr_id (take i rs))" if "i < length rs" for i
    using assms(1) [unfolded parents_known_def, rule_format, of "Suc i"] that assms(2,3)
    by (auto simp: rows_kept_def split: option.splits)
  then show "parents_known db' rs" by (simp add: parents_known_def)
qed

lemma row_known_refs_ok:
  assumes "row_known post_id db r" and "row_exists Post (to_val post_id) db"
    and "case cr_parent_id r of None \<Rightarrow> True | Some p \<Rightarrow> row_exists Comment (VJson (JStr p)) db"
  shows "refs_ok Comment (row_of now Comment (comment_values r)) db"
  using assms by (auto simp: comment_refs_ok comment_row_of row_known_def opt_str_def split: option.splits)

lemma store_comments_no_fk_error:
  assumes "db_ok db" and "\<forall>r\<in>set rs. row_known post_id db r" and "row_exists Post (to_val post_id) db"
    and "parents_known db rs"
  shows "no_fk_error (fst (store_comments env rs db))"
  using assms
proof (induction rs arbitrary: db)
  case Nil
  then show ?case by (simp add: store_comments_def)
next
  case (Cons r rs)
  let ?up = "upsert_comment (ce_now env) False (comment_values r)"
  have "case cr_parent_id r of None \<Rightarrow> True | Some p \<Rightarrow> row_exists Comment (VJson (JStr p)) db"
    using Cons.prems(4) by (auto simp: parents_known_def split: option.splits dest: spec [of _ 0])
  then have refs: "refs_ok Comment (row_of (ce_now env) Comment (comment_values r)) db"
    using Cons.prems(2,3) by (intro row_known_refs_ok) auto
  have "no_fk_error (fst (store_comments env rs db'))" if "?up db = (Inr x, db')" for x db'
  proof -
    note eff = upsert_effect [OF that [unfolded upsert_comment_def] Cons.prems(1), unfolded comment_row_of]
    show ?thesis
    proof (rule Cons.IH)
      show "db_ok db'" using eff by simp
      show "\<forall>r\<in>set rs. row_known post_id db' r" using Cons.prems(2) eff row_known_mono by auto
      show "row_exists Post (to_val post_id) db'" using Cons.prems(3) eff by (simp add: rows_kept_def)
      show "parents_known db' rs" using parents_known_Cons(2) [OF Cons.prems(4)] eff by blast
    qed
  qed
  then show ?case
    unfolding store_comments_def for_each.simps
    using upsert_no_fk_error [OF Cons.prems(1) refs]
    by (intro no_fk_error_bind_act) (simp_all add: upsert_comment_def)
qed

lemma resolve_parent_known:
  assumes "row_known post_id db q"
  shows "row_known post_id db (resolve_parent ids db q)"
    and "row_known post_id db ((resolve_parent ids db q)\<lparr>cr_parent_id := None\<rparr>)"
    and "case cr_parent_id (resolve_parent ids db q) of None \<Rightarrow> True
      | Some p \<Rightarrow> p \<in> ids \<or> row_exists Comment (VJson (JStr p)) db"
  using assms
  by (cases "cr_parent_id q"; cases "cr_author_id q"; auto simp: resolve_parent_def row_known_def)+

lemma sorted_parents_known:
  assumes d: "distinct (map cr_id rows)" and known: "\<forall>r\<in>set rows. row_known post_id db r"
  defines "resolved \<equiv> map (resolve_parent (batch rows) db) rows"
  shows "parents_known db (topological_sort_comment_rows resolved (batch rows))"
    and "\<forall>r\<in>set (topological_sort_comment_rows resolved (batch rows)). row_known post_id db r"
proof -
  let ?s = "topological_sort_comment_rows resolved (batch rows)"
  have id: "cr_id (resolve_parent B db r) = cr_id r" for B r
    by (simp add: resolve_parent_def split: option.split)
  then have ids: "map cr_id resolved = map cr_id rows" by (simp add: resolved_def)
  then have b: "batch resolved = batch rows" by (simp add: batch_def flip: set_map)
  have d': "distinct (map cr_id resolved)" using d ids by simp
  have "set_mset (mset ?s) = (\<lambda>r. if rooted resolved (cr_id r) then r else r\<lparr>cr_parent_id := None\<rparr>) ` set resolved"
    using topological_sort_rows [OF d'] unfolding b by simp
  then have from_rows: "\<exists>q\<in>set rows. r = resolve_parent (batch rows) db q \<or>
      r = (resolve_parent (batch rows) db q)\<lparr>cr_parent_id := None\<rparr>" if "r \<in> set ?s" for r
    using that by (auto simp: resolved_def split: if_splits)
  have pk: "case cr_parent_id r of None \<Rightarrow> True
      | Some p \<Rightarrow> p \<in> batch rows \<or> row_exists Comment (VJson (JStr p)) db" if r: "r \<in> set ?s" for r
  proof -
    from from_rows [OF r] obtain q where q: "q \<in> set rows"
      "r = resolve_parent (batch rows) db q \<or> r = (resolve_parent (batch rows) db q)\<lparr>cr_parent_id := None\<rparr>" by blast
    then show ?thesis using known resolve_parent_known(3) by auto
  qed
  have pf: "parents_first (batch rows) ?s" using topological_sort_order [OF d'] unfolding b .
  show "parents_known db ?s"
    unfolding parents_known_def
  proof (intro allI impI)
    fix i
    assume i: "i < length ?s"
    have "case parent_in (batch rows) (?s ! i) of None \<Rightarrow> True | Some p \<Rightarrow> p \<in> set (map cr_id (take i ?s))"
      using pf i by (simp add: parents_first_def list_all_iff)
    then show "case cr_parent_id (?s ! i) of None \<Rightarrow> True
        | Some p \<Rightarrow> row_exists Comment (VJson (JStr p)) db \<or> p \<in> set (map cr_id (take i ?s))"
      using pk [OF nth_mem [OF i]] by (auto simp: parent_in_def split: option.splits if_splits)
  qed
  show "\<forall>r\<in>set ?s. row_known post_id db r"
    using from_rows known resolve_parent_known(1,2) by metis
qed

section \<open>The whole handler\<close>

lemma no_fk_error_of_result [simp]: "no_fk_error (fst (of_result r s)) = no_fk_error r"
  by simp

lemma for_each_no_fk_error:
  "(\<And>x s. x \<in> set xs \<Longrightarrow> no_fk_error (fst (f x s))) \<Longrightarrow> no_fk_error (fst (for_each xs f s))"
  by (induction xs arbitrary: s) (auto intro!: no_fk_error_bind_act)

lemma commit_stats_no_fk_error: "no_fk_error (fst (commit_stats e pending db))"
  unfolding commit_stats_def by (rule for_each_no_fk_error) (simp add: insert_stats_def)

lemma count_comments_no_fk_error: "no_fk_error (fst (count_comments env post_id data items n db))"
  unfolding count_comments_def Let_def
  by (rule no_fk_error_bind_act)
     (auto intro!: no_fk_error_bind_act simp: select_post_def mark_fetched_def int_less_def
       split: json.split option.split)

lemma store_page_no_fk_error:
  assumes "db_ok db" and "row_exists Post (to_val post_id) db"
    and "\<forall>r\<in>set rows. row_known post_id db r" and "distinct (map cr_id rows)"
  shows "no_fk_error (fst (store_page env post_id data items rows db))"
  unfolding store_page_def Let_def
  using store_comments_no_fk_error [OF assms(1) sorted_parents_known(2) [OF assms(4,3)] assms(2)
      sorted_parents_known(1) [OF assms(4,3)], of env]
  by (intro no_fk_error_bind_act count_comments_no_fk_error commit_stats_no_fk_error) (simp add: batch_def)

text \<open>C15: comments are stored in an order that respects their foreign keys. When the tables are in order, the post is stored, every comment of
  the page embeds a named author, and no comment has the empty string as its \<open>parent_id\<close>,
  fetching the comments never fails on a missing author, post or parent, whatever replies to what: parents outside the
  page and cycles included. Both conditions on the comments are needed: with only an \<open>author_name\<close> the comment counts as its own
  author, and an empty \<open>parent_id\<close> is stored as it is (lemmas \<open>ex_authorless_fails\<close> and \<open>ex_empty_parent_fails\<close>).\<close>

theorem comments_respect_foreign_keys:
  assumes "db_ok db" and "json_get params ''post_id'' = Inr (JStr pid)"
    and "row_exists Post (VJson (JStr pid)) db"
    and "ce_get env = (\<lambda>path query. Inr data)"
    and "feed_items ''comments'' data = Inr items" and "list_all (complete_comment (ce_lib env)) items"
  shows "fst (handle_fetch_post_comments env params db) \<noteq> Inl (IntegrityError ''foreign key'')"
proof -
  obtain kvs where params: "params = JObj kvs" using assms(2) by (cases params) auto
  have "no_fk_error (fst (bind_act (collect_rows env (JStr pid) items [])
      (\<lambda>rows. store_page env (JStr pid) (case data of JObj kvs \<Rightarrow> kvs | _ \<Rightarrow> []) items rows) db))"
  proof (rule no_fk_error_bind_act)
    show "no_fk_error (fst (collect_rows env (JStr pid) items [] db))"
      by (rule collect_rows_no_fk_error [OF assms(1)])
    fix rows db'
    assume run: "collect_rows env (JStr pid) items [] db = (Inr rows, db')"
    have "\<forall>i\<in>set items. complete_comment (ce_lib env) i" using assms(6) by (simp add: list_all_iff)
    from collect_rows_spec [OF run assms(1) this] have
      "db_ok db'" "rows_kept db db'" "\<forall>r\<in>set rows. row_known (JStr pid) db' r" "distinct (map cr_id rows)"
      by simp_all
    then show "no_fk_error (fst (store_page env (JStr pid) (case data of JObj kvs \<Rightarrow> kvs | _ \<Rightarrow> []) items rows db'))"
      using assms(3) by (intro store_page_no_fk_error) (simp_all add: rows_kept_def to_val_def)
  qed
  then have "no_fk_error (fst (handle_fetch_post_comments env params db))"
    using assms(2,4,5) by (simp add: handle_fetch_post_comments_def params)
  then show ?thesis by (simp add: no_fk_error_def)
qed

section \<open>Invariants\<close>

context crawl_invariant
begin

lemma collect_rows_keeps [keeps]: "preserves I (collect_rows env post_id items rows)"
proof (induction items arbitrary: rows)
  case (Cons item items)
  then show ?case
    by (cases item) (auto intro!: preserves_bind keeps split: option.split)
qed simp

lemma count_comments_keeps [keeps]: "preserves I (count_comments env post_id data items n)"
  unfolding count_comments_def Let_def
  by (rule preserves_bind) (auto intro!: preserves_bind keeps split: option.split)

lemma store_page_keeps [keeps]: "preserves I (store_page env post_id data items rows)"
proof (rule preservesI)
  fix db
  assume "I db"
  have "preserves I (bind_act (store_comments env rs) (\<lambda>_.
      bind_act (count_comments env post_id data items n) (\<lambda>_. commit_stats Comment st)))" for rs n st
    unfolding store_comments_def
    by (intro preserves_bind preserves_for_each keeps)
  from preservesD [OF this \<open>I db\<close>] show "I (snd (store_page env post_id data items rows db))"
    by (simp add: store_page_def Let_def)
qed

lemma fetch_post_comments_keeps [keeps]: "preserves I (handle_fetch_post_comments env params)"
  unfolding handle_fetch_post_comments_def
  by (rule preserves_bind) (auto intro!: preserves_bind keeps)

end

section \<open>A concrete page\<close>

text \<open>A post, and a page with two comments, the reply first.\<close>

definition ex_author :: json where
  "ex_author = JObj [(''id'', JStr ''a1''), (''name'', JStr ''Alice'')]"

definition ex_post_db :: crawl_db where
  "ex_post_db = snd (upsert_post 1 True [(''id'', VJson (JStr ''p'')), (''author_id'', VJson (JStr ''a1'')),
       (''raw_json'', VJson (JObj []))]
     (snd (upsert_agent 1 False (ex_agent_vals JNull) empty_db)))"

definition ex_page :: "json list" where
  "ex_page = [JObj [(''id'', JStr ''c2''), (''author'', ex_author), (''parent_id'', JStr ''c1'')],
              JObj [(''id'', JStr ''c1''), (''author'', ex_author), (''parent_id'', JStr ''elsewhere'')]]"

definition ex_env :: "json \<Rightarrow> crawl_env" where
  "ex_env data = \<lparr>ce_lib = ex_lib, ce_get = (\<lambda>path query. Inr data), ce_now = 5, ce_new_id = (\<lambda>_. 7)\<rparr>"

lemma ex_post_db_ok: "db_ok ex_post_db"
proof -
  have "db_ok empty_db" by (simp add: db_ok_def empty_db_def)
  then show ?thesis by (simp add: ex_post_db_def upsert_post_def upsert_agent_def upsert_db_ok)
qed

lemma ex_post_exists: "row_exists Post (VJson (JStr ''p'')) ex_post_db"
  by code_simp

lemma ex_page_complete: "list_all (complete_comment ex_lib) ex_page"
  by code_simp

theorem comments_respect_foreign_keys_witness:
  "fst (handle_fetch_post_comments (ex_env (JObj [(''comments'', JList ex_page)]))
      (JObj [(''post_id'', JStr ''p'')]) ex_post_db) \<noteq> Inl (IntegrityError ''foreign key'')"
proof (rule comments_respect_foreign_keys [OF ex_post_db_ok _ ex_post_exists])
  show "feed_items ''comments'' (JObj [(''comments'', JList ex_page)]) = Inr ex_page"
    by (simp add: feed_items_def py_or_def ex_page_def)
qed (simp_all add: ex_env_def ex_page_complete)

text \<open>The page is stored, and the reply keeps its parent.\<close>

lemma ex_page_stored:
  "fst (handle_fetch_post_comments (ex_env (JObj [(''comments'', JList ex_page)]))
      (JObj [(''post_id'', JStr ''p'')]) ex_post_db) = Inr ()"
  by code_simp

text \<open>Two pages that fail on a foreign key: \<open>if pid and ...\<close> lets the empty parent through, and \<open>author or data\<close> makes
  the comment its own author.\<close>

lemma ex_empty_parent_fails:
  "fst (handle_fetch_post_comments
      (ex_env (JObj [(''comments'', JList [JObj [(''id'', JStr ''c1''), (''author'', ex_author), (''parent_id'', JStr [])]])]))
      (JObj [(''post_id'', JStr ''p'')]) ex_post_db) = Inl (IntegrityError ''foreign key'')"
  by code_simp

lemma ex_authorless_fails:
  "fst (handle_fetch_post_comments (ex_env (JObj [(''comments'', JList [JObj [(''id'', JStr ''c1''), (''author_name'', JStr ''Alice'')]])]))
      (JObj [(''post_id'', JStr ''p'')]) ex_post_db) = Inl (IntegrityError ''foreign key'')"
  by code_simp

end
