(* ===== verification/PostsHandler.thy ===== *)
theory PostsHandler
  imports Handlers
begin

text \<open>
  The handlers of \<open>textlake/handlers/posts.py\<close>, \<open>submolts.py\<close> and \<open>search.py\<close>: what they read from a
  response, what they store and what they enqueue.
\<close>

section \<open>Rows\<close>

definition created_ts :: "crawl_lib \<Rightarrow> (string \<times> json) list \<Rightarrow> (seconds option) result" where
  "created_ts lib data = parse_ts lib (dict_get data ''created_at'')"

text \<open>\<open>data.get("name") or data.get("slug")\<close> and the identifier of an embedded submolt.\<close>

definition submolt_label :: "(string \<times> json) list \<Rightarrow> json" where
  "submolt_label data = py_or (dict_get data ''name'') (dict_get data ''slug'')"

definition submolt_stub :: "crawl_lib \<Rightarrow> (string \<times> json) list \<Rightarrow> (colvals option) result" where
  "submolt_stub lib data =
     bind_res (strip_json (py_or (submolt_label data) (JStr []))) (\<lambda>name.
     if name = [] then Inr None
     else
       let synthetic = synthetic_submolt_id lib name;
           sid = unwrap_id (py_or (dict_get data ''id'') (JStr synthetic)) synthetic
       in bind_res (created_ts lib data) (\<lambda>created.
          Inr (Some
            [(''id'', VJson (JStr (py_str (cl_repr lib) sid))), (''name'', VJson (JStr name)),
             (''display_name'', to_val (py_or (dict_get data ''display_name'') (JStr name))),
             (''description'', to_val (dict_get data ''description'')),
             (''created_at_src'', opt_time created), (''raw_json'', VJson (JObj data))])))"

definition comment_count_of :: "(string \<times> json) list \<Rightarrow> json" where
  "comment_count_of data = py_or (dict_get data ''comment_count'') (dict_get data ''comments_count'')"

definition submolt_or_self :: "crawl_lib \<Rightarrow> (string \<times> json) list \<Rightarrow> (colvals option \<times> json) result" where
  "submolt_or_self lib data =
     (case py_or (dict_get data ''submolt'') (JObj data) of
        JObj submolt \<Rightarrow> bind_res (submolt_stub lib submolt) (\<lambda>stub. Inr (stub, submolt_label submolt))
      | _ \<Rightarrow> Inr (None, JNull))"

definition post_row :: "crawl_lib \<Rightarrow> (string \<times> json) list \<Rightarrow> (colvals option) result" where
  "post_row lib data =
     (let pid = dict_get data ''id''
      in if \<not> py_truthy pid then Inr None
         else bind_res (author_stub lib data) (\<lambda>agent.
              bind_res (submolt_or_self lib data) (\<lambda>(stub, submolt_name).
              bind_res (created_ts lib data) (\<lambda>created.
              bind_res (parse_ts lib (dict_get data ''updated_at'')) (\<lambda>updated.
              Inr (Some
                [(''id'', VJson (JStr (py_str (cl_repr lib) pid))), (''submolt_name'', to_val submolt_name),
                 (''submolt_id'', stub_field stub ''id''), (''author_name'', stub_field agent ''name''),
                 (''author_id'', stub_field agent ''id''), (''title'', to_val (dict_get data ''title'')),
                 (''content'', to_val (py_or (dict_get data ''content'') (dict_get data ''body''))),
                 (''url'', to_val (dict_get data ''url'')), (''created_at_src'', opt_time created),
                 (''updated_at_src'', opt_time updated), (''upvotes'', to_val (dict_get data ''upvotes'')),
                 (''downvotes'', to_val (dict_get data ''downvotes'')),
                 (''comment_count'', to_val (comment_count_of data)), (''raw_json'', VJson (JObj data))]))))))"

definition submolt_row :: "crawl_lib \<Rightarrow> seconds \<Rightarrow> (string \<times> json) list \<Rightarrow> (colvals option) result" where
  "submolt_row lib now data =
     bind_res (strip_json (py_or (submolt_label data) (JStr []))) (\<lambda>name.
     if name = [] then Inr None
     else
       let synthetic = synthetic_submolt_id lib name;
           sid = unwrap_id (py_or (dict_get data ''id'') (JStr synthetic)) synthetic
       in bind_res (created_ts lib data) (\<lambda>created.
          Inr (Some
            [(''id'', VJson (JStr (py_str (cl_repr lib) sid))), (''name'', VJson (JStr name)),
             (''display_name'', to_val (py_or (dict_get data ''display_name'')
                (py_or (dict_get data ''display_name'') (JStr name)))),
             (''description'', to_val (dict_get data ''description'')),
             (''created_at_src'', opt_time created), (''raw_json'', VJson (JObj data)),
             (''first_seen_at'', VTime now), (''last_seen_at'', VTime now)])))"

section \<open>Statistics\<close>

definition post_stats :: "crawl_env \<Rightarrow> string \<Rightarrow> (string \<times> json) list \<Rightarrow> stats_row" where
  "post_stats env pid data =
     \<lparr>sr_ts = ce_now env, sr_id = pid,
      sr_values = [(''upvotes'', to_val (dict_get data ''upvotes'')),
        (''downvotes'', to_val (dict_get data ''downvotes'')),
        (''comment_count'', to_val (comment_count_of data)), (''raw_json'', VJson (JObj data))]\<rparr>"

definition item_stats :: "crawl_env \<Rightarrow> json \<Rightarrow> stats_row list" where
  "item_stats env item =
     (case item of
        JObj data \<Rightarrow>
          (let pid = dict_get data ''id''
           in if py_truthy pid then [post_stats env (py_str (cl_repr (ce_lib env)) pid) data] else [])
      | _ \<Rightarrow> [])"

definition submolt_stats :: "crawl_env \<Rightarrow> string \<Rightarrow> (string \<times> json) list \<Rightarrow> stats_row" where
  "submolt_stats env sid data =
     \<lparr>sr_ts = ce_now env, sr_id = sid,
      sr_values = [(''subscriber_count'',
          to_val (py_or (dict_get data ''subscriber_count'') (dict_get data ''subscribers''))),
        (''post_count'', to_val (py_or (dict_get data ''post_count'') (dict_get data ''posts_count''))),
        (''raw_json'', VJson (JObj data))]\<rparr>"

section \<open>The handlers\<close>

definition param_or :: "json \<Rightarrow> string \<Rightarrow> json \<Rightarrow> json result" where
  "param_or params k d = (case params of JObj kvs \<Rightarrow> Inr (dict_get_default kvs k d) | _ \<Rightarrow> Inl AttributeError)"

definition upsert_embedded_submolt :: "crawl_env \<Rightarrow> json \<Rightarrow> (crawl_db, unit) action" where
  "upsert_embedded_submolt env submolt =
     (case submolt of
        JObj kvs \<Rightarrow>
          bind_act (of_result (submolt_stub (ce_lib env) kvs)) (\<lambda>stub.
          case stub of None \<Rightarrow> ret () | Some vals \<Rightarrow> upsert_submolt (ce_now env) False vals)
      | _ \<Rightarrow> ret ())"

definition row_id :: "colvals \<Rightarrow> string" where
  "row_id vals = (case stub_str vals ''id'' of None \<Rightarrow> [] | Some s \<Rightarrow> s)"

definition poll_item :: "crawl_env \<Rightarrow> json \<Rightarrow> (crawl_db, unit) action" where
  "poll_item env item =
     (case item of
        JObj data \<Rightarrow>
          bind_act (upsert_author env (dict_get data ''author'')) (\<lambda>_.
          bind_act (upsert_embedded_submolt env (dict_get data ''submolt'')) (\<lambda>_.
          bind_act (of_result (post_row (ce_lib env) data)) (\<lambda>row.
          case row of
            None \<Rightarrow> ret ()
          | Some vals \<Rightarrow>
              bind_act (upsert_post (ce_now env) False vals) (\<lambda>_.
              bind_act (env_enqueue env ''fetch_post'' (JObj [(''post_id'', JStr (row_id vals))]) 6) (\<lambda>_.
              env_enqueue env ''fetch_post_comments''
                (JObj [(''post_id'', JStr (row_id vals)), (''sort'', JStr ''top'')]) 4)))))
      | _ \<Rightarrow> ret ())"

definition handle_poll_posts_feed :: "crawl_env \<Rightarrow> handler" where
  "handle_poll_posts_feed env params =
     bind_act (of_result (param_or params ''sort'' (JStr ''hot''))) (\<lambda>sort_by.
     bind_act (of_result (param_or params ''limit'' (JInt 25))) (\<lambda>limit.
     bind_act (of_result (ce_get env ''/posts'' (JObj [(''sort'', sort_by), (''limit'', limit)]))) (\<lambda>data.
     bind_act (of_result (feed_items ''posts'' data)) (\<lambda>items.
     bind_act (for_each items (poll_item env)) (\<lambda>_.
     commit_stats Post (concat (map (item_stats env) items)))))))"

text \<open>The last part of \<open>fetch_post\<close>: the comments are fetched when the API counts more of them.\<close>

definition enqueue_comments :: "crawl_env \<Rightarrow> json \<Rightarrow> json \<Rightarrow> (crawl_db, unit) action" where
  "enqueue_comments env post_id api_comment_count =
     (if api_comment_count = JNull then ret ()
      else bind_act (select_post post_id) (\<lambda>post.
        case post of
          None \<Rightarrow> ret ()
        | Some p \<Rightarrow>
            bind_act (of_result (int_less (comments_fetched_of p) api_comment_count)) (\<lambda>more.
            when_act more (env_enqueue env ''fetch_post_comments''
              (JObj [(''post_id'', post_id), (''sort'', JStr ''top'')]) 5))))"

definition store_post :: "crawl_env \<Rightarrow> json \<Rightarrow> (string \<times> json) list \<Rightarrow> (crawl_db, unit) action" where
  "store_post env post_id data =
     bind_act (upsert_author env (dict_get data ''author'')) (\<lambda>_.
     bind_act (upsert_embedded_submolt env (dict_get data ''submolt'')) (\<lambda>_.
     bind_act (of_result (post_row (ce_lib env) data)) (\<lambda>row.
     case row of
       None \<Rightarrow> ret ()
     | Some vals \<Rightarrow>
         bind_act (upsert_post (ce_now env) True vals) (\<lambda>_.
         bind_act (enqueue_comments env post_id (comment_count_of data)) (\<lambda>_.
         commit_stats Post [post_stats env (py_str (cl_repr (ce_lib env)) (dict_get_default data ''id'' post_id)) data])))))"

definition handle_fetch_post :: "crawl_env \<Rightarrow> handler" where
  "handle_fetch_post env params =
     bind_act (of_result (json_get params ''post_id'')) (\<lambda>post_id.
     if \<not> py_truthy post_id then ret ()
     else bind_act (of_result (ce_get env (''/posts/'' @ py_str (cl_repr (ce_lib env)) post_id) (JObj []))) (\<lambda>data.
       case data of JObj kvs \<Rightarrow> store_post env post_id kvs | _ \<Rightarrow> ret ()))"

definition list_item :: "crawl_env \<Rightarrow> json \<Rightarrow> (crawl_db, unit) action" where
  "list_item env item =
     (case item of
        JObj data \<Rightarrow>
          bind_act (of_result (submolt_row (ce_lib env) (ce_now env) data)) (\<lambda>row.
          case row of
            None \<Rightarrow> ret ()
          | Some vals \<Rightarrow>
              bind_act (upsert_submolt (ce_now env) False vals) (\<lambda>_.
              env_enqueue env ''fetch_submolt''
                (JObj [(''name'', case stub_str vals ''name'' of None \<Rightarrow> JNull | Some n \<Rightarrow> JStr n)]) 5))
      | _ \<Rightarrow> ret ())"

definition handle_list_submolts :: "crawl_env \<Rightarrow> handler" where
  "handle_list_submolts env params =
     bind_act (of_result (ce_get env ''/submolts'' (py_or params (JObj [])))) (\<lambda>data.
     bind_act (of_result (feed_items ''submolts'' data)) (\<lambda>items.
     for_each items (list_item env)))"

definition store_submolt :: "crawl_env \<Rightarrow> (string \<times> json) list \<Rightarrow> (crawl_db, unit) action" where
  "store_submolt env data =
     bind_act (of_result (submolt_row (ce_lib env) (ce_now env) data)) (\<lambda>row.
     case row of
       None \<Rightarrow> ret ()
     | Some vals \<Rightarrow>
         bind_act (upsert_submolt (ce_now env) True vals) (\<lambda>_.
         commit_stats Submolt [submolt_stats env (row_id vals) data]))"

definition handle_fetch_submolt :: "crawl_env \<Rightarrow> handler" where
  "handle_fetch_submolt env params =
     bind_act (of_result (json_get params ''name'')) (\<lambda>name.
     if \<not> py_truthy name then ret ()
     else bind_act (of_result (ce_get env (''/submolts/'' @ py_str (cl_repr (ce_lib env)) name) (JObj []))) (\<lambda>data.
       case data of JObj kvs \<Rightarrow> store_submolt env kvs | _ \<Rightarrow> ret ()))"

definition probe_item :: "crawl_env \<Rightarrow> json \<Rightarrow> (crawl_db, unit) action" where
  "probe_item env item =
     (case item of
        JObj data \<Rightarrow>
          if py_truthy (dict_get data ''id'') \<and> py_truthy (dict_get data ''title'')
          then bind_act (of_result (post_row (ce_lib env) data)) (\<lambda>row.
            case row of None \<Rightarrow> ret () | Some vals \<Rightarrow> upsert_post (ce_now env) False vals)
          else ret ()
      | _ \<Rightarrow> ret ())"

definition handle_search_probe :: "crawl_env \<Rightarrow> handler" where
  "handle_search_probe env params =
     (case params of
        JObj kvs \<Rightarrow>
          (let q = py_or (dict_get kvs ''q'') (dict_get kvs ''query'')
           in if \<not> py_truthy q then ret ()
              else bind_act (of_result (ce_get env ''/search''
                  (JObj [(''q'', q), (''limit'', dict_get_default kvs ''limit'' (JInt 25))]))) (\<lambda>data.
                case data of
                  JObj d \<Rightarrow>
                    (case py_or (dict_get d ''items'') (py_or (dict_get d ''data'') (py_or (dict_get d ''results'') (JList []))) of
                       JList items \<Rightarrow> for_each items (probe_item env)
                     | _ \<Rightarrow> ret ())
                | _ \<Rightarrow> ret ()))
      | _ \<Rightarrow> raise_exn AttributeError)"

section \<open>Invariants\<close>

context crawl_invariant
begin

lemma embedded_submolt_keeps [keeps]: "preserves I (upsert_embedded_submolt env submolt)"
  unfolding upsert_embedded_submolt_def
  by (auto intro!: preserves_bind keeps simp: crawl_kinds_def split: json.split option.split)

lemma poll_item_keeps [keeps]: "preserves I (poll_item env item)"
  unfolding poll_item_def by (auto intro!: preserves_bind keeps simp: crawl_kinds_def split: json.split option.split)

lemma poll_posts_feed_keeps [keeps]: "preserves I (handle_poll_posts_feed env params)"
  unfolding handle_poll_posts_feed_def by (auto intro!: preserves_bind preserves_for_each keeps simp: crawl_kinds_def)

lemma enqueue_comments_keeps [keeps]: "preserves I (enqueue_comments env post_id n)"
  unfolding enqueue_comments_def
  by (auto intro!: preserves_bind preserves_when keeps simp: crawl_kinds_def split: option.split)

lemma store_post_keeps [keeps]: "preserves I (store_post env post_id data)"
  unfolding store_post_def by (auto intro!: preserves_bind keeps simp: crawl_kinds_def split: option.split)

lemma fetch_post_keeps [keeps]: "preserves I (handle_fetch_post env params)"
  unfolding handle_fetch_post_def by (auto intro!: preserves_bind keeps simp: crawl_kinds_def split: json.split)

lemma list_item_keeps [keeps]: "preserves I (list_item env item)"
  unfolding list_item_def by (auto intro!: preserves_bind keeps simp: crawl_kinds_def split: json.split option.split)

lemma list_submolts_keeps [keeps]: "preserves I (handle_list_submolts env params)"
  unfolding handle_list_submolts_def by (auto intro!: preserves_bind preserves_for_each keeps simp: crawl_kinds_def)

lemma store_submolt_keeps [keeps]: "preserves I (store_submolt env data)"
  unfolding store_submolt_def by (auto intro!: preserves_bind keeps simp: crawl_kinds_def split: option.split)

lemma fetch_submolt_keeps [keeps]: "preserves I (handle_fetch_submolt env params)"
  unfolding handle_fetch_submolt_def by (auto intro!: preserves_bind keeps simp: crawl_kinds_def split: json.split)

lemma probe_item_keeps [keeps]: "preserves I (probe_item env item)"
  unfolding probe_item_def by (auto intro!: preserves_bind keeps simp: crawl_kinds_def split: json.split option.split)

lemma search_probe_keeps [keeps]: "preserves I (handle_search_probe env params)"
  unfolding handle_search_probe_def Let_def
  by (auto intro!: preserves_bind preserves_for_each keeps simp: crawl_kinds_def split: json.split)

end

section \<open>Submolts from both handlers\<close>

lemma row_of_explicit_now:
  assumes "map_of vals ''first_seen_at'' = None" and "map_of vals ''last_seen_at'' = None"
  shows "row_of now e (vals @ [(''first_seen_at'', VTime now), (''last_seen_at'', VTime now)]) = row_of now e vals"
proof
  fix c
  show "row_of now e (vals @ [(''first_seen_at'', VTime now), (''last_seen_at'', VTime now)]) c = row_of now e vals c"
    using assms columns_facts(3,4)
    by (auto simp: row_of_def map_add_def now_col_def split: option.split)
qed

lemma submolt_row_eq_stub:
  "submolt_row lib now data =
     bind_res (submolt_stub lib data) (\<lambda>stub. Inr (map_option (\<lambda>vals.
        vals @ [(''first_seen_at'', VTime now), (''last_seen_at'', VTime now)]) stub))"
proof -
  have "py_or v (py_or v w) = py_or v w" for v w by (simp add: py_or_def)
  then show ?thesis
    by (cases "strip_json (py_or (submolt_label data) (JStr []))"; cases "created_ts lib data")
      (auto simp: submolt_row_def submolt_stub_def Let_def)
qed

lemma stub_has_no_times:
  "submolt_stub lib data = Inr (Some vals) \<Longrightarrow>
   map_of vals ''first_seen_at'' = None \<and> map_of vals ''last_seen_at'' = None"
  by (auto simp: submolt_stub_def Let_def split: if_splits)

text \<open>The two ways of reading a submolt agree. The row that the submolt handlers build and the stub
  that the post handlers build from the same JSON fail alike, are absent alike, and store the same:
  the explicit first-seen and last-seen times make no difference to the upsert.\<close>

theorem submolt_row_equals_stub:
  "case submolt_stub lib data of
     Inl e \<Rightarrow> submolt_row lib now data = Inl e
   | Inr None \<Rightarrow> submolt_row lib now data = Inr None
   | Inr (Some stub) \<Rightarrow> \<exists>vals. submolt_row lib now data = Inr (Some vals)
       \<and> upsert_submolt now auth vals = upsert_submolt now auth stub"
proof (cases "submolt_stub lib data")
  case (Inl e)
  then show ?thesis by (simp add: submolt_row_eq_stub)
next
  case (Inr stub)
  show ?thesis
  proof (cases stub)
    case None
    with Inr show ?thesis by (simp add: submolt_row_eq_stub)
  next
    case (Some vals)
    let ?vals = "vals @ [(''first_seen_at'', VTime now), (''last_seen_at'', VTime now)]"
    have "row_of now Submolt ?vals = row_of now Submolt vals"
      using stub_has_no_times Inr Some by (intro row_of_explicit_now) auto
    then have "upsert_submolt now auth ?vals = upsert_submolt now auth vals"
      by (intro ext) (simp only: upsert_submolt_def enrichment_upsert_def)
    with Inr Some show ?thesis by (simp add: submolt_row_eq_stub)
  qed
qed

section \<open>Posts without an author\<close>

lemma upsert_needs_refs:
  assumes "enrichment_upsert e cols auth now vals db = (Inr (), db')"
    and "map_of (columns_of e) c = Some co" and "co_fk co = Some e'" and "e' \<noteq> e" and "c \<in> set cols"
    and "row_of now e vals c \<noteq> VNull"
  shows "row_exists e' (row_of now e vals c) db"
proof -
  let ?x = "row_of now e vals"
  have special: "c \<noteq> ''last_seen_at''" "c \<noteq> ''first_seen_at''" "c \<noteq> ''raw_json''"
    using assms(2,3) columns_facts(2-4) by (auto simp: now_col_def col_def)
  have r: "refs_ok e r db' \<Longrightarrow> r c = ?x c \<Longrightarrow> row_exists e' (?x c) db'" for r
    using assms(3,6) map_of_SomeD [OF assms(2)] by (fastforce simp: refs_ok_def)
  have n: "enrich e cols auth now ?x old c = ?x c" for old
    using assms(2,5,6) special by (simp add: enrich_def coalesce_def)
  have "row_exists e' (?x c) db'"
    by (rule upsert_Inr [OF assms(1)]) (use r n in \<open>auto simp: fk_violation_refs\<close>)
  moreover have "entity_rows db' e' = entity_rows db e'"
    by (rule upsert_Inr [OF assms(1)]) (use assms(4) in \<open>auto simp: set_rows_def\<close>)
  ultimately show ?thesis by (simp add: row_exists_def)
qed

lemma authorless_stub:
  assumes "agent_stub lib data = Inr (Some vals)" and "dict_get data ''id'' = JStr pid" and "pid \<noteq> []"
  shows "stub_str vals ''id'' = Some pid"
  using assms by (auto simp: agent_stub_def Let_def stub_str_def unwrap_id_def py_or_def split: if_splits)

text \<open>A post without an embedded author is refused. The handlers then take the post itself for the
  author's description, and its identifier for the author's: the upsert succeeds only if an agent
  with the identifier of the post exists.\<close>

theorem authorless_post_refused:
  assumes "post_row lib data = Inr (Some vals)" and "dict_get data ''author'' = JNull"
    and "dict_get data ''id'' = JStr pid" and "\<not> row_exists Agent (VJson (JStr pid)) db"
  shows "fst (upsert_post now auth vals db) \<noteq> Inr ()"
proof
  assume "fst (upsert_post now auth vals db) = Inr ()"
  then obtain db' where run: "enrichment_upsert Post MB_POST_ENRICHMENT auth now vals db = (Inr (), db')"
    by (cases "enrichment_upsert Post MB_POST_ENRICHMENT auth now vals db") (simp add: upsert_post_def)
  have pid: "pid \<noteq> []" using assms(1,3) by (auto simp: post_row_def split: if_splits)
  then have "data \<noteq> []" using assms(3) by auto
  then have self: "author_stub lib data = agent_stub lib data" using assms(2) by (simp add: author_stub_def py_or_def)
  obtain agent where agent: "agent_stub lib data = Inr agent" and a: "map_of vals ''author_id'' = Some (stub_field agent ''id'')"
    using assms(1) by (auto simp: post_row_def self Let_def split: if_splits)
  have col: "map_of (columns_of Post) ''author_id'' = Some (fk_col False Agent)" by (simp add: MbPost_def)
  have "row_violation Post (row_of now Post vals) = None"
    by (rule upsert_Inr [OF run])
  from not_null_column [OF this col] have "row_of now Post vals ''author_id'' \<noteq> VNull" by (simp add: fk_col_def col_def)
  moreover from this have "row_of now Post vals ''author_id'' = VJson (JStr pid)"
    using a agent authorless_stub [OF _ assms(3) pid]
    by (cases agent) (auto simp: row_of_def stub_field_def opt_str_def)
  ultimately show False
    using upsert_needs_refs [OF run col] assms(4) by (simp add: fk_col_def MB_POST_ENRICHMENT_def)
qed

definition ex_orphan :: "(string \<times> json) list" where
  "ex_orphan = [(''id'', JStr ''p9''), (''title'', JStr ''T''), (''author_name'', JStr ''Bob''), (''raw_json'', JObj [])]"

definition ex_orphan_row :: colvals where
  "ex_orphan_row = (case post_row ex_lib ex_orphan of Inr (Some vals) \<Rightarrow> vals | _ \<Rightarrow> [])"

theorem authorless_post_refused_witness:
  "fst (upsert_post 5 False ex_orphan_row empty_db) \<noteq> Inr ()"
proof (rule authorless_post_refused)
  show "post_row ex_lib ex_orphan = Inr (Some ex_orphan_row)" by code_simp
qed (simp_all add: ex_orphan_def row_exists_def empty_db_def)

end
