(* ===== verification/Retry.thy ===== *)
theory Retry
  imports Prelude
begin

text \<open>
  Retrying an action: what tenacity's \<open>stop_after_attempt\<close>, \<open>retry_if_exception\<close> and \<open>reraise=True\<close>
  make of it. The interface \<open>counted_action\<close> is an action that counts its own runs and keeps an
  invariant; how often it is run, and what comes out, is proved once for it.
\<close>

text \<open>\<open>left\<close> is the number of attempts after the first.\<close>

fun retrying :: "(py_exn \<Rightarrow> bool) \<Rightarrow> nat \<Rightarrow> ('s, 'a) action \<Rightarrow> ('s, 'a) action" where
  "retrying retryable 0 attempt s = attempt s"
| "retrying retryable (Suc left) attempt s =
     (case attempt s of
        (Inl e, s') \<Rightarrow> if retryable e then retrying retryable left attempt s' else (Inl e, s')
      | (Inr x, s') \<Rightarrow> (Inr x, s'))"

locale counted_action =
  fixes attempt :: "('s, 'a) action"
    and count :: "'s \<Rightarrow> nat"
    and inv :: "'s \<Rightarrow> bool"
  assumes count_attempt: "count (snd (attempt s)) = Suc (count s)"
    and inv_attempt: "inv s \<Longrightarrow> inv (snd (attempt s))"
begin

lemma retrying_inv: "inv s \<Longrightarrow> inv (snd (retrying retryable left attempt s))"
proof (induction left arbitrary: s)
  case 0
  then show ?case by (simp add: inv_attempt)
next
  case (Suc left)
  from inv_attempt [OF Suc.prems] have "inv (snd (attempt s))" .
  with Suc.IH show ?case by (auto split: prod.split sum.split)
qed

lemma retrying_count:
  "count s < count (snd (retrying retryable left attempt s))
   \<and> count (snd (retrying retryable left attempt s)) \<le> count s + Suc left"
proof (induction left arbitrary: s)
  case 0
  then show ?case by (simp add: count_attempt)
next
  case (Suc left)
  obtain r s' where a: "attempt s = (r, s')" by force
  then have c: "count s' = Suc (count s)" using count_attempt [of s] by simp
  show ?case
  proof (cases r)
    case (Inl e)
    then show ?thesis using Suc.IH [of s'] a c by auto
  next
    case (Inr x)
    then show ?thesis using a c by simp
  qed
qed

text \<open>It ends with an answer, with an exception that is not retried, or when the attempts are used up.\<close>

lemma retrying_outcome:
  assumes "retrying retryable left attempt s = (Inl e, s')" and "retryable e"
  shows "count s' = count s + Suc left"
  using assms
proof (induction left arbitrary: s)
  case 0
  then show ?case using count_attempt [of s] by simp
next
  case (Suc left)
  obtain r s1 where a: "attempt s = (r, s1)" by force
  then have c: "count s1 = Suc (count s)" using count_attempt [of s] by simp
  show ?case using Suc a c by (cases r) (auto split: if_splits)
qed

end

end
