(* ===== verification/Client.thy ===== *)
theory Client
  imports Entities Bytes Config Retry Upsert
begin

text \<open>
  The HTTP client of the crawler, \<open>textlake/client.py\<close>: reading rate-limit headers, one request, and
  the retries around it.
\<close>

section \<open>Responses\<close>

text \<open>
  What \<open>httpx\<close> gives back: headers by lower-case name, and the decoded body, or the exception that
  decoding it raises.
\<close>

record http_reply =
  hp_status :: int
  hp_headers :: "(string \<times> string) list"
  hp_json :: "json result"

definition reply_header :: "http_reply \<Rightarrow> string \<Rightarrow> string option" where
  "reply_header resp name = map_of (hp_headers resp) (py_lower name)"

text \<open>\<open>int(s)\<close>; \<open>None\<close> where it raises \<open>ValueError\<close>.\<close>

fun digits_value :: "bool \<Rightarrow> int \<Rightarrow> string \<Rightarrow> int option" where
  "digits_value d acc [] = (if d then Some acc else None)"
| "digits_value d acc (c # s) =
     (if c = CHR ''_'' then (if d then digits_value False acc s else None)
      else if c \<in> set ''0123456789'' then digits_value True (10 * acc + (of_char c - 48)) s
      else None)"

definition py_int :: "string \<Rightarrow> int option" where
  "py_int s0 =
     (let s = rev (dropWhile int_space (rev (dropWhile int_space s0)))
      in if s \<noteq> [] \<and> hd s = CHR ''-'' then map_option uminus (digits_value False 0 (tl s))
         else if s \<noteq> [] \<and> hd s = CHR ''+'' then digits_value False 0 (tl s)
         else digits_value False 0 s)"

text \<open>\<open>datetime.now(timezone.utc) + timedelta(seconds=secs)\<close>: outside of the years 1 to 9999 it overflows.\<close>

definition add_seconds :: "seconds \<Rightarrow> int \<Rightarrow> seconds result" where
  "add_seconds now secs =
     (let t = now + of_int secs
      in if - 62135596800 \<le> t \<and> t < 253402300800 then Inr t else Inl OverflowError)"

definition reset_header_time :: "http_reply \<Rightarrow> (seconds option) result" where
  "reset_header_time resp =
     (case reply_header resp ''X-RateLimit-Reset'' of
        None \<Rightarrow> Inr None
      | Some reset \<Rightarrow>
          (case py_int reset of
             None \<Rightarrow> Inr None
           | Some ts \<Rightarrow>
               (case fromtimestamp (of_int ts) of
                  Inr t \<Rightarrow> Inr (Some t)
                | Inl (ValueError _) \<Rightarrow> Inr None
                | Inl e \<Rightarrow> Inl e)))"

definition parse_reset_time :: "seconds \<Rightarrow> http_reply \<Rightarrow> (seconds option) result" where
  "parse_reset_time now resp =
     (case reply_header resp ''Retry-After'' of
        None \<Rightarrow> reset_header_time resp
      | Some retry_after \<Rightarrow>
          (case py_int retry_after of
             None \<Rightarrow> reset_header_time resp
           | Some secs \<Rightarrow> bind_res (add_seconds now secs) (\<lambda>t. Inr (Some t))))"

definition client_should_retry :: "py_exn \<Rightarrow> bool" where
  "client_should_retry e =
     (case e of
        TransportError \<Rightarrow> True
      | TransientAuthError \<Rightarrow> True
      | RateLimitResetError _ \<Rightarrow> False
      | HTTPStatusError code \<Rightarrow> code \<noteq> 429 \<and> 500 \<le> code
      | _ \<Rightarrow> False)"

section \<open>The client\<close>

text \<open>
  The state a client keeps: the limiter's rate, the free permits of its semaphore, the captured
  responses, and how many requests it has sent. \<open>tp_send n\<close> is what the \<open>n\<close>-th request is answered,
  \<open>tp_capture_ok n\<close> whether the transaction that captures its response goes through, and \<open>tp_now n\<close>
  and \<open>tp_elapsed n\<close> are the clock readings around it.
\<close>

record client_state =
  cs_max_rate :: int
  cs_permits :: int
  cs_captures :: "RawCapture list"
  cs_sent :: nat

record transport =
  tp_send :: "nat \<Rightarrow> string \<Rightarrow> json \<Rightarrow> http_reply result"
  tp_now :: "nat \<Rightarrow> seconds"
  tp_elapsed :: "nat \<Rightarrow> int"
  tp_capture_ok :: "nat \<Rightarrow> bool"
  tp_base_url :: string
  tp_raw_capture :: bool

definition new_client :: "CrawlerSettings \<Rightarrow> client_state" where
  "new_client settings =
     \<lparr>cs_max_rate = mb_rate_limit_rpm settings, cs_permits = int (mb_http_semaphore settings),
      cs_captures = [], cs_sent = 0\<rparr>"

definition adjust_limiter_from_headers :: "http_reply \<Rightarrow> client_state \<Rightarrow> client_state" where
  "adjust_limiter_from_headers resp s =
     (case reply_header resp ''X-RateLimit-Remaining'' of
        None \<Rightarrow> s
      | Some remaining \<Rightarrow>
          (case py_int remaining of
             None \<Rightarrow> s
           | Some n \<Rightarrow>
               if n \<le> 0 \<and> 1 < cs_max_rate s then s\<lparr>cs_max_rate := max 1 (cs_max_rate s div 2)\<rparr> else s))"

definition log_raw_capture ::
  "bool \<Rightarrow> seconds \<Rightarrow> string \<Rightarrow> int \<Rightarrow> http_reply \<Rightarrow> client_state \<Rightarrow> client_state" where
  "log_raw_capture capture_ok now url elapsed_ms resp s =
     (if capture_ok then
        s\<lparr>cs_captures := cs_captures s @
           [\<lparr>rc_id = int (length (cs_captures s)) + 1, rc_fetched_at = now, rc_method = ''GET'', rc_url = url,
             rc_status_code = hp_status resp, rc_response_ms = elapsed_ms, rc_request_json = JNull,
             rc_response_json = (case hp_json resp of Inr body \<Rightarrow> body | Inl _ \<Rightarrow> JNull),
             rc_headers_json = map (\<lambda>(k, v). (k, JStr v)) (hp_headers resp)\<rparr>]\<rparr>
      else s)"

text \<open>What follows the response inside \<open>_do\<close>.\<close>

definition read_reply ::
  "transport \<Rightarrow> nat \<Rightarrow> string \<Rightarrow> http_reply \<Rightarrow> (client_state, json) action" where
  "read_reply tp n path_norm resp s =
     (if hp_status resp = 401 then (Inl TransientAuthError, s)
      else if hp_status resp = 429 then
        (case parse_reset_time (tp_now tp n) resp of
           Inl e \<Rightarrow> (Inl e, s)
         | Inr reset \<Rightarrow>
             (Inl (RateLimitResetError (case reset of Some t \<Rightarrow> t | None \<Rightarrow> tp_now tp n + 60)), s))
      else
        let s' = (if tp_raw_capture tp
                  then log_raw_capture (tp_capture_ok tp n) (tp_now tp n) (tp_base_url tp @ path_norm)
                         (tp_elapsed tp n) resp s
                  else s)
        in if hp_status resp < 200 \<or> 299 < hp_status resp then (Inl (HTTPStatusError (hp_status resp)), s')
           else (hp_json resp, s'))"

text \<open>\<open>_do\<close>: the permit is given back whatever happens.\<close>

definition client_do :: "transport \<Rightarrow> string \<Rightarrow> json \<Rightarrow> (client_state, json) action" where
  "client_do tp path_norm params s =
     (let n = cs_sent s;
          s1 = s\<lparr>cs_permits := cs_permits s - 1, cs_sent := n + 1\<rparr>;
          (res, s2) =
            (case tp_send tp n path_norm params of
               Inl e \<Rightarrow> (Inl e, s1)
             | Inr resp \<Rightarrow> read_reply tp n path_norm resp (adjust_limiter_from_headers resp s1))
      in (res, s2\<lparr>cs_permits := cs_permits s2 + 1\<rparr>))"

text \<open>\<open>stop_after_attempt(n)\<close> stops after the first attempt when \<open>n\<close> is 0.\<close>

definition client_get ::
  "transport \<Rightarrow> CrawlerSettings \<Rightarrow> bool \<Rightarrow> string \<Rightarrow> json \<Rightarrow> (client_state, json) action" where
  "client_get tp settings started path params s =
     (if \<not> started then (Inl RuntimeError, s)
      else
        let path_norm = (if py_startswith path ''/'' then path else ''/'' @ path)
        in retrying client_should_retry (mb_http_retry_max_attempts settings - 1)
             (client_do tp path_norm (py_or params (JObj []))) s)"

section \<open>Reading headers\<close>

lemma digits_value_app:
  "set s \<subseteq> set ''0123456789'' \<Longrightarrow> s \<noteq> [] \<or> d \<Longrightarrow>
   digits_value d acc s = Some (foldl (\<lambda>a c. 10 * a + (of_char c - 48)) acc s)"
proof (induction s arbitrary: d acc)
  case (Cons c s)
  then have "c \<noteq> CHR ''_''" by auto
  with Cons show ?case by simp
qed simp

section \<open>One request\<close>

lemma read_reply_frame:
  "cs_permits (snd (read_reply tp n path resp s)) = cs_permits s"
  "cs_sent (snd (read_reply tp n path resp s)) = cs_sent s"
  "cs_max_rate (snd (read_reply tp n path resp s)) = cs_max_rate s"
  by (simp_all add: read_reply_def log_raw_capture_def Let_def split: sum.split)

lemma adjust_frame:
  "cs_permits (adjust_limiter_from_headers resp s) = cs_permits s"
  "cs_sent (adjust_limiter_from_headers resp s) = cs_sent s"
  "cs_captures (adjust_limiter_from_headers resp s) = cs_captures s"
  by (simp_all add: adjust_limiter_from_headers_def split: option.split)

lemma adjust_rate:
  "cs_max_rate (adjust_limiter_from_headers resp s) \<le> cs_max_rate s"
  "min 1 (cs_max_rate s) \<le> cs_max_rate (adjust_limiter_from_headers resp s)"
  by (auto simp: adjust_limiter_from_headers_def split: option.split)

text \<open>What a client keeps: its free permits, and a rate between one and the one it had.\<close>

definition client_kept :: "int \<Rightarrow> int \<Rightarrow> client_state \<Rightarrow> bool" where
  "client_kept permits rate s \<longleftrightarrow>
     cs_permits s = permits \<and> cs_max_rate s \<le> rate \<and> min 1 rate \<le> cs_max_rate s"

lemma client_do_frame:
  "cs_sent (snd (client_do tp path params s)) = Suc (cs_sent s)"
  "client_kept permits rate s \<Longrightarrow> client_kept permits rate (snd (client_do tp path params s))"
proof -
  let ?s1 = "s\<lparr>cs_permits := cs_permits s - 1, cs_sent := cs_sent s + 1\<rparr>"
  have rate: "cs_max_rate (adjust_limiter_from_headers resp ?s1) \<le> cs_max_rate s"
    "min 1 (cs_max_rate s) \<le> cs_max_rate (adjust_limiter_from_headers resp ?s1)" for resp
    using adjust_rate [where resp = resp and s = ?s1] by simp_all
  show "cs_sent (snd (client_do tp path params s)) = Suc (cs_sent s)"
    by (simp add: client_do_def Let_def case_prod_beta read_reply_frame adjust_frame split: sum.split)
  show "client_kept permits rate (snd (client_do tp path params s))" if "client_kept permits rate s"
    using that rate
    by (auto simp: client_kept_def client_do_def Let_def case_prod_beta read_reply_frame adjust_frame
        split: sum.split intro: order_trans order_trans [of _ "min 1 (cs_max_rate s)"])
qed

interpretation get: counted_action "client_do tp path params" cs_sent "client_kept permits rate"
  for tp path params permits rate
  by unfold_locales (simp_all add: client_do_frame)

section \<open>The retries\<close>

text \<open>C22: a call of the client is bounded and leaves no permit behind. It sends at least one request and
  at most the configured number (one when that is zero); every permit it takes is given back,
  whatever was raised; the limiter only gets tighter and never below one request; and an exception
  that could be retried comes out only when all attempts are used up.\<close>

theorem client_get_bounded:
  "case client_get tp settings True path params s of (res, s') \<Rightarrow>
     cs_sent s < cs_sent s' \<and> cs_sent s' \<le> cs_sent s + max 1 (mb_http_retry_max_attempts settings)
     \<and> cs_permits s' = cs_permits s
     \<and> min 1 (cs_max_rate s) \<le> cs_max_rate s' \<and> cs_max_rate s' \<le> cs_max_rate s
     \<and> (case res of Inr _ \<Rightarrow> True
        | Inl e \<Rightarrow> \<not> client_should_retry e \<or> cs_sent s' = cs_sent s + max 1 (mb_http_retry_max_attempts settings))"
proof -
  let ?path = "if py_startswith path ''/'' then path else ''/'' @ path"
  let ?left = "mb_http_retry_max_attempts settings - 1"
  let ?run = "retrying client_should_retry ?left (client_do tp ?path (py_or params (JObj []))) s"
  have run: "client_get tp settings True path params s = ?run" by (simp add: client_get_def)
  have n: "Suc ?left = max 1 (mb_http_retry_max_attempts settings)" by simp
  have start: "client_kept (cs_permits s) (cs_max_rate s) s" by (simp add: client_kept_def)
  obtain res s' where rs: "?run = (res, s')" by force
  have kept: "client_kept (cs_permits s) (cs_max_rate s) s'"
    using get.retrying_inv [OF start, of client_should_retry ?left tp ?path "py_or params (JObj [])"] rs by simp
  have "cs_sent s < cs_sent s' \<and> cs_sent s' \<le> cs_sent s + Suc ?left"
    using get.retrying_count [of s client_should_retry ?left tp ?path "py_or params (JObj [])"] rs by simp
  moreover have "\<not> client_should_retry e \<or> cs_sent s' = cs_sent s + Suc ?left" if "res = Inl e" for e
    using get.retrying_outcome [OF rs [unfolded that]] by blast
  ultimately show ?thesis
    unfolding run rs n using kept by (auto simp: client_kept_def split: sum.split)
qed

text \<open>The outcome of a request depends on which request it is, not on the state of the client.\<close>

definition outcome_of :: "transport \<Rightarrow> string \<Rightarrow> json \<Rightarrow> nat \<Rightarrow> json result" where
  "outcome_of tp path params n =
     (case tp_send tp n path params of
        Inl e \<Rightarrow> Inl e
      | Inr resp \<Rightarrow>
          if hp_status resp = 401 then Inl TransientAuthError
          else if hp_status resp = 429 then
            bind_res (parse_reset_time (tp_now tp n) resp) (\<lambda>reset.
              Inl (RateLimitResetError (case reset of Some t \<Rightarrow> t | None \<Rightarrow> tp_now tp n + 60)))
          else if hp_status resp < 200 \<or> 299 < hp_status resp then Inl (HTTPStatusError (hp_status resp))
          else hp_json resp)"

definition conclusive :: "json result \<Rightarrow> bool" where
  "conclusive r \<longleftrightarrow> (case r of Inr _ \<Rightarrow> True | Inl e \<Rightarrow> \<not> client_should_retry e)"

lemma client_do_outcome: "fst (client_do tp path params s) = outcome_of tp path params (cs_sent s)"
  by (simp add: client_do_def outcome_of_def read_reply_def Let_def bind_res_def case_prod_beta split: sum.split)

lemma retrying_outcomes:
  "fst (retrying client_should_retry left (client_do tp path params) s) =
     (let rs = map (\<lambda>k. outcome_of tp path params (cs_sent s + k)) [0..<Suc left]
      in case find conclusive rs of Some r \<Rightarrow> r | None \<Rightarrow> List.last rs)"
proof (induction left arbitrary: s)
  case 0
  show ?case by (simp add: client_do_outcome)
next
  case (Suc left)
  obtain r s1 where a: "client_do tp path params s = (r, s1)" by force
  then have r: "r = outcome_of tp path params (cs_sent s)" and sent: "cs_sent s1 = Suc (cs_sent s)"
    using client_do_outcome [of tp path params s] client_do_frame(1) [of tp path params s] by simp_all
  let ?f = "\<lambda>k. outcome_of tp path params (cs_sent s + k)"
  let ?rs = "map (\<lambda>k. outcome_of tp path params (cs_sent s1 + k)) [0..<Suc left]"
  have split: "map ?f [0..<Suc (Suc left)] = r # ?rs"
    unfolding r sent by (simp only: upt_rec [of 0] map_Suc_upt [symmetric]) (simp add: comp_def del: upt_Suc)
  have ne: "?rs \<noteq> []" by simp
  show ?case
  proof (cases "conclusive r")
    case True
    then show ?thesis unfolding split using a by (auto simp: conclusive_def split: sum.splits)
  next
    case False
    then obtain e where e: "r = Inl e" "client_should_retry e" by (auto simp: conclusive_def split: sum.splits)
    have "fst (retrying client_should_retry (Suc left) (client_do tp path params) s)
        = fst (retrying client_should_retry left (client_do tp path params) s1)"
      using a e by simp
    also have "\<dots> = (let rs = ?rs in case find conclusive rs of Some r \<Rightarrow> r | None \<Rightarrow> List.last rs)"
      by (rule Suc.IH)
    also have "\<dots> = (let rs = r # ?rs in case find conclusive rs of Some r \<Rightarrow> r | None \<Rightarrow> List.last rs)"
      using False ne by (simp add: Let_def split: option.split)
    finally show ?thesis unfolding split .
  qed
qed

text \<open>C21: what a call of the client returns. It is the outcome of the first of its requests that is
  conclusive (an answer, or an error that is not retried: 429 above all), and the last request's
  error when none is.\<close>

theorem client_get_first_conclusive:
  "fst (client_get tp settings True path params s) =
     (let p = (if py_startswith path ''/'' then path else ''/'' @ path);
          rs = map (\<lambda>k. outcome_of tp p (py_or params (JObj [])) (cs_sent s + k))
                 [0..<max 1 (mb_http_retry_max_attempts settings)]
      in case find conclusive rs of Some r \<Rightarrow> r | None \<Rightarrow> List.last rs)"
proof -
  have n: "max 1 (mb_http_retry_max_attempts settings) = Suc (mb_http_retry_max_attempts settings - 1)" by simp
  show ?thesis unfolding n Let_def client_get_def by (simp only: retrying_outcomes Let_def not_True_eq_False if_False)
qed

text \<open>A server that never answers is asked three times.\<close>

definition ex_dead_transport :: transport where
  "ex_dead_transport = \<lparr>tp_send = (\<lambda>n path query. Inl TransportError), tp_now = (\<lambda>n. 12), tp_elapsed = (\<lambda>n. 1),
     tp_capture_ok = (\<lambda>n. True), tp_base_url = ''https://www.moltbook.com/api/v1'', tp_raw_capture = False\<rparr>"

theorem client_get_bounded_witness:
  "case client_get ex_dead_transport (default_crawler_settings ''key'') True ''/posts'' JNull
      (new_client (default_crawler_settings ''key'')) of
    (res, s') \<Rightarrow> res = Inl TransportError \<and> cs_sent s' = 3 \<and> cs_permits s' = 10 \<and> cs_max_rate s' \<le> 100"
proof -
  let ?s = "default_crawler_settings ''key''"
  have res: "fst (client_get ex_dead_transport ?s True ''/posts'' JNull (new_client ?s)) = Inl TransportError"
    by code_simp
  have "client_should_retry TransportError" by (simp add: client_should_retry_def)
  moreover have "cs_sent (new_client ?s) = 0" "mb_http_retry_max_attempts ?s = 3" "cs_permits (new_client ?s) = 10"
    "cs_max_rate (new_client ?s) = 100"
    by (simp_all add: new_client_def default_crawler_settings_def)
  ultimately show ?thesis
    using client_get_bounded [where tp = ex_dead_transport and settings = ?s and path = "''/posts''"
        and params = JNull and s = "new_client ?s"] res
    by (auto split: prod.splits)
qed

end
