(* ===== verification/Crawler.thy ===== *)
theory Crawler
  imports CommentsHandler PostsHandler Client
begin

text \<open>
  The crawler as a whole: the registry of handlers (\<open>textlake/handlers/registry.py\<close>) and the steps
  that workers, handlers and the scheduler make on the database (\<open>textlake/__main__.py\<close> runs them
  concurrently), with the invariants that all of them keep.
\<close>

section \<open>The registry\<close>

text \<open>Importing the package \<open>textlake.handlers\<close> registers the modules \<open>comments\<close>, \<open>posts\<close>, \<open>search\<close>, \<open>submolts\<close>.\<close>

definition registry :: "crawl_env \<Rightarrow> (string \<times> handler) list" where
  "registry env =
     [(''fetch_post_comments'', handle_fetch_post_comments env), (''poll_posts_feed'', handle_poll_posts_feed env),
      (''fetch_post'', handle_fetch_post env), (''search_probe'', handle_search_probe env),
      (''list_submolts'', handle_list_submolts env), (''fetch_submolt'', handle_fetch_submolt env)]"

definition get_handler :: "crawl_env \<Rightarrow> string \<Rightarrow> handler option" where
  "get_handler env kind = map_of (registry env) kind"

lemma registry_kinds: "map fst (registry env) = crawl_kinds"
  by (simp add: registry_def crawl_kinds_def)

lemma get_handler_known: "kind \<in> set crawl_kinds \<longleftrightarrow> get_handler env kind \<noteq> None"
  by (simp add: get_handler_def map_of_eq_None_iff flip: registry_kinds [of env])

context crawl_invariant
begin

lemma registered_keeps: "get_handler env kind = Some h \<Longrightarrow> preserves I (h params)"
  by (auto simp: get_handler_def registry_def intro!: keeps split: if_splits)

lemma handler_step: "get_handler env kind = Some h \<Longrightarrow> I db \<Longrightarrow> I (snd (run_handler h params db))"
  by (rule preservesD [OF run_handler_keeps [OF registered_keeps]])

end

section \<open>Steps\<close>

text \<open>
  One transaction of one of the crawler's tasks: a worker claims, runs a handler, finalises or drops;
  the scheduler makes a turn; a client captures a response. Transactions are serialised; the
  sequence of a worker's own transactions is not imposed, so the steps include every interleaving, and more:
  any task may be finished with any outcome. They are meant for invariants; theory LeaseRaces has the workers' own order.
\<close>

inductive crawler_step :: "crawl_db \<Rightarrow> crawl_db \<Rightarrow> bool" where
  claim: "crawler_step db (snd (claim_task row_locked now w db))"
| handle: "get_handler env kind = Some h \<Longrightarrow> crawler_step db (snd (run_handler h params db))"
| finish: "crawler_step db (finalize exn_str now i outcome db)"
| drop: "crawler_step db (delete_task i db)"
| schedule: "crawler_step db (snd (scheduler_turn lib now ids commit_ok s db))"
| capture: "crawler_step db (db\<lparr>raw_captures := captures\<rparr>)"

inductive_cases crawler_stepE: "crawler_step db db'"

section \<open>Invariants of every step\<close>

text \<open>
  The interface extended to the statements of workers and of the scheduler: updates of tasks that
  leave identifier, key and kind alone, deletions, and other tables.
\<close>

locale step_invariant = crawl_invariant +
  assumes tasks_I: "I db \<Longrightarrow>
      (\<And>r. ct_id (f r) = ct_id r \<and> ct_dedupe_key (f r) = ct_dedupe_key r \<and> ct_kind (f r) = ct_kind r) \<Longrightarrow>
      I (write_task (UpdAll f) db)"
    and delete_I: "I db \<Longrightarrow> I (delete_task i db)"
    and captures_I: "I db \<Longrightarrow> I (db\<lparr>raw_captures := captures\<rparr>)"
begin

lemma update_I:
  assumes "I db" and "\<And>r. ct_id (f r) = ct_id r \<and> ct_dedupe_key (f r) = ct_dedupe_key r \<and> ct_kind (f r) = ct_kind r"
  shows "I (update_task i f db)"
proof -
  have "update_task i f db = write_task (UpdAll (\<lambda>r. if ct_id r = i then f r else r)) db"
    by (simp add: update_task_def write_task_def tbl_update_def)
  then show ?thesis using tasks_I [OF assms(1)] assms(2) by simp
qed

lemma claim_I: "I db \<Longrightarrow> I (snd (claim_task row_locked now w db))"
  by (auto simp: claim_task_def split: option.split intro: update_I)

lemma failure_I: "I db \<Longrightarrow> I (finalize_failure now i etext db)"
  unfolding finalize_failure_def Let_def by (auto split: option.split intro!: update_I)

lemma transient_I: "I db \<Longrightarrow> I (finalize_transient now i reset etext db)"
  unfolding finalize_transient_def by (rule update_I) simp_all

lemma finalize_I: "I db \<Longrightarrow> I (finalize exn_str now i outcome db)"
proof (cases outcome)
  case (Inl e)
  assume "I db"
  with Inl show ?thesis by (cases e) (simp_all add: finalize_def failure_I transient_I)
qed (simp add: finalize_def delete_I)

lemma recover_I: "I db \<Longrightarrow> I (recover_parked now db)"
  unfolding recover_parked_write by (rule tasks_I) simp_all

lemma prune_I: "I db \<Longrightarrow> I (prune_captures now db)"
  unfolding prune_captures_def by (rule captures_I)

lemma scheduler_I: "I db \<Longrightarrow> I (snd (scheduler_turn lib now ids commit_ok s db))"
proof -
  assume ok: "I db"
  let ?J = "\<lambda>x :: sched \<times> crawl_db. I (snd x)"
  have ins: "I db'" if "insert_task t k kind params key prio db1 = (r, db')" "I db1" "kind \<in> set crawl_kinds"
    for t k kind params key prio db1 r db'
    using preservesD [OF enqueue_I [OF that(3)] that(2), of t k params key prio] that(1) by simp
  have "preserves ?J (schedule_feed lib now ids f)" for f
    by (rule preservesI) (auto simp: schedule_feed_def crawl_kinds_def split: prod.splits sum.splits dest: ins)
  moreover have "preserves ?J (schedule_list lib now ids)"
    by (rule preservesI) (auto simp: schedule_list_def crawl_kinds_def split: prod.splits sum.splits dest: ins)
  moreover have "preserves ?J (schedule_recovery now)" "preserves ?J (schedule_prune now)"
    by (rule preservesI; auto simp: schedule_recovery_def schedule_prune_def intro: recover_I prune_I)+
  ultimately have "preserves ?J (scheduler_body lib now ids)"
    unfolding scheduler_body_def by (intro preserves_bind preserves_for_each)
  from preservesD [OF this, of "(s, db)"] ok show ?thesis
    by (auto simp: scheduler_turn_def split: prod.splits sum.splits)
qed

lemma step_I: "crawler_step db db' \<Longrightarrow> I db \<Longrightarrow> I db'"
  by (induction rule: crawler_step.induct)
     (simp_all add: claim_I handler_step finalize_I delete_I scheduler_I captures_I)

lemma steps_I: "crawler_step\<^sup>*\<^sup>* db db' \<Longrightarrow> I db \<Longrightarrow> I db'"
  by (induction rule: rtranclp_induct) (auto intro: step_I)

end

interpretation ok_steps: step_invariant crawl_ok
proof unfold_locales
  fix db :: crawl_db and f :: "CrawlTask \<Rightarrow> CrawlTask" and i captures
  assume ok: "crawl_ok db"
  show "crawl_ok (delete_task i db)"
    using ok queue_ok_delete [of db i]
    by (intro tasks_only_ok [OF ok]) (simp_all add: crawl_ok_def delete_task_def)
  show "crawl_ok (db\<lparr>raw_captures := captures\<rparr>)"
    using ok by (intro tasks_only_ok [OF ok]) (simp_all add: crawl_ok_def queue_ok_def distinct_tasks_def)
  assume "\<And>r. ct_id (f r) = ct_id r \<and> ct_dedupe_key (f r) = ct_dedupe_key r \<and> ct_kind (f r) = ct_kind r"
  then show "crawl_ok (write_task (UpdAll f) db)"
    using ok by (intro tasks_only_ok [OF ok] queue_ok_update_all) (simp_all add: write_task_def crawl_ok_def)
qed

interpretation kinds_steps: step_invariant kinds_known
  by unfold_locales (auto simp: kinds_known_def write_task_def delete_task_def list_all_iff)

lemma empty_db_ok: "crawl_ok empty_db" "kinds_known empty_db"
  by (simp_all add: crawl_ok_def db_ok_def queue_ok_def distinct_tasks_def stats_ok_def kinds_known_def empty_db_def)

text \<open>The crawler's tables stay in order: the statements refuse what the constraints refuse, and no step goes around
  them. Whatever the API answers and however the transactions of
  workers, handlers and the scheduler follow one another, from the empty database on: primary keys
  are distinct, every column has a value of its type, non-null where declared, names are unique
  without regard to case, every foreign key points to a row, no task is queued twice, statistics
  have distinct keys; and every queued task is of a kind that has a handler.\<close>

theorem crawler_tables_in_order:
  assumes "crawler_step\<^sup>*\<^sup>* empty_db db"
  shows "crawl_ok db \<and> list_all (\<lambda>t. get_handler env (ct_kind t) \<noteq> None) (crawl_tasks db)"
  using ok_steps.steps_I [OF assms empty_db_ok(1)] kinds_steps.steps_I [OF assms empty_db_ok(2)]
    get_handler_known [of _ env]
  by (simp add: kinds_known_def list_all_iff)

section \<open>Rate limits\<close>

lemma client_429:
  assumes "tp_send tp (cs_sent cs) path (py_or params (JObj [])) = Inr resp" and "hp_status resp = 429"
    and "reply_header resp ''Retry-After'' = Some h" and "py_int h = Some secs"
    and "add_seconds (tp_now tp (cs_sent cs)) secs = Inr until" and "py_startswith path ''/''"
  shows "fst (client_get tp settings True path params cs) = Inl (RateLimitResetError until)"
    and "cs_sent (snd (client_get tp settings True path params cs)) = Suc (cs_sent cs)"
proof -
  let ?n = "mb_http_retry_max_attempts settings - 1"
  obtain cs1 where one: "client_do tp path (py_or params (JObj [])) cs = (Inl (RateLimitResetError until), cs1)"
    using assms client_do_outcome [of tp path "py_or params (JObj [])" cs]
    by (cases "client_do tp path (py_or params (JObj [])) cs") (simp add: outcome_of_def parse_reset_time_def)
  then have "client_get tp settings True path params cs = (Inl (RateLimitResetError until), cs1)"
    using assms(6) by (cases ?n) (simp_all add: client_get_def client_should_retry_def)
  moreover have "cs_sent cs1 = Suc (cs_sent cs)"
    using client_do_frame(1) [of tp path "py_or params (JObj [])" cs] one by simp
  ultimately show "fst (client_get tp settings True path params cs) = Inl (RateLimitResetError until)"
    and "cs_sent (snd (client_get tp settings True path params cs)) = Suc (cs_sent cs)"
    by simp_all
qed

text \<open>The row of a task that a worker has released with the time at which the server will answer again.\<close>

definition put_off :: "seconds \<Rightarrow> seconds \<Rightarrow> string \<Rightarrow> CrawlTask \<Rightarrow> CrawlTask" where
  "put_off now until etext t =
     t\<lparr>ct_attempts := ct_attempts t + 1, ct_not_before := Some until, ct_last_error := Some etext,
       ct_locked_by := None, ct_locked_until := None, ct_updated_at := now\<rparr>"

lemma put_off_not_claimable: "time < until \<Longrightarrow> \<not> claimable time (put_off now until etext t)"
  by (simp add: put_off_def claimable_def)

lemma release_is_put_off:
  assumes "distinct_tasks db" and "get_task i db = Some t"
  shows "finalize_transient now i (Some until) etext
      (update_task i (\<lambda>r. r\<lparr>ct_locked_by := Some w, ct_locked_until := Some lu\<rparr>) db)
    = update_task i (\<lambda>_. put_off now until etext t) db"
proof -
  have "r = t" if "r \<in> set (crawl_tasks db)" "ct_id r = i" for r
    using that assms by (simp add: get_task_def tbl_get_Some_iff distinct_tasks_def) (metis distinct_map inj_on_def)
  then show ?thesis
    by (auto simp: finalize_transient_def update_task_def tbl_update_def put_off_def)
qed

text \<open>C26: a rate limit is obeyed. When the request of a \<open>fetch_post\<close> task is answered 429 with a
  \<open>Retry-After\<close>, the client sends no other request, and the only change that the worker's turn makes to the whole
  database is to the row of the task: one more attempt, the error, no lease, and the time the server named, before
  which the row is not claimable. (The row may be made claimable earlier by another step: \<open>recover_parked\<close> resets
  a task that has used up its attempts.)\<close>

theorem rate_limited_fetch_waits:
  assumes "select_task row_locked now (crawl_tasks db) = Some t" and "distinct_tasks db"
    and "ct_kind t = ''fetch_post''" and "ct_params t = JObj [(''post_id'', JStr pid)]" and "pid \<noteq> []"
    and "ce_get env = (\<lambda>path query. fst (client_get tp settings True path query cs))"
    and "tp_send tp (cs_sent cs) (''/posts/'' @ pid) (JObj []) = Inr resp" and "hp_status resp = 429"
    and "reply_header resp ''Retry-After'' = Some h" and "py_int h = Some secs"
    and "add_seconds (tp_now tp (cs_sent cs)) secs = Inr until"
  shows "cs_sent (snd (client_get tp settings True (''/posts/'' @ pid) (JObj []) cs)) = Suc (cs_sent cs) \<and>
    (let row = put_off now until (exn_str (RateLimitResetError until)) t
     in worker_turn (get_handler env) exn_str row_locked now w db = (True, update_task (ct_id t) (\<lambda>_. row) db)
       \<and> (\<forall>time < until. \<not> claimable time row))"
proof -
  have path: "py_startswith (''/posts/'' @ pid) ''/''" by (simp add: py_startswith_def)
  have params: "py_or (JObj []) (JObj []) = JObj []" by (simp add: py_or_def)
  note limited = client_429 [of tp cs "''/posts/'' @ pid" "JObj []", unfolded params, OF assms(7-11) path]
  have get: "ce_get env (''/posts/'' @ pid) (JObj []) = Inl (RateLimitResetError until)"
    using limited(1) by (simp add: assms(6))
  let ?db1 = "update_task (ct_id t) (\<lambda>r. r\<lparr>ct_locked_by := Some w, ct_locked_until := Some (now + LEASE_SECONDS)\<rparr>) db"
  have claim: "claim_task row_locked now w db = (Some t, ?db1)" using assms(1) by (simp add: claim_task_def)
  have h: "get_handler env ''fetch_post'' = Some (handle_fetch_post env)" by (simp add: get_handler_def registry_def)
  have run: "run_handler (handle_fetch_post env) (py_or (ct_params t) (JObj [])) ?db1
      = (Inl (RateLimitResetError until), ?db1)"
    using get assms(4,5) by (simp add: run_handler_def handle_fetch_post_def py_or_def)
  have "get_task (ct_id t) db = Some t"
    using select_task_Some(1) [OF assms(1)] assms(2)
    by (simp add: get_task_def distinct_tasks_def tbl_get_Some_iff)
  note released = release_is_put_off [OF assms(2) this, of now until]
  have "worker_turn (get_handler env) exn_str row_locked now w db
      = (True, update_task (ct_id t) (\<lambda>_. put_off now until (exn_str (RateLimitResetError until)) t) db)"
    using claim h run assms(3) released by (simp add: worker_turn_def finalize_def Let_def)
  then show ?thesis using limited(2) [of settings] put_off_not_claimable by (simp add: Let_def)
qed

section \<open>Concrete runs\<close>

definition ex_list_env :: crawl_env where
  "ex_list_env = ex_env (JObj [(''submolts'', JList [JObj [(''name'', JStr ''general'')], JObj [(''name'', JStr ''GENERAL'')]])])"

definition ex_listed :: crawl_db where
  "ex_listed = snd (run_handler (handle_list_submolts ex_list_env) (JObj []) empty_db)"

theorem crawler_tables_in_order_witness:
  "crawl_ok ex_listed \<and> list_all (\<lambda>t. get_handler ex_list_env (ct_kind t) \<noteq> None) (crawl_tasks ex_listed)"
proof -
  have "get_handler ex_list_env ''list_submolts'' = Some (handle_list_submolts ex_list_env)"
    by (simp add: get_handler_def registry_def)
  then have "crawler_step empty_db ex_listed" unfolding ex_listed_def by (rule crawler_step.handle)
  then show ?thesis by (intro crawler_tables_in_order r_into_rtranclp)
qed

definition ex_reply :: http_reply where
  "ex_reply = \<lparr>hp_status = 429, hp_headers = [(''retry-after'', ''120'')], hp_json = Inr JNull\<rparr>"

definition ex_transport :: transport where
  "ex_transport = \<lparr>tp_send = (\<lambda>n path query. Inr ex_reply), tp_now = (\<lambda>n. 12), tp_elapsed = (\<lambda>n. 1),
     tp_capture_ok = (\<lambda>n. True), tp_base_url = ''https://www.moltbook.com/api/v1'', tp_raw_capture = False\<rparr>"

definition ex_limited_env :: crawl_env where
  "ex_limited_env = \<lparr>ce_lib = ex_lib,
     ce_get = (\<lambda>path query. fst (client_get ex_transport (default_crawler_settings ''key'') True path query
                 (new_client (default_crawler_settings ''key'')))),
     ce_now = 10, ce_new_id = (\<lambda>_. 7)\<rparr>"

theorem rate_limited_fetch_waits_witness:
  "cs_sent (snd (client_get ex_transport (default_crawler_settings ''key'') True ''/posts/p1'' (JObj [])
      (new_client (default_crawler_settings ''key'')))) = 1 \<and>
   worker_turn (get_handler ex_limited_env) (\<lambda>_. ''rate limit'') (\<lambda>_. False) 10 ''w-0'' (ex_queue (ex_task 0 None))
     = (True, ex_queue ((ex_task 1 None)\<lparr>ct_not_before := Some 132, ct_last_error := Some ''rate limit'', ct_updated_at := 10\<rparr>))"
proof -
  let ?s = "default_crawler_settings ''key''"
  let ?q = "ex_queue (ex_task 0 None)"
  have sel: "select_task (\<lambda>_. False) 10 (crawl_tasks ?q) = Some (ex_task 0 None)"
    by (simp add: select_task_def ex_queue_def ex_task_def claimable_def)
  have d: "distinct_tasks ?q" by (simp add: distinct_tasks_def ex_queue_def)
  have int: "py_int ''120'' = Some 120" by code_simp
  have add: "add_seconds (tp_now ex_transport (cs_sent (new_client ?s))) 120 = Inr 132"
    by (simp add: add_seconds_def ex_transport_def)
  have hdr: "reply_header ex_reply ''Retry-After'' = Some ''120''" by code_simp
  have send: "tp_send ex_transport (cs_sent (new_client ?s)) (''/posts/'' @ ''p1'') (JObj []) = Inr ex_reply"
    by (simp add: ex_transport_def)
  have env: "ce_get ex_limited_env = (\<lambda>path query. fst (client_get ex_transport ?s True path query (new_client ?s)))"
    by (simp add: ex_limited_env_def)
  have sent: "cs_sent (new_client ?s) = 0" by (simp add: new_client_def)
  from rate_limited_fetch_waits [OF sel d _ _ _ env send _ hdr int add, of "\<lambda>_. ''rate limit''" "''w-0''"] sent
  show ?thesis
    by (auto simp: ex_task_def ex_reply_def put_off_def ex_queue_def update_task_def tbl_update_def Let_def)
qed

end
