(* ===== verification/MeritGraph.thy ===== *)
theory MeritGraph
  imports Prelude "HOL-Library.Char_ord" "HOL-Library.List_Lexorder"
begin

text \<open>
  The SQL of \<open>meritmolt/schema/ddl.py\<close>: the trigger functions that keep the MeritRank graph in step
  with the tables, and the two functions that rebuild it. The functions of the extension
  \<open>pgmer2\<close> are recorded as the calls made to them, in order. The tables are modelled by the columns
  this SQL reads.
\<close>

section \<open>Tables and calls\<close>

record mr_post =
  mp_id :: string
  mp_submolt_id :: "string option"
  mp_author_id :: string
  mp_ticker :: int

record mr_comment =
  mc_id :: string
  mc_post_id :: string
  mc_parent_id :: "string option"
  mc_author_id :: string
  mc_ticker :: int

record Subscribe =
  sb_subject :: string
  sb_object :: string
  sb_amount :: int
  sb_ticker :: int

record bulk_edge =
  be_ord :: nat
  be_src :: string
  be_dst :: string
  be_weight :: rat
  be_magnitude :: int
  be_context :: string

datatype mr_call =
    PutEdge string string rat string int
  | DeleteEdge string string string
  | ResetGraph
  | SyncGraph int
  | BulkLoad "bulk_edge list" int

text \<open>\<open>user_vsids\<close> maps a user to its counter; \<open>mr_trace\<close> are the calls made so far.\<close>

record mr_db =
  mr_agents :: "string list"
  mr_submolts :: "(string \<times> string) list"
  mr_posts :: "mr_post list"
  mr_comments :: "mr_comment list"
  mr_subscribe :: "Subscribe list"
  user_vsids :: "string \<rightharpoonup> int"
  mr_trace :: "mr_call list"

definition emit :: "mr_call list \<Rightarrow> mr_db \<Rightarrow> mr_db" where
  "emit calls db = db\<lparr>mr_trace := mr_trace db @ calls\<rparr>"

definition find_post :: "string \<Rightarrow> mr_db \<Rightarrow> mr_post option" where
  "find_post i db = find (\<lambda>p. mp_id p = i) (mr_posts db)"

definition find_comment :: "string \<Rightarrow> mr_db \<Rightarrow> mr_comment option" where
  "find_comment i db = find (\<lambda>c. mc_id c = i) (mr_comments db)"

section \<open>Helpers\<close>

definition mm_pgmer_prefix :: "string \<Rightarrow> string \<Rightarrow> string" where
  "mm_pgmer_prefix kind raw_id =
     (if raw_id = [] then raw_id else if hd raw_id \<in> set ''UBC'' then raw_id else kind @ raw_id)"

definition bump_vsids :: "string \<Rightarrow> mr_db \<Rightarrow> int \<times> mr_db" where
  "bump_vsids user_id db =
     (let n = (case user_vsids db user_id of None \<Rightarrow> 1 | Some n \<Rightarrow> n + 1)
      in (n, db\<lparr>user_vsids := (user_vsids db)(user_id \<mapsto> n)\<rparr>))"

definition mm_get_board :: "string option \<Rightarrow> mr_db \<Rightarrow> string" where
  "mm_get_board submolt_id db =
     (case submolt_id of
        None \<Rightarrow> []
      | Some i \<Rightarrow> (case map_of (mr_submolts db) i of None \<Rightarrow> [] | Some name \<Rightarrow> name))"

text \<open>\<open>mm_get_board((SELECT submolt_id FROM mb_post WHERE id = ...))\<close>.\<close>

definition post_board :: "string \<Rightarrow> mr_db \<Rightarrow> string" where
  "post_board post_id db =
     (case find_post post_id db of None \<Rightarrow> [] | Some p \<Rightarrow> mm_get_board (mp_submolt_id p) db)"

section \<open>Trigger functions\<close>

definition on_mb_agent_created :: "string \<Rightarrow> mr_db \<Rightarrow> mr_db" where
  "on_mb_agent_created i db =
     (case user_vsids db i of None \<Rightarrow> db\<lparr>user_vsids := (user_vsids db)(i \<mapsto> 0)\<rparr> | Some _ \<Rightarrow> db)"

definition author_id_ticker_trigger :: "string \<Rightarrow> mr_db \<Rightarrow> int \<times> mr_db" where
  "author_id_ticker_trigger author_id = bump_vsids author_id"

definition subject_ticker_trigger :: "string \<Rightarrow> mr_db \<Rightarrow> int \<times> mr_db" where
  "subject_ticker_trigger subject = bump_vsids subject"

lemmas ticker_triggers [simp] = author_id_ticker_trigger_def subject_ticker_trigger_def

text \<open>Comments of an author that \<open>COUNT(*)\<close> counts, the excluded one left out.\<close>

definition count_comments_of :: "(mr_comment \<Rightarrow> bool) \<Rightarrow> string option \<Rightarrow> mr_db \<Rightarrow> nat" where
  "count_comments_of P exclude_id db =
     length (filter (\<lambda>c. P c \<and> exclude_id \<noteq> Some (mc_id c)) (mr_comments db))"

definition upvote_call :: "string \<Rightarrow> string \<Rightarrow> nat \<Rightarrow> string \<Rightarrow> int \<Rightarrow> mr_call" where
  "upvote_call src dst cnt board ticker =
     (if cnt = 0 then DeleteEdge src dst board else PutEdge src dst (of_nat cnt) board ticker)"

text \<open>The calls, and the number returned.\<close>

definition mm_sync_comment_upvote_edge ::
  "string \<Rightarrow> string \<Rightarrow> string \<Rightarrow> int \<Rightarrow> string option \<Rightarrow> mr_db \<Rightarrow> mr_call list \<times> int" where
  "mm_sync_comment_upvote_edge author_id post_id board ticker exclude_id db =
     (if map_option mp_author_id (find_post post_id db) \<noteq> Some author_id
      then ([upvote_call (mm_pgmer_prefix ''U'' author_id) (mm_pgmer_prefix ''B'' post_id)
               (count_comments_of (\<lambda>c. mc_author_id c = author_id \<and> mc_post_id c = post_id) exclude_id db)
               board ticker], 1)
      else ([], 0))"

definition mm_sync_reply_upvote_edge ::
  "string \<Rightarrow> string \<Rightarrow> string \<Rightarrow> int \<Rightarrow> string option \<Rightarrow> mr_db \<Rightarrow> mr_call list \<times> int" where
  "mm_sync_reply_upvote_edge author_id parent_id board ticker exclude_id db =
     (if map_option mc_author_id (find_comment parent_id db) \<noteq> Some author_id
      then ([upvote_call (mm_pgmer_prefix ''U'' author_id) (mm_pgmer_prefix ''C'' parent_id)
               (count_comments_of (\<lambda>c. mc_author_id c = author_id \<and> mc_parent_id c = Some parent_id) exclude_id db)
               board ticker], 1)
      else ([], 0))"

text \<open>\<open>notify_meritrank_mb_post_mutation\<close>, one definition per \<open>TG_OP\<close>.\<close>

definition post_inserted :: "mr_post \<Rightarrow> mr_db \<Rightarrow> mr_call list" where
  "post_inserted p db =
     (let board = mm_get_board (mp_submolt_id p) db;
          b = mm_pgmer_prefix ''B'' (mp_id p);
          u = mm_pgmer_prefix ''U'' (mp_author_id p)
      in [PutEdge b u 1 board 0, PutEdge u b 1 board (mp_ticker p)])"

definition post_deleted :: "mr_post \<Rightarrow> mr_db \<Rightarrow> mr_call list" where
  "post_deleted p db =
     (let board = mm_get_board (mp_submolt_id p) db;
          b = mm_pgmer_prefix ''B'' (mp_id p);
          u = mm_pgmer_prefix ''U'' (mp_author_id p)
      in [DeleteEdge b u board, DeleteEdge u b board])"

definition reply_calls :: "mr_comment \<Rightarrow> string \<Rightarrow> string option \<Rightarrow> mr_db \<Rightarrow> mr_call list \<times> int" where
  "reply_calls c board exclude_id db =
     (case mc_parent_id c of
        None \<Rightarrow> ([], 0)
      | Some parent \<Rightarrow> mm_sync_reply_upvote_edge (mc_author_id c) parent board (mc_ticker c) exclude_id db)"

text \<open>\<open>notify_meritrank_mb_comment_mutation\<close>.\<close>

definition comment_inserted :: "mr_comment \<Rightarrow> mr_db \<Rightarrow> mr_call list" where
  "comment_inserted c db =
     (let board = post_board (mc_post_id c) db;
          n = mm_pgmer_prefix ''C'' (mc_id c);
          u = mm_pgmer_prefix ''U'' (mc_author_id c)
      in [PutEdge n u 1 board 0, PutEdge u n 1 board (mc_ticker c)]
         @ fst (mm_sync_comment_upvote_edge (mc_author_id c) (mc_post_id c) board (mc_ticker c) None db)
         @ fst (reply_calls c board None db))"

definition comment_deleted :: "mr_comment \<Rightarrow> mr_db \<Rightarrow> mr_call list" where
  "comment_deleted c db =
     (let board = post_board (mc_post_id c) db;
          n = mm_pgmer_prefix ''C'' (mc_id c);
          u = mm_pgmer_prefix ''U'' (mc_author_id c)
      in [DeleteEdge n u board, DeleteEdge u n board]
         @ fst (mm_sync_comment_upvote_edge (mc_author_id c) (mc_post_id c) board (mc_ticker c) (Some (mc_id c)) db)
         @ fst (reply_calls c board (Some (mc_id c)) db))"

text \<open>\<open>notify_meritrank_subscribe_mutation\<close>.\<close>

definition subscribe_put :: "Subscribe \<Rightarrow> mr_call list" where
  "subscribe_put s =
     [PutEdge (mm_pgmer_prefix ''U'' (sb_subject s)) (mm_pgmer_prefix ''U'' (sb_object s))
        (of_int (sb_amount s)) [] (sb_ticker s)]"

definition subscribe_deleted :: "Subscribe \<Rightarrow> mr_call list" where
  "subscribe_deleted s =
     [DeleteEdge (mm_pgmer_prefix ''U'' (sb_subject s)) (mm_pgmer_prefix ''U'' (sb_object s)) []]"

section \<open>Statements\<close>

text \<open>
  What a statement on one of the tables does, with its triggers: \<open>BEFORE INSERT\<close> draws a ticker, the row
  is stored, \<open>AFTER\<close> notifies. A statement that a constraint refuses changes nothing.
\<close>

definition insert_agent :: "string \<Rightarrow> (mr_db, unit) action" where
  "insert_agent i db =
     (if i \<in> set (mr_agents db) then (Inl (IntegrityError ''mb_agent_pkey''), db)
      else (Inr (), on_mb_agent_created i (db\<lparr>mr_agents := mr_agents db @ [i]\<rparr>)))"

definition insert_post :: "string \<Rightarrow> string option \<Rightarrow> string \<Rightarrow> (mr_db, unit) action" where
  "insert_post i submolt_id author_id db =
     (if find_post i db \<noteq> None then (Inl (IntegrityError ''mb_post_pkey''), db)
      else if author_id \<notin> set (mr_agents db)
        \<or> (case submolt_id of None \<Rightarrow> False | Some s \<Rightarrow> s \<notin> fst ` set (mr_submolts db))
      then (Inl (IntegrityError ''foreign key''), db)
      else
        let (ticker, db1) = author_id_ticker_trigger author_id db;
            p = \<lparr>mp_id = i, mp_submolt_id = submolt_id, mp_author_id = author_id, mp_ticker = ticker\<rparr>;
            db2 = db1\<lparr>mr_posts := mr_posts db1 @ [p]\<rparr>
        in (Inr (), emit (post_inserted p db2) db2))"

definition insert_comment ::
  "string \<Rightarrow> string \<Rightarrow> string option \<Rightarrow> string \<Rightarrow> (mr_db, unit) action" where
  "insert_comment i post_id parent_id author_id db =
     (if find_comment i db \<noteq> None then (Inl (IntegrityError ''mb_comment_pkey''), db)
      else if author_id \<notin> set (mr_agents db) \<or> find_post post_id db = None
        \<or> (case parent_id of None \<Rightarrow> False | Some q \<Rightarrow> q \<noteq> i \<and> find_comment q db = None)
      then (Inl (IntegrityError ''foreign key''), db)
      else
        let (ticker, db1) = author_id_ticker_trigger author_id db;
            c = \<lparr>mc_id = i, mc_post_id = post_id, mc_parent_id = parent_id, mc_author_id = author_id,
                 mc_ticker = ticker\<rparr>;
            db2 = db1\<lparr>mr_comments := mr_comments db1 @ [c]\<rparr>
        in (Inr (), emit (comment_inserted c db2) db2))"

text \<open>\<open>ON DELETE SET NULL\<close> on \<open>mb_comment.parent_id\<close>: an update, which notifies nobody.\<close>

definition orphan_replies :: "string \<Rightarrow> mr_db \<Rightarrow> mr_db" where
  "orphan_replies i db =
     db\<lparr>mr_comments := map (\<lambda>c. if mc_parent_id c = Some i then c\<lparr>mc_parent_id := None\<rparr> else c) (mr_comments db)\<rparr>"

definition comment_gone :: "mr_comment \<Rightarrow> mr_db \<Rightarrow> mr_db" where
  "comment_gone c db = (let db1 = orphan_replies (mc_id c) db in emit (comment_deleted c db1) db1)"

definition delete_comment :: "string \<Rightarrow> mr_db \<Rightarrow> mr_db" where
  "delete_comment i db =
     (case find_comment i db of
        None \<Rightarrow> db
      | Some c \<Rightarrow> comment_gone c (db\<lparr>mr_comments := filter (\<lambda>c. mc_id c \<noteq> i) (mr_comments db)\<rparr>))"

text \<open>
  \<open>ON DELETE CASCADE\<close> on \<open>mb_comment.post_id\<close>: the trigger of the constraint runs first (triggers run in
  the order of their names), so the comments are deleted, with their own triggers, when the post is
  gone already.
\<close>

definition delete_post :: "string \<Rightarrow> mr_db \<Rightarrow> mr_db" where
  "delete_post i db =
     (case find_post i db of
        None \<Rightarrow> db
      | Some p \<Rightarrow>
          let gone = filter (\<lambda>c. mc_post_id c = i) (mr_comments db);
              db1 = db\<lparr>mr_posts := filter (\<lambda>p. mp_id p \<noteq> i) (mr_posts db),
                       mr_comments := filter (\<lambda>c. mc_post_id c \<noteq> i) (mr_comments db)\<rparr>;
              db2 = fold comment_gone gone db1
          in emit (post_deleted p db2) db2)"

text \<open>\<open>UPDATE mb_post SET submolt_id = ...\<close>, as the enrichment upserts do: no trigger.\<close>

definition update_post_submolt :: "string \<Rightarrow> string option \<Rightarrow> mr_db \<Rightarrow> mr_db" where
  "update_post_submolt i submolt_id db =
     db\<lparr>mr_posts := map (\<lambda>p. if mp_id p = i then p\<lparr>mp_submolt_id := submolt_id\<rparr> else p) (mr_posts db)\<rparr>"

definition same_pair :: "string \<Rightarrow> string \<Rightarrow> Subscribe \<Rightarrow> bool" where
  "same_pair subject object s \<longleftrightarrow> sb_subject s = subject \<and> sb_object s = object"

text \<open>
  \<open>INSERT INTO subscribe ... ON CONFLICT (subject, object) DO UPDATE SET amount = ...\<close>. The \<open>BEFORE INSERT\<close>
  trigger runs whether or not there is a conflict, and the \<open>BEFORE UPDATE\<close> trigger after it when
  there is one.
\<close>

definition upsert_subscribe :: "string \<Rightarrow> string \<Rightarrow> int \<Rightarrow> (mr_db, unit) action" where
  "upsert_subscribe subject object amount db =
     (if amount < - 1 \<or> 1 < amount then (Inl (IntegrityError ''subscribe_amount_check''), db)
      else if subject \<notin> set (mr_agents db) \<or> object \<notin> set (mr_agents db)
      then (Inl (IntegrityError ''foreign key''), db)
      else
        let (ticker, db1) = subject_ticker_trigger subject db
        in case find (same_pair subject object) (mr_subscribe db1) of
             None \<Rightarrow>
               (let s = \<lparr>sb_subject = subject, sb_object = object, sb_amount = amount, sb_ticker = ticker\<rparr>;
                    db2 = db1\<lparr>mr_subscribe := mr_subscribe db1 @ [s]\<rparr>
                in (Inr (), emit (subscribe_put s) db2))
           | Some _ \<Rightarrow>
               (let (ticker2, db2) = subject_ticker_trigger subject db1;
                    s = \<lparr>sb_subject = subject, sb_object = object, sb_amount = amount, sb_ticker = ticker2\<rparr>;
                    db3 = db2\<lparr>mr_subscribe :=
                            map (\<lambda>r. if same_pair subject object r then s else r) (mr_subscribe db2)\<rparr>
                in (Inr (), emit (subscribe_put s) db3)))"

definition delete_subscribe :: "string \<Rightarrow> string \<Rightarrow> mr_db \<Rightarrow> mr_db" where
  "delete_subscribe subject object db =
     (case find (same_pair subject object) (mr_subscribe db) of
        None \<Rightarrow> db
      | Some s \<Rightarrow>
          emit (subscribe_deleted s) (db\<lparr>mr_subscribe := filter (\<lambda>r. \<not> same_pair subject object r) (mr_subscribe db)\<rparr>))"

section \<open>Rebuilding the graph\<close>

text \<open>The three loops of \<open>meritrank_init\<close>: the calls, and what is added to \<open>_total\<close>.\<close>

definition init_comment :: "mr_db \<Rightarrow> mr_comment \<Rightarrow> mr_call list \<times> int" where
  "init_comment db c =
     (let board = post_board (mc_post_id c) db;
          n = mm_pgmer_prefix ''C'' (mc_id c);
          u = mm_pgmer_prefix ''U'' (mc_author_id c);
          (calls, k) = mm_sync_comment_upvote_edge (mc_author_id c) (mc_post_id c) board (mc_ticker c) None db;
          (calls', k') = reply_calls c board None db
      in ([PutEdge n u 1 board 0, PutEdge u n 1 board (mc_ticker c)] @ calls @ calls', 2 + k + k'))"

definition joined_comments :: "mr_db \<Rightarrow> mr_comment list" where
  "joined_comments db = filter (\<lambda>c. find_post (mc_post_id c) db \<noteq> None) (mr_comments db)"

definition meritrank_init :: "mr_db \<Rightarrow> int \<times> mr_db" where
  "meritrank_init db =
     (let subs = concat (map subscribe_put (mr_subscribe db));
          posts = concat (map (\<lambda>p. post_inserted p db) (mr_posts db));
          comments = map (init_comment db) (joined_comments db)
      in (int (length subs) + 2 * int (length (mr_posts db)) + sum_list (map snd comments),
          emit (subs @ posts @ concat (map fst comments)) db))"

definition edge :: "nat \<Rightarrow> string \<Rightarrow> string \<Rightarrow> rat \<Rightarrow> int \<Rightarrow> string \<Rightarrow> bulk_edge" where
  "edge ord src dst weight magnitude context =
     \<lparr>be_ord = ord, be_src = src, be_dst = dst, be_weight = weight, be_magnitude = magnitude, be_context = context\<rparr>"

text \<open>The groups of parts 4 and 5: an author with a post or comment of somebody else.\<close>

definition upvoted_posts :: "mr_db \<Rightarrow> (string \<times> string) list" where
  "upvoted_posts db =
     remdups (map (\<lambda>c. (mc_author_id c, mc_post_id c))
       (filter (\<lambda>c. map_option mp_author_id (find_post (mc_post_id c) db) \<noteq> Some (mc_author_id c))
         (joined_comments db)))"

definition replies :: "mr_db \<Rightarrow> (mr_comment \<times> mr_comment) list" where
  "replies db =
     concat (map (\<lambda>c. case mc_parent_id c of
         None \<Rightarrow> []
       | Some q \<Rightarrow> (case find_comment q db of
             None \<Rightarrow> []
           | Some p \<Rightarrow> if find_post (mc_post_id p) db \<noteq> None \<and> mc_author_id c \<noteq> mc_author_id p then [(c, p)] else []))
       (mr_comments db))"

definition upvoted_comments :: "mr_db \<Rightarrow> (string \<times> mr_comment) list" where
  "upvoted_comments db = remdups (map (\<lambda>(c, p). (mc_author_id c, p)) (replies db))"

definition bulk_edges :: "mr_db \<Rightarrow> bulk_edge list" where
  "bulk_edges db =
     map (\<lambda>s. edge 1 (mm_pgmer_prefix ''U'' (sb_subject s)) (mm_pgmer_prefix ''U'' (sb_object s))
            (of_int (sb_amount s)) (sb_ticker s) []) (mr_subscribe db)
     @ map (\<lambda>p. edge 2 (mm_pgmer_prefix ''B'' (mp_id p)) (mm_pgmer_prefix ''U'' (mp_author_id p)) 1 0
            (mm_get_board (mp_submolt_id p) db)) (mr_posts db)
     @ map (\<lambda>p. edge 2 (mm_pgmer_prefix ''U'' (mp_author_id p)) (mm_pgmer_prefix ''B'' (mp_id p)) 1 (mp_ticker p)
            (mm_get_board (mp_submolt_id p) db)) (mr_posts db)
     @ map (\<lambda>c. edge 3 (mm_pgmer_prefix ''C'' (mc_id c)) (mm_pgmer_prefix ''U'' (mc_author_id c)) 1 0
            (post_board (mc_post_id c) db)) (joined_comments db)
     @ map (\<lambda>c. edge 3 (mm_pgmer_prefix ''U'' (mc_author_id c)) (mm_pgmer_prefix ''C'' (mc_id c)) 1 (mc_ticker c)
            (post_board (mc_post_id c) db)) (joined_comments db)
     @ map (\<lambda>(u, p). edge 4 (mm_pgmer_prefix ''U'' u) (mm_pgmer_prefix ''B'' p)
            (of_nat (count_comments_of (\<lambda>c. mc_author_id c = u \<and> mc_post_id c = p) None db)) 0
            (post_board p db)) (upvoted_posts db)
     @ map (\<lambda>(u, q). edge 5 (mm_pgmer_prefix ''U'' u) (mm_pgmer_prefix ''C'' (mc_id q))
            (of_nat (count_comments_of (\<lambda>c. mc_author_id c = u \<and> mc_parent_id c = Some (mc_id q)) None db)) 0
            (post_board (mc_post_id q) db)) (upvoted_comments db)"

definition meritrank_bulk_init :: "int \<Rightarrow> mr_db \<Rightarrow> int \<times> mr_db" where
  "meritrank_bulk_init timeout_msec db =
     (let edges = sort_key be_ord (sort_key be_src (sort_key be_dst (bulk_edges db)))
      in (int (length edges),
          emit [ResetGraph, SyncGraph 1000, BulkLoad edges timeout_msec, SyncGraph 1000] db))"

end
