(* ===== verification/MeritSpec.thy ===== *)
theory MeritSpec
  imports MeritGraph Tables
begin

text \<open>
  The graph that the tables stand for, as a function of the tables, and the proof that the triggers
  of \<open>ddl.py\<close> keep the recorded edges equal to it and that the rebuilding functions load exactly it.
\<close>

section \<open>The abstract graph\<close>

datatype node = UserN string | PostN string | CommentN string

fun node_name :: "node \<Rightarrow> string" where
  "node_name (UserN i) = mm_pgmer_prefix ''U'' i"
| "node_name (PostN i) = mm_pgmer_prefix ''B'' i"
| "node_name (CommentN i) = mm_pgmer_prefix ''C'' i"

definition safe_id :: "string \<Rightarrow> bool" where
  "safe_id i \<longleftrightarrow> i \<noteq> [] \<and> hd i \<notin> set ''UBC''"

fun safe_node :: "node \<Rightarrow> bool" where
  "safe_node (UserN i) = safe_id i"
| "safe_node (PostN i) = safe_id i"
| "safe_node (CommentN i) = safe_id i"

lemma node_name_inj: "safe_node m \<Longrightarrow> safe_node n \<Longrightarrow> node_name m = node_name n \<longleftrightarrow> m = n"
  by (cases m; cases n) (auto simp: safe_id_def mm_pgmer_prefix_def)

definition positive :: "nat \<Rightarrow> rat option" where
  "positive n = (if n = 0 then None else Some (of_nat n))"

definition comments_on :: "string \<Rightarrow> string \<Rightarrow> mr_db \<Rightarrow> nat" where
  "comments_on u p = count_comments_of (\<lambda>c. mc_author_id c = u \<and> mc_post_id c = p) None"

definition replies_to :: "string \<Rightarrow> string \<Rightarrow> mr_db \<Rightarrow> nat" where
  "replies_to u q = count_comments_of (\<lambda>c. mc_author_id c = u \<and> mc_parent_id c = Some q) None"

text \<open>
  A subscription is an edge between users outside of every board. A post or comment and its author
  have an edge of weight 1 each way, in the board of the post. Another user has an edge to it
  weighted by the number of its comments on the post, or replies to the comment.
\<close>

fun expected :: "mr_db \<Rightarrow> node \<Rightarrow> node \<Rightarrow> string \<Rightarrow> rat option" where
  "expected db (UserN u) (UserN v) b =
     (if b = [] then map_option (\<lambda>s. of_int (sb_amount s)) (find (same_pair u v) (mr_subscribe db)) else None)"
| "expected db (PostN p) (UserN u) b =
     (case find_post p db of
        None \<Rightarrow> None
      | Some r \<Rightarrow> if mp_author_id r = u \<and> post_board p db = b then Some 1 else None)"
| "expected db (UserN u) (PostN p) b =
     (case find_post p db of
        None \<Rightarrow> None
      | Some r \<Rightarrow>
          if post_board p db \<noteq> b then None
          else if mp_author_id r = u then Some 1 else positive (comments_on u p db))"
| "expected db (CommentN c) (UserN u) b =
     (case find_comment c db of
        None \<Rightarrow> None
      | Some r \<Rightarrow> if mc_author_id r = u \<and> post_board (mc_post_id r) db = b then Some 1 else None)"
| "expected db (UserN u) (CommentN c) b =
     (case find_comment c db of
        None \<Rightarrow> None
      | Some r \<Rightarrow>
          if post_board (mc_post_id r) db \<noteq> b then None
          else if mc_author_id r = u then Some 1 else positive (replies_to u c db))"
| "expected db _ _ b = None"

section \<open>What a trace says last of an edge\<close>

type_synonym graph = "string \<times> string \<times> string \<Rightarrow> rat option"

fun apply_call :: "mr_call \<Rightarrow> graph \<Rightarrow> graph" where
  "apply_call (PutEdge s d w b k) g = g((s, d, b) \<mapsto> w)"
| "apply_call (DeleteEdge s d b) g = g((s, d, b) := None)"
| "apply_call ResetGraph g = (\<lambda>_. None)"
| "apply_call (SyncGraph t) g = g"
| "apply_call (BulkLoad es t) g = fold (\<lambda>e g. g((be_src e, be_dst e, be_context e) \<mapsto> be_weight e)) es g"

definition edges_of :: "mr_call list \<Rightarrow> graph" where
  "edges_of calls = fold apply_call calls (\<lambda>_. None)"

lemma edges_of_append: "edges_of (calls @ calls') = fold apply_call calls' (edges_of calls)"
  by (simp add: edges_of_def)

definition agrees :: "mr_db \<Rightarrow> graph \<Rightarrow> bool" where
  "agrees db g \<longleftrightarrow>
     (\<forall>m n b. safe_node m \<longrightarrow> safe_node n \<longrightarrow> g (node_name m, node_name n, b) = expected db m n b)"

lemma apply_put:
  assumes "safe_node x" "safe_node y" "safe_node m" "safe_node n"
  shows "apply_call (PutEdge (node_name x) (node_name y) w c k) g (node_name m, node_name n, b) =
      (if m = x \<and> n = y \<and> b = c then Some w else g (node_name m, node_name n, b))"
    and "apply_call (DeleteEdge (node_name x) (node_name y) c) g (node_name m, node_name n, b) =
      (if m = x \<and> n = y \<and> b = c then None else g (node_name m, node_name n, b))"
  using node_name_inj assms by auto

section \<open>Well-formed tables\<close>

definition mr_wf :: "mr_db \<Rightarrow> bool" where
  "mr_wf db \<longleftrightarrow>
     distinct (map mp_id (mr_posts db)) \<and> distinct (map mc_id (mr_comments db)) \<and>
     distinct (map (\<lambda>s. (sb_subject s, sb_object s)) (mr_subscribe db)) \<and>
     (\<forall>i\<in>set (mr_agents db). safe_id i) \<and>
     (\<forall>p\<in>set (mr_posts db). safe_id (mp_id p) \<and> mp_author_id p \<in> set (mr_agents db) \<and>
        (\<forall>s. mp_submolt_id p = Some s \<longrightarrow> s \<in> fst ` set (mr_submolts db))) \<and>
     (\<forall>c\<in>set (mr_comments db). safe_id (mc_id c) \<and> mc_author_id c \<in> set (mr_agents db) \<and>
        find_post (mc_post_id c) db \<noteq> None \<and>
        (\<forall>q. mc_parent_id c = Some q \<longrightarrow> (\<exists>p. find_comment q db = Some p \<and> mc_post_id p = mc_post_id c))) \<and>
     (\<forall>s\<in>set (mr_subscribe db). sb_subject s \<in> set (mr_agents db) \<and> sb_object s \<in> set (mr_agents db))"

definition mr_inv :: "mr_db \<Rightarrow> bool" where
  "mr_inv db \<longleftrightarrow> mr_wf db \<and> agrees db (edges_of (mr_trace db))"

lemma find_post_SomeD: "find_post i db = Some p \<Longrightarrow> p \<in> set (mr_posts db) \<and> mp_id p = i"
  by (auto simp: find_post_def find_Some_iff)

lemma find_comment_SomeD: "find_comment i db = Some c \<Longrightarrow> c \<in> set (mr_comments db) \<and> mc_id c = i"
  by (auto simp: find_comment_def find_Some_iff)

lemma find_post_iff: "mr_wf db \<Longrightarrow> find_post i db = Some p \<longleftrightarrow> p \<in> set (mr_posts db) \<and> mp_id p = i"
  unfolding find_post_def mr_wf_def by (rule tbl_get_Some_iff [unfolded tbl_get_def]) blast

lemma find_comment_iff: "mr_wf db \<Longrightarrow> find_comment i db = Some c \<longleftrightarrow> c \<in> set (mr_comments db) \<and> mc_id c = i"
  unfolding find_comment_def mr_wf_def by (rule tbl_get_Some_iff [unfolded tbl_get_def]) blast

lemma count_none_iff: "count_comments_of P None db = 0 \<longleftrightarrow> (\<forall>c\<in>set (mr_comments db). \<not> P c)"
  by (simp add: count_comments_of_def filter_empty_conv)

lemma find_append:
  "find P (xs @ ys) = (case find P xs of None \<Rightarrow> find P ys | Some x \<Rightarrow> Some x)"
  by (induction xs) auto

lemma emit_frame [simp]:
  "mr_posts (emit calls db) = mr_posts db" "mr_comments (emit calls db) = mr_comments db"
  "mr_agents (emit calls db) = mr_agents db" "mr_submolts (emit calls db) = mr_submolts db"
  "mr_subscribe (emit calls db) = mr_subscribe db" "user_vsids (emit calls db) = user_vsids db"
  "mr_trace (emit calls db) = mr_trace db @ calls"
  by (simp_all add: emit_def)

text \<open>Neither the counters nor the trace matter to the graph.\<close>

definition same_tables :: "mr_db \<Rightarrow> mr_db \<Rightarrow> bool" where
  "same_tables db db' \<longleftrightarrow>
     mr_posts db = mr_posts db' \<and> mr_comments db = mr_comments db' \<and> mr_submolts db = mr_submolts db'
     \<and> mr_subscribe db = mr_subscribe db' \<and> mr_agents db = mr_agents db'"

lemma same_tables_facts:
  assumes "same_tables db db'"
  shows "find_post i db = find_post i db'" "find_comment i db = find_comment i db'"
    "post_board i db = post_board i db'" "mm_get_board s db = mm_get_board s db'"
    "count_comments_of P e db = count_comments_of P e db'" "expected db m n b = expected db' m n b"
    "mr_wf db = mr_wf db'"
proof -
  show p: "find_post i db = find_post i db'" for i using assms by (simp add: same_tables_def find_post_def)
  show c: "find_comment i db = find_comment i db'" for i using assms by (simp add: same_tables_def find_comment_def)
  show g: "mm_get_board s db = mm_get_board s db'" for s
    using assms by (cases s) (simp_all add: same_tables_def mm_get_board_def)
  show b: "post_board i db = post_board i db'" for i
    by (cases "find_post i db'") (simp_all add: post_board_def p g)
  show k: "count_comments_of P e db = count_comments_of P e db'" for P e
    using assms by (simp add: same_tables_def count_comments_of_def)
  show "expected db m n b = expected db' m n b"
    using assms by (cases m; cases n) (simp_all add: p c b k comments_on_def replies_to_def same_tables_def cong: option.case_cong if_cong)
  show "mr_wf db = mr_wf db'"
    using assms by (simp add: mr_wf_def p c same_tables_def)
qed

section \<open>Insertions\<close>

lemma bump_same: "bump_vsids u db = (n, db1) \<Longrightarrow> same_tables db1 db \<and> mr_trace db1 = mr_trace db"
  by (auto simp: bump_vsids_def Let_def same_tables_def)

lemma same_tables_sym: "same_tables a b \<Longrightarrow> same_tables b a"
  by (simp add: same_tables_def)

lemma emit_same: "same_tables (emit calls db) db"
  by (simp add: same_tables_def)

text \<open>An invariant is kept when the calls of a statement change the graph as the tables changed.\<close>

lemma mr_invI:
  assumes "mr_inv db" and "mr_trace db' = mr_trace db @ calls" and "mr_wf db'"
    and "\<And>g m n b. agrees db g \<Longrightarrow> safe_node m \<Longrightarrow> safe_node n \<Longrightarrow>
      fold apply_call calls g (node_name m, node_name n, b) = expected db' m n b"
  shows "mr_inv db'"
  using assms by (simp add: mr_inv_def agrees_def edges_of_append)

lemma agreesD:
  "agrees db g \<Longrightarrow> safe_node m \<Longrightarrow> safe_node n \<Longrightarrow> g (node_name m, node_name n, b) = expected db m n b"
  by (simp add: agrees_def)

lemmas fold_calls = fold.simps o_apply id_apply append.simps

lemma find_post_snoc:
  "find_post j (db\<lparr>mr_posts := mr_posts db @ [p]\<rparr>) =
     (case find_post j db of Some r \<Rightarrow> Some r | None \<Rightarrow> if mp_id p = j then Some p else None)"
  by (simp add: find_post_def find_append split: option.split)

lemma insert_post_expected:
  assumes wf: "mr_wf db" and fresh: "find_post i db = None"
    and p: "p = \<lparr>mp_id = i, mp_submolt_id = s, mp_author_id = a, mp_ticker = t\<rparr>"
    and db': "db' = db\<lparr>mr_posts := mr_posts db @ [p]\<rparr>"
  shows "expected db' m n b =
    (if m = UserN a \<and> n = PostN i \<and> b = mm_get_board s db then Some 1
     else if m = PostN i \<and> n = UserN a \<and> b = mm_get_board s db then Some 1
     else expected db m n b)"
proof -
  have fp: "find_post j db' = (if j = i then Some p else find_post j db)" for j
    using fresh by (simp add: db' find_post_snoc p split: option.split)
  have fc: "find_comment j db' = find_comment j db" for j by (simp add: db' find_comment_def)
  have gb: "mm_get_board x db' = mm_get_board x db" for x
    by (cases x) (simp_all add: db' mm_get_board_def)
  have pb: "post_board j db' = (if j = i then mm_get_board s db else post_board j db)" for j
    by (cases "find_post j db") (simp_all add: post_board_def fp gb p)
  have cn: "count_comments_of P e db' = count_comments_of P e db" for P e
    by (simp add: db' count_comments_of_def)
  have none: "mc_post_id c \<noteq> i" if "c \<in> set (mr_comments db)" for c
    using wf that fresh by (auto simp: mr_wf_def)
  then have on: "comments_on u i db = 0" for u by (auto simp: comments_on_def count_none_iff)
  have cb: "post_board (mc_post_id r) db' = post_board (mc_post_id r) db" if "find_comment j db = Some r" for j r
    using none find_comment_SomeD [OF that] by (simp add: pb)
  show ?thesis
  proof (cases m; cases n)
    fix u c
    assume "m = UserN u" "n = CommentN c"
    then show ?thesis
      by (cases "find_comment c db") (simp_all add: fc cb replies_to_def cn)
  next
    fix u c
    assume "m = CommentN c" "n = UserN u"
    then show ?thesis by (cases "find_comment c db") (simp_all add: fc cb)
  next
    fix u j
    assume "m = UserN u" "n = PostN j"
    then show ?thesis
      using on [of u] by (cases "find_post j db") (auto simp: fp pb p comments_on_def cn fresh positive_def)
  next
    fix u j
    assume "m = PostN j" "n = UserN u"
    then show ?thesis by (cases "find_post j db") (auto simp: fp pb p fresh)
  qed (simp_all add: db')
qed

lemma insert_post_wf:
  assumes "mr_wf db" and "find_post i db = None" and "safe_id i" and "a \<in> set (mr_agents db)"
    and "case s of None \<Rightarrow> True | Some x \<Rightarrow> x \<in> fst ` set (mr_submolts db)"
  shows "mr_wf (db\<lparr>mr_posts := mr_posts db @ [\<lparr>mp_id = i, mp_submolt_id = s, mp_author_id = a, mp_ticker = t\<rparr>]\<rparr>)"
proof -
  let ?db' = "db\<lparr>mr_posts := mr_posts db @ [\<lparr>mp_id = i, mp_submolt_id = s, mp_author_id = a, mp_ticker = t\<rparr>]\<rparr>"
  have "find_post j db \<noteq> None \<Longrightarrow> find_post j ?db' \<noteq> None" for j
    by (auto simp: find_post_snoc)
  moreover have "find_comment j ?db' = find_comment j db" for j by (simp add: find_comment_def)
  moreover have "i \<notin> mp_id ` set (mr_posts db)"
    using assms(2) by (auto simp: find_post_def find_None_iff)
  ultimately show ?thesis
    using assms by (auto simp: mr_wf_def split: option.splits)
qed

lemma insert_post_inv:
  assumes inv: "mr_inv db" and safe: "safe_id i"
  shows "mr_inv (snd (insert_post i s a db))"
proof (cases "find_post i db = None \<and> a \<in> set (mr_agents db)
    \<and> (case s of None \<Rightarrow> True | Some x \<Rightarrow> x \<in> fst ` set (mr_submolts db))")
  case False
  then have "snd (insert_post i s a db) = db"
    by (auto simp: insert_post_def split: option.splits)
  with inv show ?thesis by simp
next
  case True
  obtain t db1 where bump: "bump_vsids a db = (t, db1)" by force
  note same = bump_same [OF bump]
  let ?p = "\<lparr>mp_id = i, mp_submolt_id = s, mp_author_id = a, mp_ticker = t\<rparr>"
  let ?db2 = "db1\<lparr>mr_posts := mr_posts db1 @ [?p]\<rparr>"
  let ?ref = "db\<lparr>mr_posts := mr_posts db @ [?p]\<rparr>"
  let ?db' = "snd (insert_post i s a db)"
  have run: "?db' = emit (post_inserted ?p ?db2) ?db2"
    using True bump by (auto simp: insert_post_def Let_def split: option.splits)
  have st: "same_tables ?db' ?ref"
    using same unfolding run by (simp add: same_tables_def)
  have board: "mm_get_board s ?db2 = mm_get_board s db"
    using same by (cases s) (simp_all add: mm_get_board_def same_tables_def)
  have wf: "mr_wf db" using inv by (simp add: mr_inv_def)
  have sa: "safe_id a" using wf True by (auto simp: mr_wf_def)
  have calls: "post_inserted ?p ?db2 =
      [PutEdge (node_name (PostN i)) (node_name (UserN a)) 1 (mm_get_board s db) 0,
       PutEdge (node_name (UserN a)) (node_name (PostN i)) 1 (mm_get_board s db) t]"
    by (simp add: post_inserted_def Let_def board)
  show ?thesis
  proof (rule mr_invI [OF inv])
    show "mr_trace ?db' = mr_trace db @ post_inserted ?p ?db2" using same unfolding run by simp
    show "mr_wf ?db'" unfolding same_tables_facts(7) [OF st] using wf True safe by (intro insert_post_wf) auto
    fix g m n b
    assume g: "agrees db g" and mn: "safe_node m" "safe_node n"
    have nodes: "safe_node (PostN i)" "safe_node (UserN a)" using safe sa by simp_all
    show "fold apply_call (post_inserted ?p ?db2) g (node_name m, node_name n, b) = expected ?db' m n b"
      unfolding same_tables_facts(6) [OF st]
        insert_post_expected [OF wf conjunct1 [OF True] refl refl] calls
      by (simp only: fold_calls apply_put [OF _ _ mn] nodes agreesD [OF g mn])
  qed
qed

section \<open>One comment more or less\<close>

text \<open>The parent whose author is somebody else: the comment that a reply votes for.\<close>

definition upvoted :: "mr_comment \<Rightarrow> mr_db \<Rightarrow> string option" where
  "upvoted c db =
     (case mc_parent_id c of
        None \<Rightarrow> None
      | Some q \<Rightarrow> if map_option mc_author_id (find_comment q db) \<noteq> Some (mc_author_id c) then Some q else None)"

definition other_author :: "mr_comment \<Rightarrow> mr_db \<Rightarrow> bool" where
  "other_author c db \<longleftrightarrow> map_option mp_author_id (find_post (mc_post_id c) db) \<noteq> Some (mc_author_id c)"

text \<open>\<open>big\<close> has the comment \<open>c\<close> that \<open>small\<close> has not, and is the same otherwise.\<close>

definition one_more :: "mr_comment \<Rightarrow> mr_db \<Rightarrow> mr_db \<Rightarrow> bool" where
  "one_more c small big \<longleftrightarrow>
     mr_posts big = mr_posts small \<and> mr_submolts big = mr_submolts small \<and> mr_subscribe big = mr_subscribe small
     \<and> find_comment (mc_id c) small = None
     \<and> (\<forall>j. find_comment j big = (if j = mc_id c then Some c else find_comment j small))
     \<and> (\<forall>P. count_comments_of P None big = count_comments_of P None small + (if P c then 1 else 0))
     \<and> (\<forall>u. replies_to u (mc_id c) small = 0)
     \<and> find_post (mc_post_id c) small \<noteq> None
     \<and> (\<forall>q p. mc_parent_id c = Some q \<longrightarrow> find_comment q big = Some p \<longrightarrow> mc_post_id p = mc_post_id c)
     \<and> (\<forall>q. mc_parent_id c = Some q \<longrightarrow> find_comment q big \<noteq> None)"

lemma one_more_facts:
  assumes "one_more c small big"
  shows "find_post j big = find_post j small" and "post_board j big = post_board j small"
    and "comments_on u p big = comments_on u p small + (if mc_author_id c = u \<and> mc_post_id c = p then 1 else 0)"
    and "replies_to u q big = replies_to u q small + (if mc_author_id c = u \<and> mc_parent_id c = Some q then 1 else 0)"
proof -
  show p: "find_post j big = find_post j small" for j using assms by (simp add: one_more_def find_post_def)
  have "mm_get_board s big = mm_get_board s small" for s
    using assms by (cases s) (simp_all add: one_more_def mm_get_board_def)
  then show "post_board j big = post_board j small" by (simp add: post_board_def p cong: option.case_cong)
  show "comments_on u p big = comments_on u p small + (if mc_author_id c = u \<and> mc_post_id c = p then 1 else 0)"
    "replies_to u q big = replies_to u q small + (if mc_author_id c = u \<and> mc_parent_id c = Some q then 1 else 0)"
    using assms by (simp_all add: one_more_def comments_on_def replies_to_def)
qed

lemma one_more_parent:
  assumes "one_more c small big" and "mc_parent_id c = Some q"
  shows "\<exists>p. find_comment q big = Some p \<and> mc_post_id p = mc_post_id c"
proof -
  from assms have "find_comment q big \<noteq> None" unfolding one_more_def by blast
  then obtain p where "find_comment q big = Some p" by blast
  moreover from this assms have "mc_post_id p = mc_post_id c" unfolding one_more_def by blast
  ultimately show ?thesis by blast
qed

lemma upvotedD:
  "upvoted c db = Some q \<Longrightarrow>
   mc_parent_id c = Some q \<and> map_option mc_author_id (find_comment q db) \<noteq> Some (mc_author_id c)"
  by (simp add: upvoted_def split: option.splits if_splits)

text \<open>Away from the four edges of the comment, nothing changes.\<close>

lemma one_more_other:
  assumes om: "one_more c small big"
    and "m = UserN (mc_author_id c) \<Longrightarrow> n = CommentN (mc_id c) \<Longrightarrow> b \<noteq> post_board (mc_post_id c) small"
    and "m = CommentN (mc_id c) \<Longrightarrow> n = UserN (mc_author_id c) \<Longrightarrow> b \<noteq> post_board (mc_post_id c) small"
    and "other_author c small \<Longrightarrow> m = UserN (mc_author_id c) \<Longrightarrow> n = PostN (mc_post_id c) \<Longrightarrow>
      b \<noteq> post_board (mc_post_id c) small"
    and "m = UserN (mc_author_id c) \<Longrightarrow> \<exists>q. upvoted c big = Some q \<and> n = CommentN q \<Longrightarrow>
      b \<noteq> post_board (mc_post_id c) small"
  shows "expected big m n b = expected small m n b"
proof (cases m; cases n)
  note facts = one_more_facts [OF om]
  have fc: "find_comment j big = (if j = mc_id c then Some c else find_comment j small)"
    and gone: "find_comment (mc_id c) small = None" and no_replies: "replies_to u (mc_id c) small = 0" for j u
    using om by (simp_all add: one_more_def)
  fix u v
  show "m = UserN u \<Longrightarrow> n = UserN v \<Longrightarrow> ?thesis" using om by (simp add: one_more_def)
  show "m = PostN u \<Longrightarrow> n = UserN v \<Longrightarrow> ?thesis" by (simp add: facts cong: option.case_cong)
  show "m = UserN u \<Longrightarrow> n = PostN v \<Longrightarrow> ?thesis"
    using assms(4) by (cases "find_post v small") (auto simp: facts other_author_def)
  show "m = CommentN u \<Longrightarrow> n = UserN v \<Longrightarrow> ?thesis"
    using assms(3) by (cases "find_comment u small") (auto simp: facts fc gone)
  show "m = UserN u \<Longrightarrow> n = CommentN v \<Longrightarrow> ?thesis"
  proof (cases "v = mc_id c")
    case True
    assume mn: "m = UserN u" "n = CommentN v"
    then show ?thesis using True assms(2) gone no_replies by (auto simp: facts fc positive_def)
  next
    case False
    assume mn: "m = UserN u" "n = CommentN v"
    show ?thesis
    proof (cases "find_comment v small")
      case None
      then show ?thesis using mn False by (simp add: fc)
    next
      case (Some r)
      have "mc_post_id r = mc_post_id c" if "mc_parent_id c = Some v"
        using om that Some False by (auto simp: one_more_def)
      then show ?thesis
        using mn False Some assms(5) by (auto simp: facts fc upvoted_def)
    qed
  qed
qed simp_all

text \<open>The four edges themselves, in either table.\<close>

lemma one_more_big:
  assumes om: "one_more c small big"
  defines "a \<equiv> mc_author_id c" and "brd \<equiv> post_board (mc_post_id c) small"
  shows "expected big (UserN a) (CommentN (mc_id c)) brd = Some 1"
    and "expected big (CommentN (mc_id c)) (UserN a) brd = Some 1"
    and "other_author c big \<Longrightarrow> expected big (UserN a) (PostN (mc_post_id c)) brd = positive (comments_on a (mc_post_id c) big)"
    and "upvoted c big = Some q \<Longrightarrow> expected big (UserN a) (CommentN q) brd = positive (replies_to a q big)"
    and "expected small (UserN a) (CommentN (mc_id c)) brd = None"
    and "expected small (CommentN (mc_id c)) (UserN a) brd = None"
    and "other_author c small \<Longrightarrow>
      expected small (UserN a) (PostN (mc_post_id c)) brd = positive (comments_on a (mc_post_id c) small)"
    and "upvoted c small = Some q \<Longrightarrow> expected small (UserN a) (CommentN q) brd = positive (replies_to a q small)"
proof -
  note facts = one_more_facts [OF om]
  have fc: "find_comment j big = (if j = mc_id c then Some c else find_comment j small)"
    and gone: "find_comment (mc_id c) small = None" and no_replies: "replies_to u (mc_id c) small = 0" for j u
    using om by (simp_all add: one_more_def)
  obtain P where P: "find_post (mc_post_id c) small = Some P" using om by (auto simp: one_more_def)
  show "expected big (UserN a) (CommentN (mc_id c)) brd = Some 1" "expected big (CommentN (mc_id c)) (UserN a) brd = Some 1"
    by (simp_all add: fc facts a_def brd_def)
  show "expected small (UserN a) (CommentN (mc_id c)) brd = None" "expected small (CommentN (mc_id c)) (UserN a) brd = None"
    by (simp_all add: gone)
  show "other_author c big \<Longrightarrow> expected big (UserN a) (PostN (mc_post_id c)) brd = positive (comments_on a (mc_post_id c) big)"
    "other_author c small \<Longrightarrow> expected small (UserN a) (PostN (mc_post_id c)) brd = positive (comments_on a (mc_post_id c) small)"
    using P by (simp_all add: facts other_author_def a_def brd_def)
  show "expected big (UserN a) (CommentN q) brd = positive (replies_to a q big)" if u: "upvoted c big = Some q"
  proof -
    note parent = upvotedD [OF u]
    obtain r where "find_comment q big = Some r" "mc_post_id r = mc_post_id c"
      using one_more_parent [OF om] parent by blast
    then show ?thesis using parent by (simp add: facts brd_def a_def)
  qed
  show "expected small (UserN a) (CommentN q) brd = positive (replies_to a q small)" if u: "upvoted c small = Some q"
  proof (cases "q = mc_id c")
    case True
    then show ?thesis by (simp add: gone no_replies positive_def)
  next
    case False
    note parent = upvotedD [OF u]
    obtain r where "find_comment q big = Some r" "mc_post_id r = mc_post_id c"
      using one_more_parent [OF om] parent by blast
    then have "find_comment q small = Some r" "mc_post_id r = mc_post_id c" using False by (simp_all add: fc)
    then show ?thesis using parent by (simp add: brd_def a_def)
  qed
qed

section \<open>The calls for a comment\<close>

lemma apply_upvote:
  assumes "safe_node x" "safe_node y" "safe_node m" "safe_node n"
  shows "apply_call (upvote_call (node_name x) (node_name y) k c t) g (node_name m, node_name n, b) =
      (if m = x \<and> n = y \<and> b = c then positive k else g (node_name m, node_name n, b))"
  by (cases "k = 0") (simp_all only: upvote_call_def positive_def if_True if_False simp_thms apply_put [OF assms])

text \<open>The last two calls, for an insertion and for a deletion alike.\<close>

definition vote_calls :: "mr_comment \<Rightarrow> mr_db \<Rightarrow> mr_call list" where
  "vote_calls c db =
     (if other_author c db
      then [upvote_call (node_name (UserN (mc_author_id c))) (node_name (PostN (mc_post_id c)))
              (comments_on (mc_author_id c) (mc_post_id c) db) (post_board (mc_post_id c) db) (mc_ticker c)]
      else [])
     @ (case upvoted c db of
          None \<Rightarrow> []
        | Some q \<Rightarrow> [upvote_call (node_name (UserN (mc_author_id c))) (node_name (CommentN q))
              (replies_to (mc_author_id c) q db) (post_board (mc_post_id c) db) (mc_ticker c)])"

lemma apply_votes:
  assumes "safe_id (mc_author_id c)" "safe_id (mc_post_id c)" "\<forall>q. mc_parent_id c = Some q \<longrightarrow> safe_id q"
    and mn: "safe_node m" "safe_node n"
  shows "fold apply_call (vote_calls c db) g (node_name m, node_name n, b) =
    (if m = UserN (mc_author_id c) \<and> (\<exists>q. upvoted c db = Some q \<and> n = CommentN q) \<and> b = post_board (mc_post_id c) db
     then positive (replies_to (mc_author_id c) (the (upvoted c db)) db)
     else if other_author c db \<and> m = UserN (mc_author_id c) \<and> n = PostN (mc_post_id c) \<and> b = post_board (mc_post_id c) db
     then positive (comments_on (mc_author_id c) (mc_post_id c) db)
     else g (node_name m, node_name n, b))"
proof -
  have nodes: "safe_node (UserN (mc_author_id c))" "safe_node (PostN (mc_post_id c))" using assms by simp_all
  show ?thesis
  proof (cases "upvoted c db")
    case None
    then show ?thesis
      by (cases "other_author c db")
         (simp_all add: vote_calls_def apply_upvote [OF nodes mn] del: node_name.simps)
  next
    case (Some q)
    then have q: "safe_node (CommentN q)" using assms(3) upvotedD by simp
    show ?thesis
      using Some
      by (cases "other_author c db")
         (simp_all add: vote_calls_def apply_upvote [OF nodes mn] apply_upvote [OF nodes(1) q mn]
           del: node_name.simps split del: if_split cong: if_cong)
  qed
qed

lemma comment_calls:
  "comment_inserted c db =
     [PutEdge (node_name (CommentN (mc_id c))) (node_name (UserN (mc_author_id c))) 1 (post_board (mc_post_id c) db) 0,
      PutEdge (node_name (UserN (mc_author_id c))) (node_name (CommentN (mc_id c))) 1 (post_board (mc_post_id c) db) (mc_ticker c)]
     @ vote_calls c db"
  "\<forall>x\<in>set (mr_comments db). mc_id x \<noteq> mc_id c \<Longrightarrow>
   comment_deleted c db =
     [DeleteEdge (node_name (CommentN (mc_id c))) (node_name (UserN (mc_author_id c))) (post_board (mc_post_id c) db),
      DeleteEdge (node_name (UserN (mc_author_id c))) (node_name (CommentN (mc_id c))) (post_board (mc_post_id c) db)]
     @ vote_calls c db"
proof -
  show "comment_inserted c db =
     [PutEdge (node_name (CommentN (mc_id c))) (node_name (UserN (mc_author_id c))) 1 (post_board (mc_post_id c) db) 0,
      PutEdge (node_name (UserN (mc_author_id c))) (node_name (CommentN (mc_id c))) 1 (post_board (mc_post_id c) db) (mc_ticker c)]
     @ vote_calls c db"
    by (cases "mc_parent_id c") (simp_all add: comment_inserted_def Let_def vote_calls_def reply_calls_def mm_sync_comment_upvote_edge_def
        mm_sync_reply_upvote_edge_def other_author_def upvoted_def comments_on_def replies_to_def
        del: map_option_eq_Some)
  assume "\<forall>x\<in>set (mr_comments db). mc_id x \<noteq> mc_id c"
  then have "count_comments_of P (Some (mc_id c)) db = count_comments_of P None db" for P
    unfolding count_comments_of_def by (intro arg_cong [where f = length] filter_cong) auto
  then show "comment_deleted c db =
     [DeleteEdge (node_name (CommentN (mc_id c))) (node_name (UserN (mc_author_id c))) (post_board (mc_post_id c) db),
      DeleteEdge (node_name (UserN (mc_author_id c))) (node_name (CommentN (mc_id c))) (post_board (mc_post_id c) db)]
     @ vote_calls c db"
    by (cases "mc_parent_id c") (simp_all add: comment_deleted_def Let_def vote_calls_def reply_calls_def mm_sync_comment_upvote_edge_def
        mm_sync_reply_upvote_edge_def other_author_def upvoted_def comments_on_def replies_to_def
        del: map_option_eq_Some)
qed

lemma same_tables_calls:
  assumes "same_tables db db'"
  shows "vote_calls c db = vote_calls c db'"
proof -
  note facts = same_tables_facts(1-5) [OF assms]
  have "upvoted c db = upvoted c db'" by (cases "mc_parent_id c") (simp_all add: upvoted_def facts)
  moreover have "other_author c db = other_author c db'" by (simp add: other_author_def facts)
  ultimately show ?thesis
    by (simp add: vote_calls_def comments_on_def replies_to_def facts cong: option.case_cong if_cong)
qed

lemma comment_graph_big:
  assumes om: "one_more c small big" and g: "agrees small g" and mn: "safe_node m" "safe_node n"
    and safe: "safe_id (mc_id c)" "safe_id (mc_author_id c)" "safe_id (mc_post_id c)"
      "\<forall>q. mc_parent_id c = Some q \<longrightarrow> safe_id q"
  shows "fold apply_call (comment_inserted c big) g (node_name m, node_name n, b) = expected big m n b"
proof -
  let ?a = "UserN (mc_author_id c)" and ?c = "CommentN (mc_id c)" and ?brd = "post_board (mc_post_id c) big"
  have brd: "?brd = post_board (mc_post_id c) small" by (rule one_more_facts(2) [OF om])
  have nodes: "safe_node ?c" "safe_node ?a" using safe by simp_all
  note puts = apply_put(1) [OF nodes mn] apply_put(1) [OF nodes(2,1) mn]
  note big = one_more_big [OF om]
  have other: "other_author c small = other_author c big"
    by (simp add: other_author_def one_more_facts(1) [OF om])
  show ?thesis
    unfolding comment_calls fold_append o_apply fold_calls apply_votes [OF safe(2,3,4) mn] puts
  proof (split if_split, intro conjI impI)
    assume "m = ?a \<and> (\<exists>q. upvoted c big = Some q \<and> n = CommentN q) \<and> b = ?brd"
    then show "positive (replies_to (mc_author_id c) (the (upvoted c big)) big) = expected big m n b"
      using big(4) unfolding brd by auto
  next
    assume 4: "\<not> (m = ?a \<and> (\<exists>q. upvoted c big = Some q \<and> n = CommentN q) \<and> b = ?brd)"
    show "(if other_author c big \<and> m = ?a \<and> n = PostN (mc_post_id c) \<and> b = ?brd
        then positive (comments_on (mc_author_id c) (mc_post_id c) big)
        else if m = ?a \<and> n = ?c \<and> b = ?brd then Some 1
        else if m = ?c \<and> n = ?a \<and> b = ?brd then Some 1 else g (node_name m, node_name n, b)) = expected big m n b"
    proof (split if_split, intro conjI impI)
      assume "other_author c big \<and> m = ?a \<and> n = PostN (mc_post_id c) \<and> b = ?brd"
      then show "positive (comments_on (mc_author_id c) (mc_post_id c) big) = expected big m n b"
        using big(3) unfolding brd by metis
    next
      assume 3: "\<not> (other_author c big \<and> m = ?a \<and> n = PostN (mc_post_id c) \<and> b = ?brd)"
      have "expected big m n b = expected small m n b"
        if "\<not> (m = ?a \<and> n = ?c \<and> b = ?brd)" "\<not> (m = ?c \<and> n = ?a \<and> b = ?brd)"
        by (rule one_more_other [OF om]) (use that [unfolded brd] 3 [folded other, unfolded brd] 4 [unfolded brd] in blast)+
      then show "(if m = ?a \<and> n = ?c \<and> b = ?brd then Some 1
        else if m = ?c \<and> n = ?a \<and> b = ?brd then Some 1 else g (node_name m, node_name n, b)) = expected big m n b"
        using big(1,2) agreesD [OF g mn] unfolding brd by metis
    qed
  qed
qed

lemma comment_graph_small:
  assumes om: "one_more c small big" and g: "agrees big g" and mn: "safe_node m" "safe_node n"
    and gone: "\<forall>x\<in>set (mr_comments small). mc_id x \<noteq> mc_id c"
    and safe: "safe_id (mc_id c)" "safe_id (mc_author_id c)" "safe_id (mc_post_id c)"
      "\<forall>q. mc_parent_id c = Some q \<longrightarrow> safe_id q"
  shows "fold apply_call (comment_deleted c small) g (node_name m, node_name n, b) = expected small m n b"
proof -
  let ?a = "UserN (mc_author_id c)" and ?c = "CommentN (mc_id c)" and ?brd = "post_board (mc_post_id c) small"
  have nodes: "safe_node ?c" "safe_node ?a" using safe by simp_all
  note dels = apply_put(2) [OF nodes mn] apply_put(2) [OF nodes(2,1) mn]
  note edges = one_more_big [OF om]
  have up: "upvoted c big = Some q \<Longrightarrow> upvoted c small = Some q" for q
    using om by (auto simp: upvoted_def one_more_def split: option.splits if_splits)
  show ?thesis
    unfolding comment_calls(2) [OF gone] fold_append o_apply fold_calls apply_votes [OF safe(2,3,4) mn] dels
  proof (split if_split, intro conjI impI)
    assume "m = ?a \<and> (\<exists>q. upvoted c small = Some q \<and> n = CommentN q) \<and> b = ?brd"
    then show "positive (replies_to (mc_author_id c) (the (upvoted c small)) small) = expected small m n b"
      using edges(8) by auto
  next
    assume 4: "\<not> (m = ?a \<and> (\<exists>q. upvoted c small = Some q \<and> n = CommentN q) \<and> b = ?brd)"
    show "(if other_author c small \<and> m = ?a \<and> n = PostN (mc_post_id c) \<and> b = ?brd
        then positive (comments_on (mc_author_id c) (mc_post_id c) small)
        else if m = ?a \<and> n = ?c \<and> b = ?brd then None
        else if m = ?c \<and> n = ?a \<and> b = ?brd then None else g (node_name m, node_name n, b)) = expected small m n b"
    proof (split if_split, intro conjI impI)
      assume "other_author c small \<and> m = ?a \<and> n = PostN (mc_post_id c) \<and> b = ?brd"
      then show "positive (comments_on (mc_author_id c) (mc_post_id c) small) = expected small m n b"
        using edges(7) by metis
    next
      assume 3: "\<not> (other_author c small \<and> m = ?a \<and> n = PostN (mc_post_id c) \<and> b = ?brd)"
      have "expected big m n b = expected small m n b"
        if "\<not> (m = ?a \<and> n = ?c \<and> b = ?brd)" "\<not> (m = ?c \<and> n = ?a \<and> b = ?brd)"
        by (rule one_more_other [OF om]) (use that 3 4 up in blast)+
      then show "(if m = ?a \<and> n = ?c \<and> b = ?brd then None
        else if m = ?c \<and> n = ?a \<and> b = ?brd then None else g (node_name m, node_name n, b)) = expected small m n b"
        using edges(5,6) agreesD [OF g mn] by metis
    qed
  qed
qed

section \<open>Statements on comments\<close>

lemma find_comment_snoc:
  "find_comment j (db\<lparr>mr_comments := mr_comments db @ [c]\<rparr>) =
     (case find_comment j db of Some r \<Rightarrow> Some r | None \<Rightarrow> if mc_id c = j then Some c else None)"
  by (simp add: find_comment_def find_append split: option.split)

lemma count_comments_snoc:
  "count_comments_of P None (db\<lparr>mr_comments := mr_comments db @ [c]\<rparr>) = count_comments_of P None db + (if P c then 1 else 0)"
  by (simp add: count_comments_of_def)

lemma no_replies:
  "mr_wf db \<Longrightarrow> find_comment i db = None \<Longrightarrow> replies_to u i db = 0"
  by (fastforce simp: replies_to_def count_none_iff mr_wf_def)

text \<open>What the constraints and the step relation below require of a new comment.\<close>

definition comment_allowed :: "mr_comment \<Rightarrow> mr_db \<Rightarrow> bool" where
  "comment_allowed c db \<longleftrightarrow>
     safe_id (mc_id c) \<and> find_comment (mc_id c) db = None \<and> mc_author_id c \<in> set (mr_agents db)
     \<and> find_post (mc_post_id c) db \<noteq> None
     \<and> (\<forall>q. mc_parent_id c = Some q \<longrightarrow>
          q = mc_id c \<or> (\<exists>p. find_comment q db = Some p \<and> mc_post_id p = mc_post_id c))"

lemma one_more_snoc:
  assumes "mr_wf db" and "comment_allowed c db"
  shows "one_more c db (db\<lparr>mr_comments := mr_comments db @ [c]\<rparr>)"
  using assms no_replies [OF assms(1)]
  unfolding one_more_def comment_allowed_def
  by (intro conjI allI impI) (auto simp: find_comment_snoc count_comments_snoc split: option.splits)

lemma safe_comment:
  assumes "mr_wf db" and "comment_allowed c db"
  shows "safe_id (mc_id c) \<and> safe_id (mc_author_id c) \<and> safe_id (mc_post_id c)
    \<and> (\<forall>q. mc_parent_id c = Some q \<longrightarrow> safe_id q)"
proof (intro conjI allI impI)
  show "safe_id (mc_id c)" "safe_id (mc_author_id c)" using assms by (auto simp: comment_allowed_def mr_wf_def)
  obtain p where "find_post (mc_post_id c) db = Some p" using assms(2) by (auto simp: comment_allowed_def)
  from find_post_SomeD [OF this] show "safe_id (mc_post_id c)" using assms(1) by (auto simp: mr_wf_def)
  fix q
  assume "mc_parent_id c = Some q"
  then consider "q = mc_id c" | r where "find_comment q db = Some r"
    using assms(2) by (auto simp: comment_allowed_def)
  then show "safe_id q"
  proof cases
    case 1
    with \<open>safe_id (mc_id c)\<close> show ?thesis by simp
  next
    case 2
    from find_comment_SomeD [OF this] show ?thesis using assms(1) by (auto simp: mr_wf_def)
  qed
qed

lemma snoc_comment_wf:
  assumes "mr_wf db" and "comment_allowed c db"
  shows "mr_wf (db\<lparr>mr_comments := mr_comments db @ [c]\<rparr>)"
proof -
  let ?db' = "db\<lparr>mr_comments := mr_comments db @ [c]\<rparr>"
  have fp: "find_post j ?db' = find_post j db" for j by (simp add: find_post_def)
  have keep: "find_comment j db = Some r \<Longrightarrow> find_comment j ?db' = Some r" for j r
    by (simp add: find_comment_snoc)
  have new: "find_comment (mc_id c) ?db' = Some c"
    using assms(2) by (simp add: find_comment_snoc comment_allowed_def)
  have "mc_id c \<notin> mc_id ` set (mr_comments db)"
    using assms(2) by (auto simp: comment_allowed_def find_comment_def find_None_iff)
  moreover have "\<exists>p. find_comment q ?db' = Some p \<and> mc_post_id p = mc_post_id x"
    if "x \<in> set (mr_comments ?db')" "mc_parent_id x = Some q" for x q
    using that assms keep new by (fastforce simp: comment_allowed_def mr_wf_def)
  ultimately show ?thesis
    using assms safe_comment [OF assms] unfolding mr_wf_def fp by (auto simp: comment_allowed_def)
qed

definition same_post_parent :: "string \<Rightarrow> string \<Rightarrow> string option \<Rightarrow> mr_db \<Rightarrow> bool" where
  "same_post_parent i post_id parent_id db \<longleftrightarrow>
     (case parent_id of
        None \<Rightarrow> True
      | Some q \<Rightarrow> q = i \<or> (case find_comment q db of None \<Rightarrow> True | Some p \<Rightarrow> mc_post_id p = post_id))"

lemma comment_inserted_same:
  assumes "same_tables db db'"
  shows "comment_inserted c db = comment_inserted c db'"
  unfolding comment_calls(1) same_tables_calls [OF assms] same_tables_facts(3) [OF assms] ..

lemma insert_comment_inv:
  assumes inv: "mr_inv db" and safe: "safe_id i" and sp: "same_post_parent i p q db"
  shows "mr_inv (snd (insert_comment i p q a db))"
proof (cases "fst (insert_comment i p q a db)")
  case (Inl e)
  then have "snd (insert_comment i p q a db) = db"
    by (auto simp: insert_comment_def Let_def split: if_splits prod.splits)
  with inv show ?thesis by simp
next
  case (Inr x)
  obtain t db1 where bump: "bump_vsids a db = (t, db1)" by force
  note same = bump_same [OF bump]
  let ?c = "\<lparr>mc_id = i, mc_post_id = p, mc_parent_id = q, mc_author_id = a, mc_ticker = t\<rparr>"
  let ?db2 = "db1\<lparr>mr_comments := mr_comments db1 @ [?c]\<rparr>"
  let ?big = "db\<lparr>mr_comments := mr_comments db @ [?c]\<rparr>"
  let ?db' = "snd (insert_comment i p q a db)"
  have run: "?db' = emit (comment_inserted ?c ?db2) ?db2"
    using Inr bump by (auto simp: insert_comment_def Let_def split: if_splits)
  have wf: "mr_wf db" using inv by (simp add: mr_inv_def)
  have allowed: "comment_allowed ?c db"
    using Inr safe sp
    by (auto simp: insert_comment_def comment_allowed_def same_post_parent_def split: if_splits option.splits)
  have st2: "same_tables ?db2 ?big" using same by (simp add: same_tables_def)
  have st: "same_tables ?db' ?big" using st2 unfolding run by (simp add: same_tables_def)
  have calls: "comment_inserted ?c ?db2 = comment_inserted ?c ?big" by (rule comment_inserted_same [OF st2])
  show ?thesis
  proof (rule mr_invI [OF inv])
    show "mr_trace ?db' = mr_trace db @ comment_inserted ?c ?big"
      using same unfolding run calls by simp
    show "mr_wf ?db'" unfolding same_tables_facts(7) [OF st] by (rule snoc_comment_wf [OF wf allowed])
    fix g m n b
    assume "agrees db g" and mn: "safe_node m" "safe_node n"
    then show "fold apply_call (comment_inserted ?c ?big) g (node_name m, node_name n, b) = expected ?db' m n b"
      unfolding same_tables_facts(6) [OF st]
      using safe_comment [OF wf allowed] by (intro comment_graph_big [OF one_more_snoc [OF wf allowed]]) auto
  qed
qed

lemma delete_comment_inv:
  assumes inv: "mr_inv db" and leaf: "\<forall>c\<in>set (mr_comments db). mc_parent_id c \<noteq> Some i"
  shows "mr_inv (delete_comment i db)"
proof (cases "find_comment i db")
  case None
  with inv show ?thesis by (simp add: delete_comment_def)
next
  case (Some c)
  have wf: "mr_wf db" using inv by (simp add: mr_inv_def)
  note c = find_comment_SomeD [OF Some]
  let ?small = "db\<lparr>mr_comments := filter (\<lambda>c. mc_id c \<noteq> i) (mr_comments db)\<rparr>"
  have "map (\<lambda>c. if mc_parent_id c = Some i then c\<lparr>mc_parent_id := None\<rparr> else c)
      (filter (\<lambda>c. mc_id c \<noteq> i) (mr_comments db)) = filter (\<lambda>c. mc_id c \<noteq> i) (mr_comments db)"
    by (rule map_idI) (use leaf in auto)
  then have "orphan_replies i ?small = ?small" by (simp add: orphan_replies_def)
  then have run: "delete_comment i db = emit (comment_deleted c ?small) ?small"
    using Some c by (simp add: delete_comment_def comment_gone_def Let_def)
  have fc: "find_comment j ?small = (if j = i then None else find_comment j db)" for j
    by (auto simp: find_comment_def find_None_iff find_Some_iff tbl_get_filter [unfolded tbl_get_def])
  have fp: "find_post j ?small = find_post j db" for j by (simp add: find_post_def)
  have d: "distinct (map mc_id (mr_comments db))" using wf by (simp add: mr_wf_def)
  have cnt: "count_comments_of P None db = count_comments_of P None ?small + (if P c then 1 else 0)" for P
  proof -
    have "length (filter P xs) = length (filter P (filter (\<lambda>c. mc_id c \<noteq> i) xs)) + (if P c then 1 else 0)"
      if "distinct (map mc_id xs)" "c \<in> set xs" for xs
      using that
    proof (induction xs)
      case (Cons x xs)
      show ?case
      proof (cases "x = c")
        case True
        then have "\<forall>y\<in>set xs. mc_id y \<noteq> i" using Cons.prems c by (metis distinct.simps(2) list.simps(9) image_eqI set_map)
        then have "filter (\<lambda>c. mc_id c \<noteq> i) xs = xs" by (simp add: filter_id_conv)
        then show ?thesis using True c by simp
      next
        case False
        then have "c \<in> set xs" "mc_id x \<noteq> i" using Cons.prems c by auto
        with Cons show ?thesis by simp
      qed
    qed simp
    from this [OF d] c show ?thesis by (simp add: count_comments_of_def)
  qed
  have om: "one_more c ?small db"
    unfolding one_more_def
  proof (intro conjI allI impI)
    show "replies_to u (mc_id c) ?small = 0" for u
      using leaf c by (auto simp: replies_to_def count_none_iff)
    show "find_post (mc_post_id c) ?small \<noteq> None" using wf c by (auto simp: fp mr_wf_def)
    show "mc_post_id x = mc_post_id c" if "mc_parent_id c = Some q" "find_comment q db = Some x" for q x
      using wf c that by (fastforce simp: mr_wf_def)
    show "find_comment q db \<noteq> None" if "mc_parent_id c = Some q" for q
      using wf c that by (fastforce simp: mr_wf_def)
  qed (use c Some fc cnt in auto)
  have "mr_wf ?small"
    using wf leaf unfolding mr_wf_def fp by (auto simp: fc distinct_map_filter)
  have safe: "safe_id (mc_id c)" "safe_id (mc_author_id c)" using wf c by (auto simp: mr_wf_def)
  obtain P where "find_post (mc_post_id c) db = Some P" using wf c by (fastforce simp: mr_wf_def)
  from find_post_SomeD [OF this] have safe_p: "safe_id (mc_post_id c)" using wf by (auto simp: mr_wf_def)
  have safe_q: "\<forall>q. mc_parent_id c = Some q \<longrightarrow> safe_id q"
  proof (intro allI impI)
    fix q
    assume "mc_parent_id c = Some q"
    then obtain r where "find_comment q db = Some r" using wf c by (fastforce simp: mr_wf_def)
    from find_comment_SomeD [OF this] show "safe_id q" using wf by (auto simp: mr_wf_def)
  qed
  have st: "same_tables (delete_comment i db) ?small" unfolding run by (rule emit_same)
  show ?thesis
  proof (rule mr_invI [OF inv])
    show "mr_trace (delete_comment i db) = mr_trace db @ comment_deleted c ?small" unfolding run by simp
    show "mr_wf (delete_comment i db)" unfolding same_tables_facts(7) [OF st] by fact
    fix g m n b
    assume "agrees db g" and mn: "safe_node m" "safe_node n"
    then show "fold apply_call (comment_deleted c ?small) g (node_name m, node_name n, b) = expected (delete_comment i db) m n b"
      unfolding same_tables_facts(6) [OF st]
      using c by (intro comment_graph_small [OF om _ mn _ safe safe_p safe_q]) auto
  qed
qed

section \<open>The other statements\<close>

text \<open>Tables of which nothing but the agents, the submolts or one subscription changes.\<close>

lemma post_board_submolts:
  assumes "mr_wf db" and "fst x \<notin> fst ` set (mr_submolts db)" and "find_post p db \<noteq> None"
  shows "post_board p (db\<lparr>mr_submolts := mr_submolts db @ [x]\<rparr>) = post_board p db"
proof -
  let ?db' = "db\<lparr>mr_submolts := mr_submolts db @ [x]\<rparr>"
  obtain r where r: "find_post p db = Some r" using assms(3) by blast
  have "mm_get_board (mp_submolt_id r) ?db' = mm_get_board (mp_submolt_id r) db"
  proof (cases "mp_submolt_id r")
    case (Some s)
    then have "s \<in> fst ` set (mr_submolts db)" using assms(1) find_post_SomeD [OF r] by (fastforce simp: mr_wf_def)
    then obtain n where "map_of (mr_submolts db) s = Some n" by (metis map_of_eq_None_iff option.exhaust)
    then show ?thesis by (simp add: Some mm_get_board_def map_add_def)
  qed (simp add: mm_get_board_def)
  then show ?thesis using r by (simp add: post_board_def find_post_def)
qed

lemma insert_submolt_inv:
  assumes inv: "mr_inv db" and new: "fst x \<notin> fst ` set (mr_submolts db)"
  shows "mr_inv (db\<lparr>mr_submolts := mr_submolts db @ [x]\<rparr>)"
proof -
  let ?db' = "db\<lparr>mr_submolts := mr_submolts db @ [x]\<rparr>"
  have wf: "mr_wf db" using inv by (simp add: mr_inv_def)
  have fp: "find_post j ?db' = find_post j db" and fc: "find_comment j ?db' = find_comment j db" for j
    by (simp_all add: find_post_def find_comment_def)
  have cn: "count_comments_of P e ?db' = count_comments_of P e db" for P e by (simp add: count_comments_of_def)
  have cp: "find_post (mc_post_id r) db \<noteq> None" if "find_comment j db = Some r" for j r
    using wf find_comment_SomeD [OF that] by (auto simp: mr_wf_def)
  note pb = post_board_submolts [OF wf new]
  show ?thesis
  proof (rule mr_invI [OF inv, of _ "[]"])
    show "mr_wf ?db'" using wf unfolding mr_wf_def fp fc by auto
    fix g m n b
    assume g: "agrees db g" and mn: "safe_node m" "safe_node n"
    have "expected ?db' m n b = expected db m n b"
    proof (cases m; cases n)
      fix u p
      show "m = UserN u \<Longrightarrow> n = PostN p \<Longrightarrow> ?thesis"
        using pb by (cases "find_post p db") (simp_all add: fp comments_on_def cn)
      show "m = PostN p \<Longrightarrow> n = UserN u \<Longrightarrow> ?thesis"
        using pb by (cases "find_post p db") (simp_all add: fp)
      show "m = UserN u \<Longrightarrow> n = CommentN p \<Longrightarrow> ?thesis"
        using pb cp by (cases "find_comment p db") (simp_all add: fc replies_to_def cn)
      show "m = CommentN p \<Longrightarrow> n = UserN u \<Longrightarrow> ?thesis"
        using pb cp by (cases "find_comment p db") (simp_all add: fc)
    qed simp_all
    then show "fold apply_call [] g (node_name m, node_name n, b) = expected ?db' m n b"
      using agreesD [OF g mn] by simp
  qed simp
qed

lemma other_tables_facts:
  assumes "mr_posts db' = mr_posts db" "mr_comments db' = mr_comments db" "mr_submolts db' = mr_submolts db"
  shows "find_post i db' = find_post i db" "find_comment i db' = find_comment i db"
    "post_board i db' = post_board i db" "count_comments_of P e db' = count_comments_of P e db"
proof -
  have "same_tables (db'\<lparr>mr_subscribe := [], mr_agents := []\<rparr>) (db\<lparr>mr_subscribe := [], mr_agents := []\<rparr>)"
    using assms by (simp add: same_tables_def)
  from same_tables_facts [OF this] show
    "find_post i db' = find_post i db" "find_comment i db' = find_comment i db"
    "post_board i db' = post_board i db" "count_comments_of P e db' = count_comments_of P e db"
    by (simp_all add: find_post_def find_comment_def post_board_def mm_get_board_def count_comments_of_def
        cong: option.case_cong)
qed

lemma insert_agent_inv:
  assumes inv: "mr_inv db" and safe: "safe_id i"
  shows "mr_inv (snd (insert_agent i db))"
proof -
  let ?db' = "snd (insert_agent i db)"
  have fr: "mr_posts ?db' = mr_posts db" "mr_comments ?db' = mr_comments db" "mr_submolts ?db' = mr_submolts db"
    "mr_subscribe ?db' = mr_subscribe db" "mr_trace ?db' = mr_trace db"
    "set (mr_agents db) \<subseteq> set (mr_agents ?db')" "set (mr_agents ?db') \<subseteq> insert i (set (mr_agents db))"
    by (auto simp: insert_agent_def on_mb_agent_created_def split: option.split)
  note facts = other_tables_facts [OF fr(1-3)]
  have wf: "mr_wf db" using inv by (simp add: mr_inv_def)
  have ex: "expected ?db' m n b = expected db m n b" for m n b
    by (cases m; cases n) (simp_all add: facts fr comments_on_def replies_to_def cong: option.case_cong if_cong)
  have "mr_wf ?db'" using wf safe fr(6,7) unfolding mr_wf_def facts fr(1-4) by blast
  then show ?thesis using inv by (simp add: mr_inv_def agrees_def ex fr)
qed

lemma delete_post_inv:
  assumes inv: "mr_inv db" and no_comments: "\<forall>c\<in>set (mr_comments db). mc_post_id c \<noteq> i"
  shows "mr_inv (delete_post i db)"
proof (cases "find_post i db")
  case None
  with inv show ?thesis by (simp add: delete_post_def)
next
  case (Some p)
  have wf: "mr_wf db" using inv by (simp add: mr_inv_def)
  note p = find_post_SomeD [OF Some]
  let ?small = "db\<lparr>mr_posts := filter (\<lambda>p. mp_id p \<noteq> i) (mr_posts db)\<rparr>"
  let ?brd = "mm_get_board (mp_submolt_id p) db"
  have "filter (\<lambda>c. mc_post_id c = i) (mr_comments db) = []" "filter (\<lambda>c. mc_post_id c \<noteq> i) (mr_comments db) = mr_comments db"
    using no_comments by (simp_all add: filter_empty_conv filter_id_conv)
  then have run: "delete_post i db = emit (post_deleted p ?small) ?small"
    using Some by (simp add: delete_post_def Let_def)
  have gb: "mm_get_board s ?small = mm_get_board s db" for s by (cases s) (simp_all add: mm_get_board_def)
  have calls: "post_deleted p ?small =
     [DeleteEdge (node_name (PostN i)) (node_name (UserN (mp_author_id p))) ?brd,
      DeleteEdge (node_name (UserN (mp_author_id p))) (node_name (PostN i)) ?brd]"
    using p by (simp add: post_deleted_def Let_def gb)
  have fp: "find_post j ?small = (if j = i then None else find_post j db)" for j
    by (simp add: find_post_def tbl_get_filter [unfolded tbl_get_def])
  have fc: "find_comment j ?small = find_comment j db" for j by (simp add: find_comment_def)
  have pb: "post_board j ?small = (if j = i then [] else post_board j db)" for j
    by (cases "find_post j db") (simp_all add: post_board_def fp gb)
  have cn: "count_comments_of P e ?small = count_comments_of P e db" for P e by (simp add: count_comments_of_def)
  have cb: "post_board (mc_post_id r) ?small = post_board (mc_post_id r) db" if "find_comment j db = Some r" for j r
    using no_comments find_comment_SomeD [OF that] by (simp add: pb)
  have on: "comments_on u i db = 0" for u using no_comments by (auto simp: comments_on_def count_none_iff)
  have brd: "post_board i db = ?brd" using Some by (simp add: post_board_def)
  have ex: "expected ?small m n b =
    (if m = UserN (mp_author_id p) \<and> n = PostN i \<and> b = ?brd then None
     else if m = PostN i \<and> n = UserN (mp_author_id p) \<and> b = ?brd then None
     else expected db m n b)" for m n b
  proof (cases m; cases n)
    fix u j
    show "m = UserN u \<Longrightarrow> n = PostN j \<Longrightarrow> ?thesis"
      using on [of u] Some brd by (cases "find_post j db") (auto simp: fp pb comments_on_def cn positive_def)
    show "m = PostN j \<Longrightarrow> n = UserN u \<Longrightarrow> ?thesis"
      using Some brd by (cases "find_post j db") (auto simp: fp pb)
    show "m = UserN u \<Longrightarrow> n = CommentN j \<Longrightarrow> ?thesis"
      using cb by (cases "find_comment j db") (simp_all add: fc replies_to_def cn)
    show "m = CommentN j \<Longrightarrow> n = UserN u \<Longrightarrow> ?thesis"
      using cb by (cases "find_comment j db") (simp_all add: fc)
  qed simp_all
  have "mr_wf ?small"
    using wf no_comments unfolding mr_wf_def fp fc by (auto simp: distinct_map_filter)
  have nodes: "safe_node (PostN i)" "safe_node (UserN (mp_author_id p))" using wf p by (auto simp: mr_wf_def)
  have st: "same_tables (delete_post i db) ?small" unfolding run by (rule emit_same)
  show ?thesis
  proof (rule mr_invI [OF inv])
    show "mr_trace (delete_post i db) = mr_trace db @ post_deleted p ?small" unfolding run by simp
    show "mr_wf (delete_post i db)" unfolding same_tables_facts(7) [OF st] by fact
    fix g m n b
    assume g: "agrees db g" and mn: "safe_node m" "safe_node n"
    show "fold apply_call (post_deleted p ?small) g (node_name m, node_name n, b) = expected (delete_post i db) m n b"
      unfolding same_tables_facts(6) [OF st] ex calls
      by (simp only: fold_calls apply_put [OF _ _ mn] nodes agreesD [OF g mn])
  qed
qed

section \<open>Subscriptions\<close>

lemma subscribe_expected:
  assumes "mr_posts db' = mr_posts db" "mr_comments db' = mr_comments db" "mr_submolts db' = mr_submolts db"
    and "\<And>x y. find (same_pair x y) (mr_subscribe db') = (if x = u \<and> y = v then r else find (same_pair x y) (mr_subscribe db))"
  shows "expected db' m n b =
    (if m = UserN u \<and> n = UserN v \<and> b = [] then map_option (\<lambda>s. of_int (sb_amount s)) r else expected db m n b)"
  using other_tables_facts [OF assms(1-3)] assms(4)
  by (cases m; cases n) (auto simp: comments_on_def replies_to_def cong: option.case_cong if_cong)

lemma subscribe_inv:
  assumes inv: "mr_inv db" and tables: "mr_posts db' = mr_posts db" "mr_comments db' = mr_comments db"
      "mr_submolts db' = mr_submolts db" "mr_agents db' = mr_agents db"
    and trace: "mr_trace db' = mr_trace db @ [call]"
    and uv: "u \<in> set (mr_agents db)" "v \<in> set (mr_agents db)"
    and find': "\<And>x y. find (same_pair x y) (mr_subscribe db') = (if x = u \<and> y = v then r else find (same_pair x y) (mr_subscribe db))"
    and pairs: "distinct (map (\<lambda>s. (sb_subject s, sb_object s)) (mr_subscribe db'))"
    and members: "\<forall>s\<in>set (mr_subscribe db'). sb_subject s \<in> set (mr_agents db) \<and> sb_object s \<in> set (mr_agents db)"
    and call: "(\<exists>s t. r = Some s \<and> call = PutEdge (node_name (UserN u)) (node_name (UserN v)) (of_int (sb_amount s)) [] t)
      \<or> r = None \<and> call = DeleteEdge (node_name (UserN u)) (node_name (UserN v)) []"
  shows "mr_inv db'"
proof (rule mr_invI [OF inv trace])
  have wf: "mr_wf db" using inv by (simp add: mr_inv_def)
  show "mr_wf db'"
    using wf pairs members unfolding mr_wf_def other_tables_facts [OF tables(1-3)] tables by blast
  have nodes: "safe_node (UserN u)" "safe_node (UserN v)" using wf uv by (auto simp: mr_wf_def)
  fix g m n b
  assume g: "agrees db g" and mn: "safe_node m" "safe_node n"
  from call show "fold apply_call [call] g (node_name m, node_name n, b) = expected db' m n b"
    unfolding subscribe_expected [OF tables(1-3) find']
    by (elim disjE exE conjE)
       (simp_all only: fold_calls apply_put [OF nodes mn] agreesD [OF g mn] option.map)
qed

lemma find_pair_None: "find (same_pair u v) xs = None \<longleftrightarrow> (u, v) \<notin> (\<lambda>s. (sb_subject s, sb_object s)) ` set xs"
  by (auto simp: find_None_iff same_pair_def)

lemma same_pair_unique: "same_pair u v s \<Longrightarrow> same_pair x y s \<longleftrightarrow> x = u \<and> y = v"
  by (auto simp: same_pair_def)

lemma find_pair_map:
  assumes "same_pair u v s" and "\<exists>r\<in>set xs. same_pair u v r"
  shows "find (same_pair x y) (map (\<lambda>r. if same_pair u v r then s else r) xs) =
    (if x = u \<and> y = v then Some s else find (same_pair x y) xs)"
  using assms(2)
proof (induction xs)
  case (Cons a xs)
  show ?case
  proof (cases "\<exists>r\<in>set xs. same_pair u v r")
    case True
    then show ?thesis
      using Cons.IH same_pair_unique [OF assms(1), of x y] same_pair_unique [of u v a x y] by auto
  next
    case False
    then have "map (\<lambda>r. if same_pair u v r then s else r) xs = xs" by (intro map_idI) auto
    moreover have "same_pair u v a" using Cons.prems False by simp
    moreover have "find (same_pair u v) xs = None" using False by (simp add: find_None_iff)
    ultimately show ?thesis
      using same_pair_unique [OF assms(1), of x y] same_pair_unique [of u v a x y] by auto
  qed
qed simp

lemma find_pair_filter:
  "find (same_pair x y) (filter (\<lambda>r. \<not> same_pair u v r) xs) =
    (if x = u \<and> y = v then None else find (same_pair x y) xs)"
proof (induction xs)
  case (Cons a xs)
  show ?case
    using Cons same_pair_unique [of u v a x y] by (cases "same_pair u v a") auto
qed simp

lemma upsert_subscribe_inv:
  assumes inv: "mr_inv db"
  shows "mr_inv (snd (upsert_subscribe u v k db))"
proof (cases "k < - 1 \<or> 1 < k \<or> u \<notin> set (mr_agents db) \<or> v \<notin> set (mr_agents db)")
  case True
  then have "snd (upsert_subscribe u v k db) = db" by (auto simp: upsert_subscribe_def)
  with inv show ?thesis by simp
next
  case False
  have wf: "mr_wf db" using inv by (simp add: mr_inv_def)
  obtain t db1 where bump: "bump_vsids u db = (t, db1)" by force
  obtain t2 db2 where bump2: "bump_vsids u db1 = (t2, db2)" by force
  note same = bump_same [OF bump] bump_same [OF bump2]
  have eqs: "mr_subscribe db1 = mr_subscribe db" "mr_subscribe db2 = mr_subscribe db"
    using same by (simp_all add: same_tables_def)
  have d: "distinct (map (\<lambda>s. (sb_subject s, sb_object s)) (mr_subscribe db))" using wf by (simp add: mr_wf_def)
  let ?s = "\<lambda>t. \<lparr>sb_subject = u, sb_object = v, sb_amount = k, sb_ticker = t\<rparr>"
  show ?thesis
  proof (cases "find (same_pair u v) (mr_subscribe db)")
    case None
    have run: "snd (upsert_subscribe u v k db) =
        emit (subscribe_put (?s t)) (db1\<lparr>mr_subscribe := mr_subscribe db1 @ [?s t]\<rparr>)"
      using False None by (simp add: upsert_subscribe_def bump eqs Let_def)
    have "find (same_pair x y) (mr_subscribe db @ [?s t]) =
        (if x = u \<and> y = v then Some (?s t) else find (same_pair x y) (mr_subscribe db))" for x y
      using None by (auto simp: find_append same_pair_def split: option.split)
    then show ?thesis
      unfolding run
      using False same None d wf
      by (intro subscribe_inv [OF inv, where u = u and v = v and r = "Some (?s t)"])
         (auto simp: same_tables_def subscribe_put_def find_pair_None mr_wf_def)
  next
    case (Some r)
    have run: "snd (upsert_subscribe u v k db) =
        emit (subscribe_put (?s t2))
          (db2\<lparr>mr_subscribe := map (\<lambda>r. if same_pair u v r then ?s t2 else r) (mr_subscribe db2)\<rparr>)"
      using False Some by (simp add: upsert_subscribe_def bump bump2 eqs Let_def)
    have ex: "\<exists>r\<in>set (mr_subscribe db). same_pair u v r" using Some by (auto simp: find_Some_iff)
    have s: "same_pair u v (?s t2)" by (simp add: same_pair_def)
    have keys: "map (\<lambda>s. (sb_subject s, sb_object s)) (map (\<lambda>r. if same_pair u v r then ?s t2 else r) (mr_subscribe db))
        = map (\<lambda>s. (sb_subject s, sb_object s)) (mr_subscribe db)"
      by (simp add: same_pair_def)
    show ?thesis
      unfolding run
    proof (rule subscribe_inv [OF inv, where u = u and v = v and r = "Some (?s t2)"])
      show "distinct (map (\<lambda>s. (sb_subject s, sb_object s)) (mr_subscribe (emit (subscribe_put (?s t2))
          (db2\<lparr>mr_subscribe := map (\<lambda>r. if same_pair u v r then ?s t2 else r) (mr_subscribe db2)\<rparr>))))"
        using d by (simp add: emit_frame eqs keys del: map_map)
    qed (use False same wf find_pair_map [OF s ex] in \<open>auto simp: same_tables_def subscribe_put_def mr_wf_def\<close>)
  qed
qed

lemma delete_subscribe_inv:
  assumes inv: "mr_inv db"
  shows "mr_inv (delete_subscribe u v db)"
proof (cases "find (same_pair u v) (mr_subscribe db)")
  case None
  with inv show ?thesis by (simp add: delete_subscribe_def)
next
  case (Some s)
  have wf: "mr_wf db" using inv by (simp add: mr_inv_def)
  have s: "s \<in> set (mr_subscribe db)" "sb_subject s = u" "sb_object s = v"
    using Some by (auto simp: find_Some_iff same_pair_def)
  have run: "delete_subscribe u v db =
      emit (subscribe_deleted s) (db\<lparr>mr_subscribe := filter (\<lambda>r. \<not> same_pair u v r) (mr_subscribe db)\<rparr>)"
    using Some by (simp add: delete_subscribe_def)
  show ?thesis
    unfolding run
    by (rule subscribe_inv [OF inv, where u = u and v = v and r = None])
       (use s wf in \<open>auto simp: subscribe_deleted_def mr_wf_def find_pair_filter distinct_map_filter\<close>)
qed

end
