(* ===== verification/MeritSteps.thy ===== *)
theory MeritSteps
  imports MeritSpec
begin

text \<open>
  The statements of the program as a step relation on the database, and the proof that in every
  reachable state the edges recorded by the triggers are the graph of the tables. Then the two
  functions that rebuild the graph, which give that same graph, and what the triggers do outside
  of the statements of the relation.
\<close>

section \<open>Steps\<close>

text \<open>
  One statement and its triggers; \<open>again\<close> is an insertion that finds its row there already and changes no
  column of the model, which draws a ticker all the same. The relation is the part of the statements for which the
  triggers keep up with the tables. It leaves out what the DDL and the upserts allow and the triggers miss: an update of a
  post's author or submolt or of a submolt's name, the deletion of a post that has comments and of a comment that has
  replies, a reply whose parent is on another post, and identifiers that begin with \<open>U\<close>, \<open>B\<close> or \<open>C\<close>. The theorems at the end of this
  theory show how graph and tables part with a moved and with a deleted post.
\<close>

inductive mr_step :: "mr_db \<Rightarrow> mr_db \<Rightarrow> bool" where
  agent: "safe_id i \<Longrightarrow> mr_step db (snd (insert_agent i db))"
| submolt: "i \<notin> fst ` set (mr_submolts db) \<Longrightarrow> mr_step db (db\<lparr>mr_submolts := mr_submolts db @ [(i, name)]\<rparr>)"
| post: "safe_id i \<Longrightarrow> mr_step db (snd (insert_post i s a db))"
| comment: "safe_id i \<Longrightarrow> same_post_parent i p q db \<Longrightarrow> mr_step db (snd (insert_comment i p q a db))"
| follow: "mr_step db (snd (upsert_subscribe u v k db))"
| unfollow: "mr_step db (delete_subscribe u v db)"
| comment_out: "\<forall>c\<in>set (mr_comments db). mc_parent_id c \<noteq> Some i \<Longrightarrow> mr_step db (delete_comment i db)"
| again: "mr_step db (snd (bump_vsids u db))"
| post_out: "\<forall>c\<in>set (mr_comments db). mc_post_id c \<noteq> i \<Longrightarrow> mr_step db (delete_post i db)"

definition mr_empty :: mr_db where
  "mr_empty = \<lparr>mr_agents = [], mr_submolts = [], mr_posts = [], mr_comments = [], mr_subscribe = [],
     user_vsids = Map.empty, mr_trace = []\<rparr>"

lemma bump_inv: "mr_inv db \<Longrightarrow> mr_inv (snd (bump_vsids u db))"
  using bump_same [of u db "fst (bump_vsids u db)" "snd (bump_vsids u db)"]
    same_tables_facts(6,7) [of "snd (bump_vsids u db)" db]
  by (simp add: mr_inv_def agrees_def)

lemma mr_step_inv:
  assumes "mr_step db db'" and "mr_inv db"
  shows "mr_inv db'"
  using assms
  by (induction rule: mr_step.induct)
     (simp_all add: insert_agent_inv insert_submolt_inv insert_post_inv insert_comment_inv upsert_subscribe_inv
       delete_subscribe_inv delete_comment_inv bump_inv delete_post_inv)

lemma mr_empty_inv: "mr_inv mr_empty"
proof -
  have "expected mr_empty m n b = None" for m n b
    by (cases m; cases n) (simp_all add: mr_empty_def find_post_def find_comment_def)
  then show ?thesis by (simp add: mr_inv_def mr_wf_def agrees_def edges_of_def) (simp add: mr_empty_def)
qed

lemma reachable_inv: "mr_step\<^sup>*\<^sup>* mr_empty db \<Longrightarrow> mr_inv db"
  by (induction rule: rtranclp_induct) (auto intro: mr_empty_inv mr_step_inv)

text \<open>C2: the triggers keep up with the tables over any sequence of the statements of \<open>mr_step\<close> from an empty database: insertions
  of agents, submolts, posts and comments (identifiers do not begin with \<open>U\<close>, \<open>B\<close> or \<open>C\<close>, and a reply is on the post
  of its parent), insertions that find their row there unchanged, follows and unfollows, and deletions of comments without replies and of posts
  without comments. Then the last thing the triggers said of the edge from one row's node to another's is what the
  tables stand for: the subscription's amount, weight 1 between a post or comment and its author in the board of
  the post, the number of comments on a post or replies to a comment from somebody else, and no edge otherwise. It
  does not hold with the other statements, which move a post to another board or author, or delete rows that others refer to.
\<close>

theorem trigger_graph_matches_tables:
  assumes "mr_step\<^sup>*\<^sup>* mr_empty db" and "safe_node m" and "safe_node n"
  shows "edges_of (mr_trace db) (node_name m, node_name n, b) = expected db m n b"
  using reachable_inv [OF assms(1)] assms(2,3) by (simp add: mr_inv_def agrees_def)

text \<open>Two agents, a post in a board, a comment of the other agent, its reply and its deletion.\<close>

definition ex_statements :: "(mr_db \<Rightarrow> mr_db) list" where
  "ex_statements =
     [\<lambda>db. snd (insert_agent ''1'' db), \<lambda>db. snd (insert_agent ''2'' db),
      \<lambda>db. db\<lparr>mr_submolts := mr_submolts db @ [(''9'', ''general'')]\<rparr>,
      \<lambda>db. snd (insert_post ''3'' (Some ''9'') ''1'' db),
      \<lambda>db. snd (insert_comment ''4'' ''3'' None ''2'' db),
      \<lambda>db. snd (insert_comment ''5'' ''3'' (Some ''4'') ''1'' db),
      \<lambda>db. snd (upsert_subscribe ''2'' ''1'' 1 db),
      \<lambda>db. delete_comment ''5'' db]"

definition ex_state :: "nat \<Rightarrow> mr_db" where
  "ex_state n = fold (\<lambda>f. f) (take n ex_statements) mr_empty"

lemma ex_state_Suc: "n < length ex_statements \<Longrightarrow> ex_state (Suc n) = (ex_statements ! n) (ex_state n)"
  by (simp add: ex_state_def take_Suc_conv_app_nth)

lemmas merit_exec = emit_def find_post_def find_comment_def mm_pgmer_prefix_def bump_vsids_def
  mm_get_board_def post_board_def on_mb_agent_created_def count_comments_of_def upvote_call_def
  mm_sync_comment_upvote_edge_def mm_sync_reply_upvote_edge_def post_inserted_def post_deleted_def
  reply_calls_def comment_inserted_def comment_deleted_def subscribe_put_def subscribe_deleted_def
  insert_agent_def insert_post_def insert_comment_def orphan_replies_def comment_gone_def
  delete_comment_def delete_post_def update_post_submolt_def same_pair_def upsert_subscribe_def
  delete_subscribe_def mr_empty_def Let_def


lemma ex_steps: "mr_step\<^sup>*\<^sup>* mr_empty (ex_state 8)"
proof -
  have ids: "safe_id ''1''" "safe_id ''2''" "safe_id ''3''" "safe_id ''4''" "safe_id ''5''"
    by (simp_all add: safe_id_def)
  have sub: "''9'' \<notin> fst ` set (mr_submolts (ex_state 2))"
    and root: "same_post_parent ''4'' ''3'' None (ex_state 4)"
    and reply: "same_post_parent ''5'' ''3'' (Some ''4'') (ex_state 5)"
    and leaf: "list_all (\<lambda>c. mc_parent_id c \<noteq> Some ''5'') (mr_comments (ex_state 7))"
    by (simp_all add: same_post_parent_def ex_state_def ex_statements_def merit_exec)
  have "mr_step (ex_state 0) (ex_state (Suc 0))" "mr_step (ex_state 1) (ex_state (Suc 1))"
    "mr_step (ex_state 2) (ex_state (Suc 2))" "mr_step (ex_state 3) (ex_state (Suc 3))"
    "mr_step (ex_state 4) (ex_state (Suc 4))" "mr_step (ex_state 5) (ex_state (Suc 5))"
    "mr_step (ex_state 6) (ex_state (Suc 6))" "mr_step (ex_state 7) (ex_state (Suc 7))"
    using ids sub root reply leaf
    by (subst ex_state_Suc, simp add: ex_statements_def,
        simp add: ex_statements_def nth_Cons' mr_step.intros list_all_iff)+
  then have "mr_step (ex_state n) (ex_state (Suc n))" if "n < 8" for n
    using that by (auto simp: eval_nat_numeral less_Suc_eq)
  then have "n \<le> 8 \<Longrightarrow> mr_step\<^sup>*\<^sup>* mr_empty (ex_state n)" for n
    by (induction n) (auto simp: ex_state_def [of 0] intro: rtranclp.rtrancl_into_rtrancl)
  then show ?thesis by simp
qed

theorem trigger_graph_matches_tables_witness:
  "edges_of (mr_trace (ex_state 8)) (node_name (UserN ''2''), node_name (PostN ''3''), ''general'') =
      expected (ex_state 8) (UserN ''2'') (PostN ''3'') ''general''
    \<and> expected (ex_state 8) (UserN ''2'') (PostN ''3'') ''general'' = Some 1"
proof
  show "edges_of (mr_trace (ex_state 8)) (node_name (UserN ''2''), node_name (PostN ''3''), ''general'') =
      expected (ex_state 8) (UserN ''2'') (PostN ''3'') ''general''"
    by (rule trigger_graph_matches_tables [OF ex_steps]) (simp_all add: safe_id_def)
  show "expected (ex_state 8) (UserN ''2'') (PostN ''3'') ''general'' = Some 1"
    by (simp add: ex_state_def ex_statements_def merit_exec comments_on_def positive_def)
qed

section \<open>Rebuilding\<close>

text \<open>Edges put one after the other, when those between the same nodes have the same weight.\<close>

lemma fold_puts:
  assumes "\<forall>w'. (k, w') \<in> set es \<longrightarrow> w' = w"
  shows "fold (\<lambda>(k, w) g. g(k \<mapsto> w)) es g k = (if k \<in> fst ` set es then Some w else g k)"
  using assms by (induction es arbitrary: g) auto

definition sound_edge :: "mr_db \<Rightarrow> (string \<times> string \<times> string) \<times> rat \<Rightarrow> bool" where
  "sound_edge db e \<longleftrightarrow>
     (\<exists>m n b w. e = ((node_name m, node_name n, b), w) \<and> safe_node m \<and> safe_node n \<and> expected db m n b = Some w)"

definition exact_edges :: "mr_db \<Rightarrow> ((string \<times> string \<times> string) \<times> rat) set \<Rightarrow> bool" where
  "exact_edges db es \<longleftrightarrow>
     (\<forall>e\<in>es. sound_edge db e) \<and>
     (\<forall>m n b w. expected db m n b = Some w \<longrightarrow> ((node_name m, node_name n, b), w) \<in> es)"

lemma sound_edge_unique: "sound_edge db (k, w) \<Longrightarrow> sound_edge db (k, w') \<Longrightarrow> w = w'"
  by (auto simp: sound_edge_def node_name_inj)

lemma exact_edges_agree:
  assumes "exact_edges db (set es)"
    and "\<And>m n b. safe_node m \<Longrightarrow> safe_node n \<Longrightarrow> expected db m n b = None \<Longrightarrow> g (node_name m, node_name n, b) = None"
  shows "agrees db (fold (\<lambda>(k, w) g. g(k \<mapsto> w)) es g)"
  unfolding agrees_def
proof (intro allI impI)
  fix m n and b :: string
  assume mn: "safe_node m" "safe_node n"
  let ?k = "(node_name m, node_name n, b)"
  have val: "expected db m n b = Some w" if "(?k, w) \<in> set es" for w
  proof -
    have "sound_edge db (?k, w)" using assms(1) that by (auto simp: exact_edges_def)
    then obtain m' n' where "node_name m = node_name m'" "node_name n = node_name n'" "safe_node m'" "safe_node n'"
      "expected db m' n' b = Some w" by (auto simp: sound_edge_def)
    with mn show ?thesis by (simp add: node_name_inj)
  qed
  show "fold (\<lambda>(k, w) g. g(k \<mapsto> w)) es g ?k = expected db m n b"
  proof (cases "expected db m n b")
    case None
    then have no: "(?k, w) \<notin> set es" for w using val [of w] by auto
    then have "?k \<notin> fst ` set es" by force
    moreover have "\<forall>w'. (?k, w') \<in> set es \<longrightarrow> w' = 0" using no by simp
    ultimately show ?thesis using None assms(2) [OF mn None] fold_puts [of ?k es 0 g] by simp
  next
    case (Some w)
    then have "(?k, w) \<in> set es" using assms(1) by (simp add: exact_edges_def)
    then have "?k \<in> fst ` set es" by (rule rev_image_eqI) simp
    moreover have "\<forall>w'. (?k, w') \<in> set es \<longrightarrow> w' = w" using Some val by simp
    ultimately show ?thesis using Some fold_puts [of ?k es w g] by simp
  qed
qed

text \<open>The rows bulk loading selects are the edges of the abstract graph, each with its weight.\<close>

definition entry :: "bulk_edge \<Rightarrow> (string \<times> string \<times> string) \<times> rat" where
  "entry e = ((be_src e, be_dst e, be_context e), be_weight e)"

lemma joined_all: "mr_wf db \<Longrightarrow> joined_comments db = mr_comments db"
  by (auto simp: joined_comments_def mr_wf_def intro: filter_True)

lemma sound_edgeI:
  "safe_node m \<Longrightarrow> safe_node n \<Longrightarrow> expected db m n b = Some w \<Longrightarrow> sound_edge db ((node_name m, node_name n, b), w)"
  by (auto simp: sound_edge_def)

lemma post_facts:
  assumes "mr_wf db" and "p \<in> set (mr_posts db)"
  shows "find_post (mp_id p) db = Some p" "safe_id (mp_id p)" "safe_id (mp_author_id p)"
    "post_board (mp_id p) db = mm_get_board (mp_submolt_id p) db"
  using assms find_post_iff [OF assms(1), of "mp_id p" p] by (auto simp: mr_wf_def post_board_def)

lemma comment_facts:
  assumes "mr_wf db" and "c \<in> set (mr_comments db)"
  shows "find_comment (mc_id c) db = Some c" "safe_id (mc_id c)" "safe_id (mc_author_id c)"
    "\<exists>p\<in>set (mr_posts db). find_post (mc_post_id c) db = Some p \<and> mp_id p = mc_post_id c"
    "mc_parent_id c = Some q \<Longrightarrow> \<exists>p\<in>set (mr_comments db). find_comment q db = Some p \<and> mc_id p = q \<and> mc_post_id p = mc_post_id c"
proof -
  show "find_comment (mc_id c) db = Some c" "safe_id (mc_id c)" "safe_id (mc_author_id c)"
    using assms find_comment_iff [OF assms(1), of "mc_id c" c] by (auto simp: mr_wf_def)
  show "\<exists>p\<in>set (mr_posts db). find_post (mc_post_id c) db = Some p \<and> mp_id p = mc_post_id c"
    using assms find_post_SomeD [of "mc_post_id c" db] by (fastforce simp: mr_wf_def)
  show "mc_parent_id c = Some q \<Longrightarrow> \<exists>p\<in>set (mr_comments db). find_comment q db = Some p \<and> mc_id p = q \<and> mc_post_id p = mc_post_id c"
    using assms find_comment_SomeD [of q db] by (fastforce simp: mr_wf_def)
qed

text \<open>All edges, one set per kind.\<close>

definition core_edges :: "mr_db \<Rightarrow> ((string \<times> string \<times> string) \<times> rat) set" where
  "core_edges db =
     (\<lambda>s. ((node_name (UserN (sb_subject s)), node_name (UserN (sb_object s)), []), of_int (sb_amount s))) ` set (mr_subscribe db)
     \<union> (\<lambda>p. ((node_name (PostN (mp_id p)), node_name (UserN (mp_author_id p)), mm_get_board (mp_submolt_id p) db), 1)) ` set (mr_posts db)
     \<union> (\<lambda>p. ((node_name (UserN (mp_author_id p)), node_name (PostN (mp_id p)), mm_get_board (mp_submolt_id p) db), 1)) ` set (mr_posts db)
     \<union> (\<lambda>c. ((node_name (CommentN (mc_id c)), node_name (UserN (mc_author_id c)), post_board (mc_post_id c) db), 1)) ` set (mr_comments db)
     \<union> (\<lambda>c. ((node_name (UserN (mc_author_id c)), node_name (CommentN (mc_id c)), post_board (mc_post_id c) db), 1)) ` set (mr_comments db)
     \<union> (\<lambda>c. ((node_name (UserN (mc_author_id c)), node_name (PostN (mc_post_id c)), post_board (mc_post_id c) db),
          of_nat (comments_on (mc_author_id c) (mc_post_id c) db))) ` {c \<in> set (mr_comments db). other_author c db}
     \<union> (\<lambda>c. ((node_name (UserN (mc_author_id c)), node_name (CommentN (the (upvoted c db))), post_board (mc_post_id c) db),
          of_nat (replies_to (mc_author_id c) (the (upvoted c db)) db))) ` {c \<in> set (mr_comments db). upvoted c db \<noteq> None}"

lemma sound_subscribe:
  assumes "mr_wf db" and "s \<in> set (mr_subscribe db)"
  shows "sound_edge db ((node_name (UserN (sb_subject s)), node_name (UserN (sb_object s)), []), of_int (sb_amount s))"
proof -
  have "find (same_pair (sb_subject s) (sb_object s)) (mr_subscribe db) = Some s"
    using assms tbl_get_Some_iff [unfolded tbl_get_def, of "\<lambda>s. (sb_subject s, sb_object s)" "mr_subscribe db" "(sb_subject s, sb_object s)" s]
    by (simp add: mr_wf_def same_pair_def [abs_def])
  then show ?thesis
    using assms by (intro sound_edgeI) (auto simp: mr_wf_def)
qed

lemma counted: "c \<in> set (mr_comments db) \<Longrightarrow> P c \<Longrightarrow> count_comments_of P None db \<noteq> 0"
  by (auto simp: count_none_iff)

lemma sound_upvote:
  assumes "mr_wf db" and "c \<in> set (mr_comments db)" and "other_author c db"
  shows "sound_edge db ((node_name (UserN (mc_author_id c)), node_name (PostN (mc_post_id c)), post_board (mc_post_id c) db),
      of_nat (comments_on (mc_author_id c) (mc_post_id c) db))"
proof -
  obtain p where p: "p \<in> set (mr_posts db)" "find_post (mc_post_id c) db = Some p" "mp_id p = mc_post_id c"
    using comment_facts(4) [OF assms(1,2)] by blast
  have "comments_on (mc_author_id c) (mc_post_id c) db \<noteq> 0"
    unfolding comments_on_def by (rule counted [OF assms(2)]) simp
  then show ?thesis
    using p assms(3) comment_facts(3) [OF assms(1,2)] post_facts(2) [OF assms(1) p(1)]
    by (intro sound_edgeI) (simp_all add: positive_def other_author_def)
qed

lemma sound_reply:
  assumes "mr_wf db" and "c \<in> set (mr_comments db)" and up: "upvoted c db = Some q"
  shows "sound_edge db ((node_name (UserN (mc_author_id c)), node_name (CommentN q), post_board (mc_post_id c) db),
      of_nat (replies_to (mc_author_id c) q db))"
proof -
  have q: "mc_parent_id c = Some q" "map_option mc_author_id (find_comment q db) \<noteq> Some (mc_author_id c)"
    using up by (auto simp: upvoted_def split: option.splits if_splits)
  obtain p where p: "p \<in> set (mr_comments db)" "find_comment q db = Some p" "mc_id p = q" "mc_post_id p = mc_post_id c"
    using comment_facts(5) [OF assms(1,2) q(1)] by blast
  have "replies_to (mc_author_id c) q db \<noteq> 0"
    unfolding replies_to_def by (rule counted [OF assms(2)]) (simp add: q(1))
  then show ?thesis
    using p q comment_facts(3) [OF assms(1,2)] comment_facts(2) [OF assms(1) p(1)]
    by (intro sound_edgeI) (simp_all add: positive_def)
qed

lemma core_edges_sound:
  assumes wf: "mr_wf db" and "e \<in> core_edges db"
  shows "sound_edge db e"
  using assms(2) unfolding core_edges_def
  by (elim UnE imageE CollectE conjE)
     (auto simp del: node_name.simps simp: post_facts [OF wf] comment_facts(1-3) [OF wf]
        intro: sound_subscribe [OF wf] sound_upvote [OF wf] sound_reply [OF wf] sound_edgeI)

text \<open>No edge of the abstract graph is left out, one kind at a time.\<close>

lemma expected_Some_cases:
  assumes wf: "mr_wf db" and e: "expected db m n b = Some w"
  shows "((node_name m, node_name n, b), w) \<in> core_edges db"
proof (cases m; cases n)
  fix u v
  assume mn: "m = UserN u" "n = UserN v"
  then obtain s where "find (same_pair u v) (mr_subscribe db) = Some s" "b = []" "w = of_int (sb_amount s)"
    using e by (auto split: if_splits)
  then show ?thesis using mn by (auto simp: core_edges_def find_Some_iff same_pair_def)
next
  fix p u
  assume mn: "m = PostN p" "n = UserN u"
  then obtain r where "find_post p db = Some r" "mp_author_id r = u" "post_board p db = b" "w = 1"
    using e by (auto split: option.splits if_splits)
  then show ?thesis using mn find_post_SomeD [of p db r] by (auto simp: core_edges_def post_board_def)
next
  fix c u
  assume mn: "m = CommentN c" "n = UserN u"
  then obtain r where "find_comment c db = Some r" "mc_author_id r = u" "post_board (mc_post_id r) db = b" "w = 1"
    using e by (auto split: option.splits if_splits)
  then show ?thesis using mn find_comment_SomeD [of c db r] by (auto simp: core_edges_def)
next
  fix u p
  assume mn: "m = UserN u" "n = PostN p"
  then obtain r where r: "find_post p db = Some r" "post_board p db = b"
    and w: "Some w = (if mp_author_id r = u then Some 1 else positive (comments_on u p db))"
    using e by (auto split: option.splits if_splits)
  note rd = find_post_SomeD [OF r(1)]
  show ?thesis
  proof (cases "mp_author_id r = u")
    case True
    then show ?thesis using mn r w rd by (auto simp: core_edges_def post_board_def)
  next
    case False
    then have k: "comments_on u p db \<noteq> 0" "w = of_nat (comments_on u p db)"
      using w by (auto simp: positive_def split: if_splits)
    then obtain c where c: "c \<in> set (mr_comments db)" "mc_author_id c = u" "mc_post_id c = p"
      by (auto simp: comments_on_def count_none_iff)
    then have "other_author c db" using r False by (simp add: other_author_def)
    with c k mn r show ?thesis by (auto simp: core_edges_def)
  qed
next
  fix u q
  assume mn: "m = UserN u" "n = CommentN q"
  then obtain r where r: "find_comment q db = Some r" "post_board (mc_post_id r) db = b"
    and w: "Some w = (if mc_author_id r = u then Some 1 else positive (replies_to u q db))"
    using e by (auto split: option.splits if_splits)
  note rd = find_comment_SomeD [OF r(1)]
  show ?thesis
  proof (cases "mc_author_id r = u")
    case True
    then show ?thesis using mn r w rd by (auto simp: core_edges_def)
  next
    case False
    then have k: "replies_to u q db \<noteq> 0" "w = of_nat (replies_to u q db)"
      using w by (auto simp: positive_def split: if_splits)
    then obtain c where c: "c \<in> set (mr_comments db)" "mc_author_id c = u" "mc_parent_id c = Some q"
      by (auto simp: replies_to_def count_none_iff)
    then have up: "upvoted c db = Some q" using r False by (simp add: upvoted_def)
    have "mc_post_id r = mc_post_id c" using comment_facts(5) [OF wf c(1,3)] r by auto
    with c k mn r up show ?thesis by (auto simp: core_edges_def intro!: rev_image_eqI [of c])
  qed
qed (use e in simp_all)

lemma core_edges_exact: "mr_wf db \<Longrightarrow> exact_edges db (core_edges db)"
  by (simp add: exact_edges_def core_edges_sound expected_Some_cases)

text \<open>\<open>meritrank_bulk_init\<close> selects these edges.\<close>

lemma set_upvoted_posts: "mr_wf db \<Longrightarrow>
    set (upvoted_posts db) = (\<lambda>c. (mc_author_id c, mc_post_id c)) ` {c \<in> set (mr_comments db). other_author c db}"
  by (auto simp: upvoted_posts_def joined_all other_author_def)

lemma set_upvoted_comments:
  assumes wf: "mr_wf db"
  shows "set (upvoted_comments db) =
    (\<lambda>c. (mc_author_id c, the (find_comment (the (upvoted c db)) db))) ` {c \<in> set (mr_comments db). upvoted c db \<noteq> None}"
proof -
  have one: "set (case mc_parent_id c of None \<Rightarrow> []
       | Some q \<Rightarrow> (case find_comment q db of None \<Rightarrow> []
           | Some p \<Rightarrow> if find_post (mc_post_id p) db \<noteq> None \<and> mc_author_id c \<noteq> mc_author_id p then [(c, p)] else []))
     = (if upvoted c db \<noteq> None then {(c, the (find_comment (the (upvoted c db)) db))} else {})"
    if c: "c \<in> set (mr_comments db)" for c
  proof (cases "mc_parent_id c")
    case None
    then show ?thesis by (simp add: upvoted_def)
  next
    case (Some q)
    from comment_facts(5) [OF wf c Some] comment_facts(4) [OF wf c] obtain p r
      where "find_comment q db = Some p" "mc_post_id p = mc_post_id c" "find_post (mc_post_id c) db = Some r" by auto
    then show ?thesis using Some by (auto simp: upvoted_def)
  qed
  have "set (replies db) = (\<Union>c\<in>set (mr_comments db).
      if upvoted c db \<noteq> None then {(c, the (find_comment (the (upvoted c db)) db))} else {})"
    unfolding replies_def set_concat set_map image_image using one by (intro SUP_cong) auto
  then show ?thesis by (force simp: upvoted_comments_def split: if_splits)
qed

lemma bulk_upvoted_comments:
  assumes wf: "mr_wf db"
  shows "(\<lambda>(u, q). ((node_name (UserN u), node_name (CommentN (mc_id q)), post_board (mc_post_id q) db),
        of_nat (replies_to u (mc_id q) db))) ` set (upvoted_comments db) =
    (\<lambda>c. ((node_name (UserN (mc_author_id c)), node_name (CommentN (the (upvoted c db))), post_board (mc_post_id c) db),
        of_nat (replies_to (mc_author_id c) (the (upvoted c db)) db))) ` {c \<in> set (mr_comments db). upvoted c db \<noteq> None}"
proof -
  have "mc_id (the (find_comment (the (upvoted c db)) db)) = the (upvoted c db)
      \<and> mc_post_id (the (find_comment (the (upvoted c db)) db)) = mc_post_id c"
    if "c \<in> set (mr_comments db)" "upvoted c db \<noteq> None" for c
  proof -
    from that obtain q where q: "upvoted c db = Some q" "mc_parent_id c = Some q"
      by (auto dest: upvotedD)
    then show ?thesis using comment_facts(5) [OF wf _ q(2)] that by auto
  qed
  then show ?thesis unfolding set_upvoted_comments [OF wf] image_image by (intro image_cong refl) simp
qed

lemma bulk_entries:
  assumes wf: "mr_wf db"
  shows "entry ` set (bulk_edges db) = core_edges db"
  unfolding core_edges_def bulk_upvoted_comments [OF wf, symmetric]
  by (simp add: bulk_edges_def entry_def edge_def image_Un image_image set_upvoted_posts [OF wf] joined_all [OF wf]
      comments_on_def replies_to_def case_prod_unfold Un_assoc)

lemma fold_bulk:
  "fold (\<lambda>e g. g((be_src e, be_dst e, be_context e) \<mapsto> be_weight e)) es g = fold (\<lambda>(k, w) g. g(k \<mapsto> w)) (map entry es) g"
  by (simp add: fold_map o_def entry_def)

text \<open>\<open>meritrank_init\<close> puts these edges, and nothing else.\<close>

fun put_of :: "mr_call \<Rightarrow> ((string \<times> string \<times> string) \<times> rat) option" where
  "put_of (PutEdge s d w b k) = Some ((s, d, b), w)"
| "put_of _ = None"

lemma fold_put_calls:
  assumes "\<forall>c\<in>set calls. put_of c \<noteq> None"
  shows "fold apply_call calls g = fold (\<lambda>(k, w) g. g(k \<mapsto> w)) (map (the \<circ> put_of) calls) g"
  using assms
proof (induction calls arbitrary: g)
  case (Cons c calls)
  then show ?case by (cases c) (simp_all del: fun_upd_apply add: fun_upd_def [symmetric])
qed simp

definition init_calls :: "mr_db \<Rightarrow> mr_call list" where
  "init_calls db =
     concat (map subscribe_put (mr_subscribe db)) @ concat (map (\<lambda>p. post_inserted p db) (mr_posts db))
     @ concat (map (\<lambda>c. comment_inserted c db) (joined_comments db))"

lemma init_trace: "mr_trace (snd (meritrank_init db)) = mr_trace db @ init_calls db"
proof -
  have "fst (init_comment db c) = comment_inserted c db" for c
    by (simp add: init_comment_def comment_inserted_def Let_def case_prod_unfold)
  then show ?thesis by (simp add: meritrank_init_def Let_def init_calls_def o_def)
qed

lemma comment_puts:
  assumes wf: "mr_wf db" and c: "c \<in> set (mr_comments db)"
  shows "put_of ` set (comment_inserted c db) = Some `
    ({((node_name (CommentN (mc_id c)), node_name (UserN (mc_author_id c)), post_board (mc_post_id c) db), 1),
      ((node_name (UserN (mc_author_id c)), node_name (CommentN (mc_id c)), post_board (mc_post_id c) db), 1)}
     \<union> (if other_author c db then {((node_name (UserN (mc_author_id c)), node_name (PostN (mc_post_id c)), post_board (mc_post_id c) db),
          of_nat (comments_on (mc_author_id c) (mc_post_id c) db))} else {})
     \<union> (if upvoted c db \<noteq> None then {((node_name (UserN (mc_author_id c)), node_name (CommentN (the (upvoted c db))), post_board (mc_post_id c) db),
          of_nat (replies_to (mc_author_id c) (the (upvoted c db)) db))} else {}))"
proof -
  have on: "comments_on (mc_author_id c) (mc_post_id c) db \<noteq> 0"
    unfolding comments_on_def by (rule counted [OF c]) simp
  have to: "replies_to (mc_author_id c) q db \<noteq> 0" if "upvoted c db = Some q" for q
    unfolding replies_to_def by (rule counted [OF c]) (simp add: upvotedD [OF that])
  show ?thesis
    unfolding comment_calls(1) vote_calls_def
    using on to by (cases "upvoted c db") (auto simp: upvote_call_def simp del: node_name.simps)
qed

lemma init_puts:
  assumes wf: "mr_wf db"
  shows "put_of ` set (init_calls db) = Some ` core_edges db"
proof -
  have cm: "(\<Union>c\<in>set (mr_comments db). put_of ` set (comment_inserted c db)) = Some `
    ((\<lambda>c. ((node_name (CommentN (mc_id c)), node_name (UserN (mc_author_id c)), post_board (mc_post_id c) db), 1)) ` set (mr_comments db)
     \<union> (\<lambda>c. ((node_name (UserN (mc_author_id c)), node_name (CommentN (mc_id c)), post_board (mc_post_id c) db), 1)) ` set (mr_comments db)
     \<union> (\<lambda>c. ((node_name (UserN (mc_author_id c)), node_name (PostN (mc_post_id c)), post_board (mc_post_id c) db),
          of_nat (comments_on (mc_author_id c) (mc_post_id c) db))) ` {c \<in> set (mr_comments db). other_author c db}
     \<union> (\<lambda>c. ((node_name (UserN (mc_author_id c)), node_name (CommentN (the (upvoted c db))), post_board (mc_post_id c) db),
          of_nat (replies_to (mc_author_id c) (the (upvoted c db)) db))) ` {c \<in> set (mr_comments db). upvoted c db \<noteq> None})"
    (is "?l = Some ` ?r")
  proof -
    have "?l = (\<Union>c\<in>set (mr_comments db). Some `
    ({((node_name (CommentN (mc_id c)), node_name (UserN (mc_author_id c)), post_board (mc_post_id c) db), 1),
      ((node_name (UserN (mc_author_id c)), node_name (CommentN (mc_id c)), post_board (mc_post_id c) db), 1)}
     \<union> (if other_author c db then {((node_name (UserN (mc_author_id c)), node_name (PostN (mc_post_id c)), post_board (mc_post_id c) db),
          of_nat (comments_on (mc_author_id c) (mc_post_id c) db))} else {})
     \<union> (if upvoted c db \<noteq> None then {((node_name (UserN (mc_author_id c)), node_name (CommentN (the (upvoted c db))), post_board (mc_post_id c) db),
          of_nat (replies_to (mc_author_id c) (the (upvoted c db)) db))} else {})))"
      using comment_puts [OF wf] by (rule SUP_cong [OF refl])
    also have "\<dots> = Some ` ?r"
      unfolding image_UN [symmetric]
      by (rule arg_cong [where f = "image Some"], rule set_eqI) (simp only: UN_iff Un_iff image_iff mem_Collect_eq insert_iff empty_iff if_split_mem2, blast)
    finally show ?thesis .
  qed
  have sb: "(\<Union>s\<in>set (mr_subscribe db). put_of ` set (subscribe_put s)) = Some `
     (\<lambda>s. ((node_name (UserN (sb_subject s)), node_name (UserN (sb_object s)), []), of_int (sb_amount s))) ` set (mr_subscribe db)"
    by (auto simp: subscribe_put_def)
  have ps: "(\<Union>p\<in>set (mr_posts db). put_of ` set (post_inserted p db)) = Some `
     ((\<lambda>p. ((node_name (PostN (mp_id p)), node_name (UserN (mp_author_id p)), mm_get_board (mp_submolt_id p) db), 1)) ` set (mr_posts db)
     \<union> (\<lambda>p. ((node_name (UserN (mp_author_id p)), node_name (PostN (mp_id p)), mm_get_board (mp_submolt_id p) db), 1)) ` set (mr_posts db))"
    by (auto simp: post_inserted_def Let_def)
  have "put_of ` set (init_calls db) = (\<Union>s\<in>set (mr_subscribe db). put_of ` set (subscribe_put s))
      \<union> (\<Union>p\<in>set (mr_posts db). put_of ` set (post_inserted p db))
      \<union> (\<Union>c\<in>set (mr_comments db). put_of ` set (comment_inserted c db))"
    by (simp add: init_calls_def image_Un image_UN joined_all [OF wf] Un_assoc)
  then show ?thesis unfolding sb ps cm core_edges_def by (simp only: image_Un Un_assoc)
qed

text \<open>Either way of loading the edges, from any graph, as an update of that graph.\<close>

lemma bulk_graph:
  assumes wf: "mr_wf db"
  obtains es where "set es = core_edges db"
    and "edges_of (mr_trace (snd (meritrank_bulk_init t db))) = fold (\<lambda>(k, w) g. g(k \<mapsto> w)) es (\<lambda>_. None)"
proof
  let ?es = "sort_key be_ord (sort_key be_src (sort_key be_dst (bulk_edges db)))"
  show "set (map entry ?es) = core_edges db" using bulk_entries [OF wf] by simp
  show "edges_of (mr_trace (snd (meritrank_bulk_init t db))) = fold (\<lambda>(k, w) g. g(k \<mapsto> w)) (map entry ?es) (\<lambda>_. None)"
    by (simp only: meritrank_bulk_init_def Let_def snd_conv emit_frame edges_of_append fold_calls apply_call.simps fold_bulk)
qed

lemma init_graph:
  assumes wf: "mr_wf db"
  obtains es where "set es = core_edges db"
    and "edges_of (mr_trace (snd (meritrank_init db))) = fold (\<lambda>(k, w) g. g(k \<mapsto> w)) es (edges_of (mr_trace db))"
proof
  have puts: "put_of ` set (init_calls db) = Some ` core_edges db" by (rule init_puts [OF wf])
  then have "set (map (the \<circ> put_of) (init_calls db)) = the ` Some ` core_edges db"
    by (simp only: set_map image_comp [symmetric])
  then show "set (map (the \<circ> put_of) (init_calls db)) = core_edges db" by (simp add: image_image)
  have "\<forall>c\<in>set (init_calls db). put_of c \<noteq> None" using puts by (metis image_iff option.distinct(1))
  then show "edges_of (mr_trace (snd (meritrank_init db))) =
      fold (\<lambda>(k, w) g. g(k \<mapsto> w)) (map (the \<circ> put_of) (init_calls db)) (edges_of (mr_trace db))"
    by (simp only: init_trace edges_of_append fold_put_calls)
qed

lemma fold_puts_set:
  assumes "set es = set es'" and "\<And>k w w'. (k, w) \<in> set es \<Longrightarrow> (k, w') \<in> set es \<Longrightarrow> w = w'"
  shows "fold (\<lambda>(k, w) g. g(k \<mapsto> w)) es g = fold (\<lambda>(k, w) g. g(k \<mapsto> w)) es' g"
proof
  fix k
  show "fold (\<lambda>(k, w) g. g(k \<mapsto> w)) es g k = fold (\<lambda>(k, w) g. g(k \<mapsto> w)) es' g k"
  proof (cases "k \<in> fst ` set es")
    case True
    then obtain w where w: "(k, w) \<in> set es" by force
    then have "\<forall>w'. (k, w') \<in> set es \<longrightarrow> w' = w" using assms(2) by blast
    then show ?thesis using fold_puts [of k es w g] fold_puts [of k es' w g] assms(1) by simp
  next
    case False
    then have none: "(k, w) \<notin> set es" "(k, w) \<notin> set es'" for w using assms(1) by force+
    show ?thesis using fold_puts [of k es w g for w] fold_puts [of k es' w g for w] none False assms(1) by simp
  qed
qed

text \<open>C3: \<open>meritrank_bulk_init\<close> makes the graph of well-formed tables whatever the graph was before: after the
  reset and the load, the edge from one row's node to another's is what the tables stand for.
\<close>

theorem bulk_init_loads_tables:
  assumes "mr_wf db" and "safe_node m" and "safe_node n"
  shows "edges_of (mr_trace (snd (meritrank_bulk_init t db))) (node_name m, node_name n, b) = expected db m n b"
proof -
  obtain es where es: "set es = core_edges db"
    and run: "edges_of (mr_trace (snd (meritrank_bulk_init t db))) = fold (\<lambda>(k, w) g. g(k \<mapsto> w)) es (\<lambda>_. None)"
    using bulk_graph [OF assms(1)] .
  have "agrees db (fold (\<lambda>(k, w) g. g(k \<mapsto> w)) es (\<lambda>_. None))"
    by (rule exact_edges_agree) (simp_all add: es core_edges_exact [OF assms(1)])
  then show ?thesis unfolding run using assms(2,3) by (rule agreesD)
qed

text \<open>The example with the post moved out of its board, which fires no trigger.\<close>

lemma ex_moved_wf: "mr_wf (update_post_submolt ''3'' None (ex_state 8))"
  by (simp add: ex_state_def ex_statements_def merit_exec mr_wf_def safe_id_def)

theorem bulk_init_loads_tables_witness:
  "edges_of (mr_trace (snd (meritrank_bulk_init 0 (update_post_submolt ''3'' None (ex_state 8)))))
      (node_name (PostN ''3''), node_name (UserN ''1''), ''general'') =
    expected (update_post_submolt ''3'' None (ex_state 8)) (PostN ''3'') (UserN ''1'') ''general''"
  by (rule bulk_init_loads_tables [OF ex_moved_wf]) (simp_all add: safe_id_def)

text \<open>C4: on well-formed tables (\<open>mr_wf\<close>: distinct keys, rows that exist for every reference, identifiers without the prefixes
  of the graph, and every reply on the post of its parent) and an empty graph, \<open>meritrank_init\<close>, one call per edge, and
  \<open>meritrank_bulk_init\<close>, one aggregated statement, end with the same edges and the same weights. (Their magnitudes
  differ: the aggregated votes carry 0 where the loop carries the ticker of the comment. Where a reply and its parent are
  on different posts, the two put its vote into different boards.)
\<close>

theorem init_equals_bulk_init:
  assumes "mr_wf db" and "mr_trace db = []"
  shows "edges_of (mr_trace (snd (meritrank_init db))) = edges_of (mr_trace (snd (meritrank_bulk_init t db)))"
proof -
  obtain es where es: "set es = core_edges db"
    and run: "edges_of (mr_trace (snd (meritrank_init db))) = fold (\<lambda>(k, w) g. g(k \<mapsto> w)) es (edges_of (mr_trace db))"
    using init_graph [OF assms(1)] .
  obtain es' where es': "set es' = core_edges db"
    and run': "edges_of (mr_trace (snd (meritrank_bulk_init t db))) = fold (\<lambda>(k, w) g. g(k \<mapsto> w)) es' (\<lambda>_. None)"
    using bulk_graph [OF assms(1)] .
  have "edges_of (mr_trace db) = (\<lambda>_. None)" by (simp add: assms(2) edges_of_def)
  moreover have "w = w'" if "(k, w) \<in> set es" "(k, w') \<in> set es" for k w w'
    using that core_edges_sound [OF assms(1)] sound_edge_unique unfolding es by blast
  moreover have "fold (\<lambda>(k, w) g. g(k \<mapsto> w)) es g = fold (\<lambda>(k, w) g. g(k \<mapsto> w)) es' g" for g
    by (rule fold_puts_set) (simp only: es es', rule calculation(2))
  ultimately show ?thesis unfolding run run' by simp
qed

theorem init_equals_bulk_init_witness:
  "edges_of (mr_trace (snd (meritrank_init ((ex_state 8)\<lparr>mr_trace := []\<rparr>)))) =
    edges_of (mr_trace (snd (meritrank_bulk_init 0 ((ex_state 8)\<lparr>mr_trace := []\<rparr>))))"
proof (rule init_equals_bulk_init)
  show "mr_wf ((ex_state 8)\<lparr>mr_trace := []\<rparr>)"
    by (simp add: ex_state_def ex_statements_def merit_exec mr_wf_def safe_id_def)
qed simp

section \<open>Where the graph and the tables part\<close>

text \<open>C5: moving a post to another board, which the crawler's upserts do and no trigger sees, leaves its edges where they were: the
  old board keeps the edge from the post to its author that the tables no longer stand for, and the new board has
  none. (Up to the move the database has been reached by \<open>mr_step\<close>.)
\<close>

theorem moved_post_keeps_old_edges:
  assumes "mr_step\<^sup>*\<^sup>* mr_empty db" and "find_post p db = Some r"
    and "post_board p (update_post_submolt p s db) \<noteq> post_board p db"
  shows "edges_of (mr_trace (update_post_submolt p s db))
        (node_name (PostN p), node_name (UserN (mp_author_id r)), post_board p db) = Some 1
      \<and> expected (update_post_submolt p s db) (PostN p) (UserN (mp_author_id r)) (post_board p db) = None
      \<and> edges_of (mr_trace (update_post_submolt p s db))
        (node_name (PostN p), node_name (UserN (mp_author_id r)), post_board p (update_post_submolt p s db)) = None"
proof -
  have inv: "mr_inv db" by (rule reachable_inv [OF assms(1)])
  then have wf: "mr_wf db" by (simp add: mr_inv_def)
  have safe: "safe_node (PostN p)" "safe_node (UserN (mp_author_id r))"
    using post_facts(2,3) [OF wf] find_post_SomeD [OF assms(2)] by auto
  have tr: "mr_trace (update_post_submolt p s db) = mr_trace db" by (simp add: update_post_submolt_def)
  have ag: "edges_of (mr_trace db) (node_name (PostN p), node_name (UserN (mp_author_id r)), b)
      = expected db (PostN p) (UserN (mp_author_id r)) b" for b
    using inv safe by (simp add: mr_inv_def agrees_def del: node_name.simps)
  show ?thesis
    unfolding tr ag using assms(2,3) by (simp split: option.split)
qed

theorem moved_post_keeps_old_edges_witness:
  "edges_of (mr_trace (update_post_submolt ''3'' None (ex_state 8)))
      (node_name (PostN ''3''), node_name (UserN ''1''), post_board ''3'' (ex_state 8)) = Some 1"
proof -
  have r: "find_post ''3'' (ex_state 8) = Some \<lparr>mp_id = ''3'', mp_submolt_id = Some ''9'', mp_author_id = ''1'', mp_ticker = 1\<rparr>"
    by (simp add: ex_state_def ex_statements_def merit_exec)
  have "post_board ''3'' (update_post_submolt ''3'' None (ex_state 8)) \<noteq> post_board ''3'' (ex_state 8)"
    by (simp add: ex_state_def ex_statements_def merit_exec)
  then show ?thesis using moved_post_keeps_old_edges [OF ex_steps r] by simp
qed

text \<open>
  The comments of a deleted post go with it, after it: their triggers no longer find its board, and delete
  edges in the empty board, where there are none.
\<close>

lemma comment_gone_tables: "mr_posts (comment_gone c db) = mr_posts db"
  by (simp add: comment_gone_def Let_def orphan_replies_def)

lemma gone_board:
  assumes "mr_posts db = mr_posts db'" and "find_post (mc_post_id c) db' = None" and "b \<noteq> []"
  shows "edges_of (mr_trace (comment_gone c db)) (s, d, b) = edges_of (mr_trace db) (s, d, b)"
proof -
  have "post_board (mc_post_id c) (orphan_replies (mc_id c) db) = []"
    using assms(1,2) by (simp add: post_board_def find_post_def orphan_replies_def)
  moreover have "mr_trace (orphan_replies (mc_id c) db) = mr_trace db" by (simp add: orphan_replies_def)
  ultimately show ?thesis
    using assms(3)
    by (simp add: comment_gone_def Let_def edges_of_append comment_deleted_def reply_calls_def upvote_call_def
        mm_sync_comment_upvote_edge_def mm_sync_reply_upvote_edge_def split: option.split)
qed

lemma all_gone_board:
  assumes "mr_posts db = mr_posts db'" and "\<forall>c\<in>set cs. find_post (mc_post_id c) db' = None" and "b \<noteq> []"
  shows "edges_of (mr_trace (fold comment_gone cs db)) (s, d, b) = edges_of (mr_trace db) (s, d, b)"
  using assms(1,2)
proof (induction cs arbitrary: db)
  case (Cons c cs)
  have "edges_of (mr_trace (fold comment_gone cs (comment_gone c db))) (s, d, b) =
      edges_of (mr_trace (comment_gone c db)) (s, d, b)"
    by (rule Cons.IH) (use Cons.prems in \<open>simp_all add: comment_gone_tables\<close>)
  also have "\<dots> = edges_of (mr_trace db) (s, d, b)"
    using Cons.prems gone_board [OF Cons.prems(1) _ assms(3)] by simp
  finally show ?case by simp
qed simp

text \<open>Deleting a post of a board deletes its comments but not their edges: the edge from a deleted
  comment to its author stays in the graph, for a comment the tables no longer have.
\<close>

theorem deleted_post_keeps_comment_edges:
  assumes "mr_step\<^sup>*\<^sup>* mr_empty db" and "find_comment i db = Some c"
    and "post_board (mc_post_id c) db \<noteq> []"
  shows "edges_of (mr_trace (delete_post (mc_post_id c) db))
        (node_name (CommentN i), node_name (UserN (mc_author_id c)), post_board (mc_post_id c) db) = Some 1"
proof -
  let ?p = "mc_post_id c" and ?b = "post_board (mc_post_id c) db"
  let ?k = "(node_name (CommentN i), node_name (UserN (mc_author_id c)), ?b)"
  let ?db1 = "db\<lparr>mr_posts := filter (\<lambda>p. mp_id p \<noteq> ?p) (mr_posts db),
                 mr_comments := filter (\<lambda>c. mc_post_id c \<noteq> ?p) (mr_comments db)\<rparr>"
  let ?db2 = "fold comment_gone (filter (\<lambda>c. mc_post_id c = ?p) (mr_comments db)) ?db1"
  have inv: "mr_inv db" by (rule reachable_inv [OF assms(1)])
  then have wf: "mr_wf db" by (simp add: mr_inv_def)
  have c: "c \<in> set (mr_comments db)" "mc_id c = i" using find_comment_SomeD [OF assms(2)] by auto
  note cf = comment_facts [OF wf c(1)]
  obtain p where p: "p \<in> set (mr_posts db)" "find_post ?p db = Some p" using cf(4) by blast
  have safe: "safe_node (CommentN i)" "safe_node (UserN (mc_author_id c))" "safe_node (PostN (mp_id p))"
    "safe_node (UserN (mp_author_id p))"
    using cf(2,3) c(2) post_facts(2,3) [OF wf p(1)] by simp_all
  have "find_post ?p ?db1 = None" by (auto simp: find_post_def find_None_iff)
  then have "edges_of (mr_trace ?db2) ?k = edges_of (mr_trace db) ?k"
    by (subst all_gone_board [where db' = ?db1]) (simp_all add: assms(3))
  also have "\<dots> = expected db (CommentN i) (UserN (mc_author_id c)) ?b"
    using inv safe by (simp add: mr_inv_def agrees_def del: node_name.simps)
  finally have kept: "edges_of (mr_trace ?db2) ?k = Some 1" using assms(2) by simp
  have "post_deleted p ?db2 =
      [DeleteEdge (node_name (PostN (mp_id p))) (node_name (UserN (mp_author_id p))) (mm_get_board (mp_submolt_id p) ?db2),
       DeleteEdge (node_name (UserN (mp_author_id p))) (node_name (PostN (mp_id p))) (mm_get_board (mp_submolt_id p) ?db2)]"
    by (simp add: post_deleted_def Let_def)
  then have "fold apply_call (post_deleted p ?db2) g ?k = g ?k" for g
    using apply_put(2) [OF safe(3,4,1,2)] apply_put(2) [OF safe(4,3,1,2)] by (simp only: fold_calls node.distinct simp_thms if_False)
  then show ?thesis
    using kept p(2) by (simp add: delete_post_def Let_def edges_of_append del: node_name.simps)
qed

theorem deleted_post_keeps_comment_edges_witness:
  "edges_of (mr_trace (delete_post ''3'' (ex_state 8))) (node_name (CommentN ''4''), node_name (UserN ''2''), ''general'') = Some 1
    \<and> find_comment ''4'' (delete_post ''3'' (ex_state 8)) = None"
proof -
  have c: "find_comment ''4'' (ex_state 8) =
      Some \<lparr>mc_id = ''4'', mc_post_id = ''3'', mc_parent_id = None, mc_author_id = ''2'', mc_ticker = 1\<rparr>"
    and b: "post_board ''3'' (ex_state 8) = ''general''"
    and none: "find_comment ''4'' (delete_post ''3'' (ex_state 8)) = None"
    by (simp_all add: ex_state_def ex_statements_def merit_exec)
  show ?thesis using deleted_post_keeps_comment_edges [OF ex_steps c] b none by (simp del: node_name.simps)
qed

text \<open>Following somebody again draws two tickers: the \<open>BEFORE INSERT\<close> trigger fires before the conflict is found.\<close>

lemma refollow_draws_two_tickers:
  assumes "find (same_pair u v) (mr_subscribe db) \<noteq> None" and "user_vsids db u = Some n"
    and "u \<in> set (mr_agents db)" "v \<in> set (mr_agents db)" "- 1 \<le> k" "k \<le> 1"
  shows "user_vsids (snd (upsert_subscribe u v k db)) u = Some (n + 2)"
  using assms by (auto simp: upsert_subscribe_def bump_vsids_def Let_def)

text \<open>An identifier that begins with one of the prefixes is the node of another row.\<close>

lemma prefixed_ids_collide: "safe_id i \<Longrightarrow> mm_pgmer_prefix ''U'' (''B'' @ i) = mm_pgmer_prefix ''B'' i"
  by (simp add: mm_pgmer_prefix_def safe_id_def)

text \<open>A reply on another post than its parent: one rebuilding function puts its vote into the board of the reply, the
  other into that of the parent.\<close>

definition ex_astray :: mr_db where
  "ex_astray =
     (let db = mr_empty\<lparr>mr_agents := [''1'', ''2''], mr_submolts := [(''8'', ''other''), (''9'', ''general'')]\<rparr>;
          posted = snd (insert_post ''6'' (Some ''8'') ''1'' (snd (insert_post ''3'' (Some ''9'') ''1'' db)))
      in (snd (insert_comment ''5'' ''6'' (Some ''4'') ''1'' (snd (insert_comment ''4'' ''3'' None ''2'' posted))))\<lparr>mr_trace := []\<rparr>)"

lemma astray_reply_rebuilt_differently:
  "edges_of (mr_trace (snd (meritrank_init ex_astray))) (''U1'', ''C4'', ''other'') = Some 1"
  "edges_of (mr_trace (snd (meritrank_bulk_init 7 ex_astray))) (''U1'', ''C4'', ''other'') = None"
  "edges_of (mr_trace (snd (meritrank_bulk_init 7 ex_astray))) (''U1'', ''C4'', ''general'') = Some 1"
  by code_simp+

end
