(* ===== verification/Api.thy ===== *)
theory Api
  imports Auth MeritSteps "HOL-Library.Multiset"
begin

text \<open>
  The API over the graph: \<open>events/router.py\<close> with \<open>events/schemas.py\<close>, \<open>scores/router.py\<close>,
  \<open>rank/router.py\<close>, \<open>schema/existence.py\<close>, \<open>schema/queries.py\<close>, \<open>schemas.py\<close>, and the SQL functions of
  \<open>schema/ddl.py\<close> that the queries call. The functions of the extension \<open>pgmer2\<close> that read scores are
  parameters, which see the calls made to the extension so far.
\<close>

section \<open>Scores\<close>

text \<open>The columns of the extension's result that the SQL reads.\<close>

record node_score =
  ns_src :: string
  ns_dst :: string
  score_cluster_of_src :: rat
  score_cluster_of_dst :: rat

record MutualScore =
  ms_src :: string
  ms_dst :: string
  ms_src_score :: rat
  ms_dst_score :: rat

record CommentRank =
  ck_id :: string
  ck_src_score :: rat
  ck_dst_score :: rat

text \<open>
  \<open>mr_scores(src, hide_personal, context, kind, lt, lte, gt, gte, index, count)\<close>. An argument that may be
  \<open>NULL\<close> is an option.
\<close>

record pgmer =
  mr_node_score :: "mr_call list \<Rightarrow> string \<Rightarrow> string option \<Rightarrow> string \<Rightarrow> node_score list"
  mr_mutual_scores :: "mr_call list \<Rightarrow> string \<Rightarrow> string \<Rightarrow> node_score list"
  mr_scores :: "mr_call list \<Rightarrow> string \<Rightarrow> bool \<Rightarrow> string \<Rightarrow> string \<Rightarrow> string option \<Rightarrow> string option
    \<Rightarrow> string option \<Rightarrow> string option \<Rightarrow> int \<Rightarrow> int \<Rightarrow> node_score list"

definition mutual_score :: "node_score \<Rightarrow> MutualScore" where
  "mutual_score r =
     \<lparr>ms_src = ns_src r, ms_dst = ns_dst r, ms_src_score = score_cluster_of_src r, ms_dst_score = score_cluster_of_dst r\<rparr>"

text \<open>The row argument of the first three is \<open>NULL\<close> when the subquery finds none.\<close>

definition post_get_scores :: "pgmer \<Rightarrow> string option \<Rightarrow> string \<Rightarrow> string \<Rightarrow> mr_db \<Rightarrow> MutualScore list" where
  "post_get_scores pg post_row user_id board db =
     map mutual_score (mr_node_score pg (mr_trace db) (mm_pgmer_prefix ''U'' user_id)
       (map_option (mm_pgmer_prefix ''B'') post_row) board)"

definition comment_get_scores :: "pgmer \<Rightarrow> string option \<Rightarrow> string \<Rightarrow> string \<Rightarrow> mr_db \<Rightarrow> MutualScore list" where
  "comment_get_scores pg comment_row user_id board db =
     map mutual_score (mr_node_score pg (mr_trace db) (mm_pgmer_prefix ''U'' user_id)
       (map_option (mm_pgmer_prefix ''C'') comment_row) board)"

definition user_get_scores :: "pgmer \<Rightarrow> string option \<Rightarrow> string \<Rightarrow> string \<Rightarrow> mr_db \<Rightarrow> MutualScore list" where
  "user_get_scores pg agent_row user_id board db =
     map mutual_score (mr_node_score pg (mr_trace db) (mm_pgmer_prefix ''U'' user_id)
       (map_option (mm_pgmer_prefix ''U'') agent_row) board)"

definition rating :: "pgmer \<Rightarrow> string \<Rightarrow> string \<Rightarrow> mr_db \<Rightarrow> MutualScore list" where
  "rating pg board user_id db =
     map mutual_score (mr_mutual_scores pg (mr_trace db) (mm_pgmer_prefix ''U'' user_id) board)"

definition my_field :: "pgmer \<Rightarrow> string \<Rightarrow> string \<Rightarrow> mr_db \<Rightarrow> MutualScore list" where
  "my_field pg board user_id db =
     map mutual_score (mr_scores pg (mr_trace db) (mm_pgmer_prefix ''U'' user_id) True board ''B''
       None None (Some ''0'') None 0 100)"

section \<open>Queries\<close>

definition find_agent :: "string \<Rightarrow> mr_db \<Rightarrow> string option" where
  "find_agent i db = (if i \<in> set (mr_agents db) then Some i else None)"

definition get_user_scores :: "pgmer \<Rightarrow> string \<Rightarrow> string \<Rightarrow> string \<Rightarrow> mr_db \<Rightarrow> MutualScore list" where
  "get_user_scores pg user_id actor_id board db = user_get_scores pg (find_agent user_id db) actor_id board db"

definition get_post_scores :: "pgmer \<Rightarrow> string \<Rightarrow> string \<Rightarrow> string \<Rightarrow> mr_db \<Rightarrow> MutualScore list" where
  "get_post_scores pg post_id actor_id board db =
     post_get_scores pg (map_option mp_id (find_post post_id db)) actor_id board db"

definition get_comment_scores :: "pgmer \<Rightarrow> string \<Rightarrow> string \<Rightarrow> string \<Rightarrow> mr_db \<Rightarrow> MutualScore list" where
  "get_comment_scores pg comment_id actor_id board db =
     comment_get_scores pg (map_option mc_id (find_comment comment_id db)) actor_id board db"

text \<open>
  \<open>ORDER BY score DESC LIMIT :limit OFFSET :offset\<close>. The order of rows with the same score is up to the
  server and may differ from one query to the next, so the sort is a parameter \<open>arrange\<close> of each query:
  some arrangement of the rows by descending score. Both numbers are sent as 64-bit integers.
\<close>

definition ordered_by :: "('r \<Rightarrow> rat) \<Rightarrow> ('r list \<Rightarrow> 'r list) \<Rightarrow> bool" where
  "ordered_by score arrange \<longleftrightarrow>
     (\<forall>rows. mset (arrange rows) = mset rows \<and> sorted_wrt (\<lambda>a b. score b \<le> score a) (arrange rows))"

definition int8 :: "int \<Rightarrow> bool" where
  "int8 n \<longleftrightarrow> - (2 ^ 63) \<le> n \<and> n < 2 ^ 63"

definition page :: "('r list \<Rightarrow> 'r list) \<Rightarrow> int \<Rightarrow> int \<Rightarrow> 'r list \<Rightarrow> 'r list result" where
  "page arrange limit offset rows =
     (if int8 limit \<and> int8 offset then Inr (take (nat limit) (drop (nat offset) (arrange rows)))
      else Inl (DBAPIError ''value out of int64 range''))"

definition get_user_ranking ::
  "pgmer \<Rightarrow> (MutualScore list \<Rightarrow> MutualScore list) \<Rightarrow> string \<Rightarrow> string \<Rightarrow> int \<Rightarrow> int \<Rightarrow> mr_db \<Rightarrow> MutualScore list result" where
  "get_user_ranking pg arrange board actor_id limit offset db = page arrange limit offset (rating pg board actor_id db)"

definition get_post_ranking ::
  "pgmer \<Rightarrow> (MutualScore list \<Rightarrow> MutualScore list) \<Rightarrow> string \<Rightarrow> string \<Rightarrow> int \<Rightarrow> int \<Rightarrow> mr_db \<Rightarrow> MutualScore list result" where
  "get_post_ranking pg arrange board actor_id limit offset db = page arrange limit offset (my_field pg board actor_id db)"

definition comment_rows :: "pgmer \<Rightarrow> string \<Rightarrow> string \<Rightarrow> string \<Rightarrow> mr_db \<Rightarrow> CommentRank list" where
  "comment_rows pg post_id board actor_id db =
     concat (map (\<lambda>c. map (\<lambda>ms. \<lparr>ck_id = mc_id c, ck_src_score = ms_src_score ms, ck_dst_score = ms_dst_score ms\<rparr>)
         (comment_get_scores pg (Some (mc_id c)) actor_id board db))
       (filter (\<lambda>c. mc_post_id c = post_id) (mr_comments db)))"

definition get_comment_ranking ::
  "pgmer \<Rightarrow> (CommentRank list \<Rightarrow> CommentRank list) \<Rightarrow> string \<Rightarrow> string \<Rightarrow> string \<Rightarrow> int \<Rightarrow> int \<Rightarrow> mr_db
   \<Rightarrow> CommentRank list result" where
  "get_comment_ranking pg arrange post_id board actor_id limit offset db =
     page arrange limit offset (comment_rows pg post_id board actor_id db)"

section \<open>Existence\<close>

definition ensure_exists :: "'r option \<Rightarrow> string \<Rightarrow> unit result" where
  "ensure_exists row detail = (case row of None \<Rightarrow> Inl (HTTPException 404 detail) | Some _ \<Rightarrow> Inr ())"

definition ensure_agent_exists :: "string \<Rightarrow> mr_db \<Rightarrow> unit result" where
  "ensure_agent_exists user_id db = ensure_exists (find_agent user_id db) ''User not found''"

definition ensure_post_exists :: "string \<Rightarrow> mr_db \<Rightarrow> unit result" where
  "ensure_post_exists post_id db = ensure_exists (find_post post_id db) ''Post not found''"

definition ensure_comment_exists :: "string \<Rightarrow> mr_db \<Rightarrow> unit result" where
  "ensure_comment_exists comment_id db = ensure_exists (find_comment comment_id db) ''Comment not found''"

section \<open>Score requests\<close>

definition user_scores_request :: "pgmer \<Rightarrow> string \<Rightarrow> string \<Rightarrow> string \<Rightarrow> mr_db \<Rightarrow> MutualScore list result" where
  "user_scores_request pg subject_user_id object_user_id board db =
     bind_res (ensure_agent_exists subject_user_id db) (\<lambda>_.
     bind_res (ensure_agent_exists object_user_id db) (\<lambda>_.
     Inr (get_user_scores pg object_user_id subject_user_id board db)))"

definition post_scores_request :: "pgmer \<Rightarrow> string \<Rightarrow> string \<Rightarrow> string \<Rightarrow> mr_db \<Rightarrow> MutualScore list result" where
  "post_scores_request pg subject_user_id post_id board db =
     bind_res (ensure_agent_exists subject_user_id db) (\<lambda>_.
     bind_res (ensure_post_exists post_id db) (\<lambda>_.
     Inr (get_post_scores pg post_id subject_user_id board db)))"

definition comment_scores_request :: "pgmer \<Rightarrow> string \<Rightarrow> string \<Rightarrow> string \<Rightarrow> mr_db \<Rightarrow> MutualScore list result" where
  "comment_scores_request pg subject_user_id comment_id board db =
     bind_res (ensure_agent_exists subject_user_id db) (\<lambda>_.
     bind_res (ensure_comment_exists comment_id db) (\<lambda>_.
     Inr (get_comment_scores pg comment_id subject_user_id board db)))"

section \<open>Rank requests\<close>

definition PAGINATION_LIMIT_DEFAULT :: int where "PAGINATION_LIMIT_DEFAULT = 50"
definition PAGINATION_LIMIT_MAX :: int where "PAGINATION_LIMIT_MAX = 200"
definition PAGINATION_OFFSET_DEFAULT :: int where "PAGINATION_OFFSET_DEFAULT = 0"

text \<open>
  \<open>Query(ge=1, le=PAGINATION_LIMIT_MAX)\<close> and \<open>Query(ge=0)\<close> with their defaults. A value outside is answered
  422 before the handler runs.
\<close>

definition query_limit :: "int option \<Rightarrow> int result" where
  "query_limit limit =
     (let n = (case limit of None \<Rightarrow> PAGINATION_LIMIT_DEFAULT | Some n \<Rightarrow> n)
      in if 1 \<le> n \<and> n \<le> PAGINATION_LIMIT_MAX then Inr n else Inl (HTTPException 422 ''limit''))"

definition query_offset :: "int option \<Rightarrow> int result" where
  "query_offset offset =
     (let n = (case offset of None \<Rightarrow> PAGINATION_OFFSET_DEFAULT | Some n \<Rightarrow> n)
      in if 0 \<le> n then Inr n else Inl (HTTPException 422 ''offset''))"

definition get_ranked_users ::
  "pgmer \<Rightarrow> (MutualScore list \<Rightarrow> MutualScore list) \<Rightarrow> string \<Rightarrow> string \<Rightarrow> int option \<Rightarrow> int option \<Rightarrow> mr_db
   \<Rightarrow> MutualScore list result" where
  "get_ranked_users pg arrange subject_user_id board limit offset db =
     bind_res (query_limit limit) (\<lambda>limit. bind_res (query_offset offset) (\<lambda>offset.
     bind_res (ensure_agent_exists subject_user_id db) (\<lambda>_.
     get_user_ranking pg arrange board subject_user_id limit offset db)))"

definition get_ranked_posts ::
  "pgmer \<Rightarrow> (MutualScore list \<Rightarrow> MutualScore list) \<Rightarrow> string \<Rightarrow> string \<Rightarrow> int option \<Rightarrow> int option \<Rightarrow> mr_db
   \<Rightarrow> MutualScore list result" where
  "get_ranked_posts pg arrange subject_user_id board limit offset db =
     bind_res (query_limit limit) (\<lambda>limit. bind_res (query_offset offset) (\<lambda>offset.
     bind_res (ensure_agent_exists subject_user_id db) (\<lambda>_.
     get_post_ranking pg arrange board subject_user_id limit offset db)))"

definition get_ranked_comments ::
  "pgmer \<Rightarrow> (CommentRank list \<Rightarrow> CommentRank list) \<Rightarrow> string \<Rightarrow> string \<Rightarrow> string \<Rightarrow> int option \<Rightarrow> int option \<Rightarrow> mr_db
   \<Rightarrow> CommentRank list result" where
  "get_ranked_comments pg arrange subject_user_id post_id board limit offset db =
     bind_res (query_limit limit) (\<lambda>limit. bind_res (query_offset offset) (\<lambda>offset.
     bind_res (ensure_agent_exists subject_user_id db) (\<lambda>_.
     bind_res (ensure_post_exists post_id db) (\<lambda>_.
     get_comment_ranking pg arrange post_id board subject_user_id limit offset db))))"

section \<open>Subscriptions\<close>

datatype subscription_action = Follow | Unfollow

record AgentSubscriptionRequest =
  target_user_id :: string
  sub_action :: subscription_action
  idempotency_key :: string

definition agent_subscription ::
  "AgentSubscriptionRequest \<Rightarrow> MmAgent \<Rightarrow> (mr_db, subscription_action) action" where
  "agent_subscription body agent db =
     (case sub_action body of
        Follow \<Rightarrow>
          bind_act (upsert_subscribe (ag_mb_agent_id agent) (target_user_id body) 1) (\<lambda>_. ret Follow) db
      | Unfollow \<Rightarrow> (Inr Unfollow, delete_subscribe (ag_mb_agent_id agent) (target_user_id body) db))"

text \<open>One session serves the dependency that authenticates and the handler.\<close>

record app_db =
  ad_mm :: mm_db
  ad_mr :: mr_db

definition on_mm :: "(mm_db, 'a) action \<Rightarrow> (app_db, 'a) action" where
  "on_mm m db = (case m (ad_mm db) of (r, mm) \<Rightarrow> (r, db\<lparr>ad_mm := mm\<rparr>))"

definition on_mr :: "(mr_db, 'a) action \<Rightarrow> (app_db, 'a) action" where
  "on_mr m db = (case m (ad_mr db) of (r, mr) \<Rightarrow> (r, db\<lparr>ad_mr := mr\<rparr>))"

definition subscription_request ::
  "bool \<Rightarrow> jwt_lib \<Rightarrow> Settings \<Rightarrow> seconds \<Rightarrow> string option \<Rightarrow> AgentSubscriptionRequest \<Rightarrow> (app_db, subscription_action) action" where
  "subscription_request initialized lib settings now authorization body =
     get_db_session initialized (bind_act (on_mm (get_current_agent lib settings now authorization))
       (\<lambda>agent. on_mr (agent_subscription body agent)))"

section \<open>Ranked listings\<close>

lemma ordered_by_sort_key: "ordered_by score (sort_key (\<lambda>r. - score r))"
proof -
  have "sorted (map (\<lambda>r. - score r) (sort_key (\<lambda>r. - score r) rows))" for rows by simp
  then show ?thesis by (simp add: ordered_by_def sorted_map del: sorted_sort_key)
qed

text \<open>Without ties every arrangement is the same.\<close>

lemma ordered_by_unique:
  assumes "ordered_by score arrange" and d: "distinct (map score rows)"
  shows "arrange rows = sort_key (\<lambda>r. - score r) rows"
proof (rule properties_for_sort_key [symmetric])
  show m: "mset (arrange rows) = mset rows" using assms(1) by (simp add: ordered_by_def)
  show "sorted (map (\<lambda>r. - score r) (arrange rows))" using assms(1) by (simp add: ordered_by_def sorted_map)
  have d': "distinct (map score (arrange rows))"
    using d m by (metis mset_map mset_eq_imp_distinct_iff)
  fix r
  assume "r \<in> set (arrange rows)"
  then have "r \<in> set rows" using m by (metis set_mset_mset)
  with \<open>r \<in> set (arrange rows)\<close> d d'
  show "filter (\<lambda>x. - score r = - score x) (arrange rows) = filter (\<lambda>x. - score r = - score x) rows"
    using filter_singleton_of_distinct [of score "arrange rows" r] filter_singleton_of_distinct [of score rows r]
    by (simp add: eq_commute)
qed

text \<open>
  What the three rank endpoints share: with numbers in range and everything named there, the answer is
  a page of the rows.
\<close>

locale ranked_listing =
  fixes request :: "('r list \<Rightarrow> 'r list) \<Rightarrow> int option \<Rightarrow> int option \<Rightarrow> 's \<Rightarrow> 'r list result"
    and rows :: "'s \<Rightarrow> 'r list"
    and available :: "'s \<Rightarrow> bool"
    and score :: "'r \<Rightarrow> rat"
  assumes request_page: "available db \<Longrightarrow> 1 \<le> l \<Longrightarrow> l \<le> PAGINATION_LIMIT_MAX \<Longrightarrow> 0 \<le> off \<Longrightarrow>
      request arrange (Some l) (Some off) db = page arrange l off (rows db)"
begin

lemma answer:
  assumes "available db" "1 \<le> l" "l \<le> PAGINATION_LIMIT_MAX" "0 \<le> off" "off < 2 ^ 63"
  shows "request arrange (Some l) (Some off) db = Inr (take (nat l) (drop (nat off) (arrange (rows db))))"
  using assms by (simp add: request_page page_def int8_def PAGINATION_LIMIT_MAX_def)

lemma too_far: "available db \<Longrightarrow> 1 \<le> l \<Longrightarrow> l \<le> PAGINATION_LIMIT_MAX \<Longrightarrow> 2 ^ 63 \<le> off \<Longrightarrow>
    request arrange (Some l) (Some off) db = Inl (DBAPIError ''value out of int64 range'')"
  by (simp add: request_page page_def int8_def)

lemma beyond_the_rows:
  assumes "available db" "ordered_by score arrange" "1 \<le> l" "l \<le> PAGINATION_LIMIT_MAX" "int (length (rows db)) \<le> off" "off < 2 ^ 63"
  shows "request arrange (Some l) (Some off) db = Inr []"
proof -
  have "length (arrange (rows db)) = length (rows db)" using assms(2) by (metis ordered_by_def size_mset)
  then show ?thesis using assms by (subst answer) auto
qed

lemma pages_partition:
  assumes av: "available db" and arr: "\<And>i. ordered_by score (arrange i)" and d: "distinct (map score (rows db))"
    and l: "1 \<le> l" "l \<le> PAGINATION_LIMIT_MAX" and k: "int k * l \<le> 2 ^ 63"
  shows "\<exists>pages. (\<forall>i<k. request (arrange i) (Some l) (Some (int i * l)) db = Inr (pages i))
    \<and> concat (map pages [0..<k]) = take (k * nat l) (sort_key (\<lambda>r. - score r) (rows db))"
proof (intro exI conjI allI impI)
  let ?s = "sort_key (\<lambda>r. - score r) (rows db)"
  fix i
  assume "i < k"
  then have "int i * l < int k * l" using l(1) by simp
  then have "int i * l < 2 ^ 63" using k by linarith
  then have "request (arrange i) (Some l) (Some (int i * l)) db = Inr (take (nat l) (drop (nat (int i * l)) (arrange i (rows db))))"
    using av l k by (intro answer) auto
  then show "request (arrange i) (Some l) (Some (int i * l)) db = Inr (take (nat l) (drop (i * nat l) ?s))"
    using l(1) by (simp add: ordered_by_unique [OF arr d] nat_mult_distrib)
next
  show "concat (map (\<lambda>i. take (nat l) (drop (i * nat l) (sort_key (\<lambda>r. - score r) (rows db)))) [0..<k]) =
      take (k * nat l) (sort_key (\<lambda>r. - score r) (rows db))"
  proof (induction k)
    case (Suc k)
    then show ?case using take_add [of "k * nat l" "nat l" "sort_key (\<lambda>r. - score r) (rows db)"] by (simp add: add.commute)
  qed simp
qed

text \<open>Two rows with the same score may change places between two queries.\<close>

lemma ties_repeat:
  assumes "available db" and "rows db = [a, b]" and "score a = score b"
  shows "\<exists>arrange arrange'. ordered_by score arrange \<and> ordered_by score arrange'
    \<and> request arrange (Some 1) (Some 0) db = Inr [a] \<and> request arrange' (Some 1) (Some 1) db = Inr [a]"
proof (intro exI conjI)
  let ?f = "sort_key (\<lambda>r. - score r)"
  let ?g = "\<lambda>xs. if xs = rows db then [b, a] else ?f xs"
  show f: "ordered_by score ?f" by (rule ordered_by_sort_key)
  then show "ordered_by score ?g" using assms by (auto simp: ordered_by_def)
  have "?f (rows db) = rows db" using assms by simp
  then show "request ?f (Some 1) (Some 0) db = Inr [a]"
    using assms by (subst answer) (simp_all add: PAGINATION_LIMIT_MAX_def)
  show "request ?g (Some 1) (Some 1) db = Inr [a]"
    using assms by (subst answer) (simp_all add: PAGINATION_LIMIT_MAX_def)
qed

end

lemma in_range: "1 \<le> l \<Longrightarrow> l \<le> PAGINATION_LIMIT_MAX \<Longrightarrow> query_limit (Some l) = Inr l" "0 \<le> n \<Longrightarrow> query_offset (Some n) = Inr n"
  by (simp_all add: query_limit_def query_offset_def)

lemma ensured:
  "u \<in> set (mr_agents db) \<Longrightarrow> ensure_agent_exists u db = Inr ()"
  "find_post p db \<noteq> None \<Longrightarrow> ensure_post_exists p db = Inr ()"
  by (auto simp: ensure_agent_exists_def ensure_post_exists_def ensure_exists_def find_agent_def)

interpretation users: ranked_listing
  "\<lambda>arrange limit off. get_ranked_users pg arrange u board limit off" "rating pg board u" "\<lambda>db. u \<in> set (mr_agents db)"
  ms_src_score for pg u board
  by unfold_locales (simp add: get_ranked_users_def in_range ensured get_user_ranking_def)

interpretation posts: ranked_listing
  "\<lambda>arrange limit off. get_ranked_posts pg arrange u board limit off" "my_field pg board u" "\<lambda>db. u \<in> set (mr_agents db)"
  ms_src_score for pg u board
  by unfold_locales (simp add: get_ranked_posts_def in_range ensured get_post_ranking_def)

interpretation comments: ranked_listing
  "\<lambda>arrange limit off. get_ranked_comments pg arrange u p board limit off" "comment_rows pg p board u"
  "\<lambda>db. u \<in> set (mr_agents db) \<and> find_post p db \<noteq> None" ck_src_score for pg u p board
  by unfold_locales (simp add: get_ranked_comments_def in_range ensured get_comment_ranking_def)

text \<open>C31: when no two users have the same score, the pages of a ranking, each from its own query, are the
  ranking by descending score cut into pieces: no user is shown twice or left out.\<close>

theorem ranked_pages_partition:
  assumes "u \<in> set (mr_agents db)" and "\<And>i. ordered_by ms_src_score (arrange i)"
    and "distinct (map ms_src_score (rating pg board u db))"
    and "1 \<le> l" and "l \<le> 200" and "int k * l \<le> 2 ^ 63"
  shows "\<exists>pages. (\<forall>i<k. get_ranked_users pg (arrange i) u board (Some l) (Some (int i * l)) db = Inr (pages i))
    \<and> concat (map pages [0..<k]) = take (k * nat l) (sort_key (\<lambda>r. - ms_src_score r) (rating pg board u db))"
  using assms by (intro users.pages_partition) (simp_all add: PAGINATION_LIMIT_MAX_def)

definition ex_pgmer :: pgmer where
  "ex_pgmer = \<lparr>mr_node_score = (\<lambda>_ s d _. case d of None \<Rightarrow> [] | Some d \<Rightarrow> [\<lparr>ns_src = s, ns_dst = d, score_cluster_of_src = 5, score_cluster_of_dst = 1\<rparr>]),
     mr_mutual_scores = (\<lambda>_ s _. [\<lparr>ns_src = s, ns_dst = ''U1'', score_cluster_of_src = 3, score_cluster_of_dst = 1\<rparr>,
       \<lparr>ns_src = s, ns_dst = ''U2'', score_cluster_of_src = 7, score_cluster_of_dst = 2\<rparr>]),
     mr_scores = (\<lambda>_ s _ _ _ _ _ _ _ _ n. replicate (nat n) \<lparr>ns_src = s, ns_dst = ''B3'', score_cluster_of_src = 4, score_cluster_of_dst = 4\<rparr>)\<rparr>"

lemma ex_agents: "set (mr_agents (ex_state 8)) = {''1'', ''2''}"
  by (simp add: ex_state_def ex_statements_def merit_exec)

theorem ranked_pages_partition_witness:
  "\<exists>pages. (\<forall>i<2. get_ranked_users ex_pgmer (sort_key (\<lambda>r. - ms_src_score r)) ''1'' [] (Some 1) (Some (int i * 1)) (ex_state 8) = Inr (pages i))
    \<and> concat (map pages [0..<2]) =
      take (2 * nat 1) (sort_key (\<lambda>r. - ms_src_score r) (rating ex_pgmer [] ''1'' (ex_state 8)))"
  by (rule ranked_pages_partition) (simp_all add: ex_agents ordered_by_sort_key rating_def ex_pgmer_def mutual_score_def)

text \<open>With a tie they need not be: the order of rows with the same score may differ between two queries,
  and then the second page repeats a comment of the first and another comment is on no page.\<close>

theorem tied_comments_repeat:
  assumes "u \<in> set (mr_agents db)" and "find_post p db \<noteq> None"
    and "comment_rows pg p board u db = [a, b]" and "ck_src_score a = ck_src_score b"
  shows "\<exists>arrange arrange'. ordered_by ck_src_score arrange \<and> ordered_by ck_src_score arrange'
    \<and> get_ranked_comments pg arrange u p board (Some 1) (Some 0) db = Inr [a]
    \<and> get_ranked_comments pg arrange' u p board (Some 1) (Some 1) db = Inr [a]"
  using assms by (intro comments.ties_repeat) auto

theorem tied_comments_repeat_witness:
  "\<exists>arrange arrange'. ordered_by ck_src_score arrange \<and> ordered_by ck_src_score arrange'
    \<and> get_ranked_comments ex_pgmer arrange ''1'' ''3'' [] (Some 1) (Some 0) (ex_state 7) = Inr [\<lparr>ck_id = ''4'', ck_src_score = 5, ck_dst_score = 1\<rparr>]
    \<and> get_ranked_comments ex_pgmer arrange' ''1'' ''3'' [] (Some 1) (Some 1) (ex_state 7) = Inr [\<lparr>ck_id = ''4'', ck_src_score = 5, ck_dst_score = 1\<rparr>]"
  by (rule tied_comments_repeat [where b = "\<lparr>ck_id = ''5'', ck_src_score = 5, ck_dst_score = 1\<rparr>"])
     (simp_all add: ex_state_def ex_statements_def merit_exec comment_rows_def comment_get_scores_def ex_pgmer_def mutual_score_def)

text \<open>No page of the post ranking reaches past the hundredth post, whatever the offset: \<open>my_field\<close> asks the
  extension for at most a hundred.\<close>

theorem ranked_posts_capped:
  assumes "u \<in> set (mr_agents db)" and "ordered_by ms_src_score arrange"
    and "\<And>calls src hide ctx kind lt lte gt gte index count.
      int (length (mr_scores pg calls src hide ctx kind lt lte gt gte index count)) \<le> max 0 count"
    and "1 \<le> l" and "l \<le> 200" and "100 \<le> off" and "off < 2 ^ 63"
  shows "get_ranked_posts pg arrange u board (Some l) (Some off) db = Inr []"
proof -
  have "int (length (my_field pg board u db)) \<le> max 0 100" unfolding my_field_def length_map by (rule assms(3))
  then show ?thesis
    using assms by (intro posts.beyond_the_rows) (simp_all add: PAGINATION_LIMIT_MAX_def)
qed

theorem ranked_posts_capped_witness:
  "get_ranked_posts ex_pgmer (sort_key (\<lambda>r. - ms_src_score r)) ''1'' [] (Some 50) (Some 100) (ex_state 8) = Inr []"
  by (rule ranked_posts_capped) (simp_all add: ex_agents ordered_by_sort_key ex_pgmer_def)

section \<open>Who may change which subscription\<close>

lemma get_current_agent_state: "snd (get_current_agent lib settings now authorization db) = db"
  by (auto simp: get_current_agent_def Let_def split: option.split sum.split json.split)

text \<open>What a subscription statement leaves alone.\<close>

definition other_subscriptions :: "string \<Rightarrow> mr_db \<Rightarrow> Subscribe list" where
  "other_subscriptions u db = filter (\<lambda>s. sb_subject s \<noteq> u) (mr_subscribe db)"

lemma map_replace_other:
  "\<lbrakk>sb_subject s = u\<rbrakk> \<Longrightarrow> filter (\<lambda>s. sb_subject s \<noteq> u) (map (\<lambda>r. if same_pair u v r then s else r) xs) = filter (\<lambda>s. sb_subject s \<noteq> u) xs"
  by (induction xs) (auto simp: same_pair_def)

lemma upsert_subscribe_other: "other_subscriptions u (snd (upsert_subscribe u v k db)) = other_subscriptions u db"
  unfolding upsert_subscribe_def ticker_triggers bump_vsids_def Let_def other_subscriptions_def
  by (simp add: map_replace_other split: option.split)

lemma delete_subscribe_other: "other_subscriptions u (delete_subscribe u v db) = other_subscriptions u db"
  by (auto simp: delete_subscribe_def other_subscriptions_def same_pair_def intro!: filter_cong split: option.split)

lemma agent_subscription_other:
  "other_subscriptions (ag_mb_agent_id agent) (snd (agent_subscription body agent db)) = other_subscriptions (ag_mb_agent_id agent) db"
  using upsert_subscribe_other [of "ag_mb_agent_id agent" "target_user_id body" 1 db]
  by (auto simp: agent_subscription_def delete_subscribe_other bind_act_def
      split: subscription_action.split prod.splits sum.splits)

lemma subscription_request_cases:
  "subscription_request True lib settings now authorization body db =
    (case fst (get_current_agent lib settings now authorization (ad_mm db)) of
       Inl e \<Rightarrow> (Inl e, db)
     | Inr agent \<Rightarrow>
         (case agent_subscription body agent (ad_mr db) of
            (Inl e, _) \<Rightarrow> (Inl e, db)
          | (Inr a, mr) \<Rightarrow> (Inr a, db\<lparr>ad_mr := mr\<rparr>)))"
  using get_current_agent_state [of lib settings now authorization "ad_mm db"]
  by (cases "get_current_agent lib settings now authorization (ad_mm db)")
     (auto simp: subscription_request_def get_db_session_def bind_act_def on_mm_def on_mr_def split: prod.split sum.split)

text \<open>A subscription request without a valid access token changes nothing and reports the error of the
  authentication; with one it changes no subscription but the token holder's, and no account.\<close>

theorem subscription_only_own:
  "case fst (get_current_agent lib settings now authorization (ad_mm db)) of
     Inl e \<Rightarrow> subscription_request True lib settings now authorization body db = (Inl e, db)
   | Inr agent \<Rightarrow>
       other_subscriptions (ag_mb_agent_id agent) (ad_mr (snd (subscription_request True lib settings now authorization body db)))
         = other_subscriptions (ag_mb_agent_id agent) (ad_mr db)
       \<and> ad_mm (snd (subscription_request True lib settings now authorization body db)) = ad_mm db"
proof (cases "fst (get_current_agent lib settings now authorization (ad_mm db))")
  case (Inl e)
  then show ?thesis by (simp add: subscription_request_cases)
next
  case (Inr agent)
  have "other_subscriptions (ag_mb_agent_id agent) (snd (agent_subscription body agent (ad_mr db)))
      = other_subscriptions (ag_mb_agent_id agent) (ad_mr db)"
    by (rule agent_subscription_other)
  then show ?thesis
    using Inr by (cases "agent_subscription body agent (ad_mr db)") (auto simp: subscription_request_cases split: sum.split)
qed

text \<open>The rows and the graph after a request that went through.\<close>

lemma upsert_subscribe_find:
  assumes "u \<in> set (mr_agents db)" "v \<in> set (mr_agents db)" and k: "- 1 \<le> k" "k \<le> 1"
  obtains s where "fst (upsert_subscribe u v k db) = Inr ()" and "sb_amount s = k"
    and "\<And>x y. find (same_pair x y) (mr_subscribe (snd (upsert_subscribe u v k db))) =
      (if x = u \<and> y = v then Some s else find (same_pair x y) (mr_subscribe db))"
proof (cases "find (same_pair u v) (mr_subscribe db)")
  case None
  let ?s = "\<lparr>sb_subject = u, sb_object = v, sb_amount = k, sb_ticker = fst (bump_vsids u db)\<rparr>"
  have "find (same_pair x y) (mr_subscribe db @ [?s]) =
      (if x = u \<and> y = v then Some ?s else find (same_pair x y) (mr_subscribe db))" for x y
    using None by (auto simp: find_append same_pair_def split: option.split)
  then show ?thesis
    using that [of ?s] assms None by (simp add: upsert_subscribe_def bump_vsids_def Let_def)
next
  case (Some r)
  obtain t db1 where b1: "bump_vsids u db = (t, db1)" by force
  obtain t2 db2 where b2: "bump_vsids u db1 = (t2, db2)" by force
  have eqs: "mr_subscribe db1 = mr_subscribe db" "mr_subscribe db2 = mr_subscribe db"
    using bump_same [OF b1] bump_same [OF b2] by (simp_all add: same_tables_def)
  let ?s = "\<lparr>sb_subject = u, sb_object = v, sb_amount = k, sb_ticker = t2\<rparr>"
  have "\<exists>r\<in>set (mr_subscribe db). same_pair u v r" using Some by (auto simp: find_Some_iff)
  then have "find (same_pair x y) (map (\<lambda>r. if same_pair u v r then ?s else r) (mr_subscribe db)) =
      (if x = u \<and> y = v then Some ?s else find (same_pair x y) (mr_subscribe db))" for x y
    by (intro find_pair_map) (simp_all add: same_pair_def)
  then show ?thesis
    using that [of ?s] assms Some by (simp add: upsert_subscribe_def b1 b2 eqs Let_def)
qed

lemma delete_subscribe_find:
  "find (same_pair x y) (mr_subscribe (delete_subscribe u v db)) =
    (if x = u \<and> y = v then None else find (same_pair x y) (mr_subscribe db))"
  by (cases "find (same_pair u v) (mr_subscribe db)") (auto simp: delete_subscribe_def find_pair_filter)

lemma subscription_tables:
  "mr_posts (snd (upsert_subscribe u v k db)) = mr_posts db" "mr_comments (snd (upsert_subscribe u v k db)) = mr_comments db"
  "mr_submolts (snd (upsert_subscribe u v k db)) = mr_submolts db"
  "mr_posts (delete_subscribe u v db) = mr_posts db" "mr_comments (delete_subscribe u v db) = mr_comments db"
  "mr_submolts (delete_subscribe u v db) = mr_submolts db"
  by (simp_all add: upsert_subscribe_def delete_subscribe_def bump_vsids_def Let_def split: option.split)

text \<open>The weight of the edge that a request asks for, and what it does to the amounts of the subscriptions.\<close>

fun wanted :: "subscription_action \<Rightarrow> rat option" where
  "wanted Follow = Some 1"
| "wanted Unfollow = None"

definition amounts :: "mr_db \<Rightarrow> string \<Rightarrow> string \<Rightarrow> rat option" where
  "amounts db x y = map_option (\<lambda>s. of_int (sb_amount s)) (find (same_pair x y) (mr_subscribe db))"

lemma same_pair_ends: "find (same_pair u v) xs = Some s \<Longrightarrow> sb_subject s = u \<and> sb_object s = v"
  by (auto simp: find_Some_iff same_pair_def)

lemma upsert_subscribe_edge:
  assumes "u \<in> set (mr_agents db)" "v \<in> set (mr_agents db)"
  shows "edges_of (mr_trace (snd (upsert_subscribe u v 1 db)))
    = (edges_of (mr_trace db))((mm_pgmer_prefix ''U'' u, mm_pgmer_prefix ''U'' v, []) := Some 1)"
  using assms
  by (simp add: upsert_subscribe_def bump_vsids_def subscribe_put_def emit_def edges_of_append Let_def split: option.split)

lemma delete_subscribe_edge:
  "edges_of (mr_trace (delete_subscribe u v db)) =
    (if find (same_pair u v) (mr_subscribe db) = None then edges_of (mr_trace db)
     else (edges_of (mr_trace db))((mm_pgmer_prefix ''U'' u, mm_pgmer_prefix ''U'' v, []) := None))"
  by (auto simp: delete_subscribe_def subscribe_deleted_def emit_def edges_of_append same_pair_ends)

text \<open>C30: what a subscription request does, with a valid access token, in any state of the database. A follow by or of
  somebody the crawler has not seen fails on the foreign key and changes nothing. Every other request is answered with
  its action; it sets the amount of the one subscription from the agent to its target, to 1 or to none, leaves every
  other subscription and all accounts, and sends one edge of the graph, from the agent to its target, of weight 1 or
  gone; only an unfollow of somebody who is not followed sends nothing.\<close>

theorem subscription_moves_one_edge:
  assumes "fst (get_current_agent lib settings now authorization (ad_mm db)) = Inr agent"
  shows "let u = ag_mb_agent_id agent; v = target_user_id body; a = sub_action body; mr = ad_mr db;
      (r, db') = subscription_request True lib settings now authorization body db
    in if a = Follow \<and> (u \<notin> set (mr_agents mr) \<or> v \<notin> set (mr_agents mr))
       then r = Inl (IntegrityError ''foreign key'') \<and> db' = db
       else r = Inr a \<and> ad_mm db' = ad_mm db
         \<and> amounts (ad_mr db') = (\<lambda>x y. if x = u \<and> y = v then wanted a else amounts mr x y)
         \<and> edges_of (mr_trace (ad_mr db')) =
             (if a = Unfollow \<and> amounts mr u v = None then edges_of (mr_trace mr)
              else (edges_of (mr_trace mr))((mm_pgmer_prefix ''U'' u, mm_pgmer_prefix ''U'' v, []) := wanted a))"
proof (cases "sub_action body")
  case Follow
  let ?u = "ag_mb_agent_id agent" and ?v = "target_user_id body"
  show ?thesis
  proof (cases "?u \<in> set (mr_agents (ad_mr db)) \<and> ?v \<in> set (mr_agents (ad_mr db))")
    case False
    then show ?thesis
      using Follow assms
      by (auto simp: subscription_request_cases agent_subscription_def upsert_subscribe_def bind_act_def)
  next
    case True
    obtain s where ok: "fst (upsert_subscribe ?u ?v 1 (ad_mr db)) = Inr ()" and s: "sb_amount s = 1"
      and rows: "\<And>x y. find (same_pair x y) (mr_subscribe (snd (upsert_subscribe ?u ?v 1 (ad_mr db)))) =
        (if x = ?u \<and> y = ?v then Some s else find (same_pair x y) (mr_subscribe (ad_mr db)))"
      using True by (auto elim: upsert_subscribe_find [where u = ?u and v = ?v and k = 1])
    have run: "subscription_request True lib settings now authorization body db =
        (Inr Follow, db\<lparr>ad_mr := snd (upsert_subscribe ?u ?v 1 (ad_mr db))\<rparr>)"
      using ok Follow assms
      by (cases "upsert_subscribe ?u ?v 1 (ad_mr db)") (simp add: subscription_request_cases agent_subscription_def bind_act_def)
    show ?thesis
      using True upsert_subscribe_edge [of ?u "ad_mr db" ?v] s by (simp add: run Follow amounts_def rows fun_eq_iff)
  qed
next
  case Unfollow
  let ?mr = "delete_subscribe (ag_mb_agent_id agent) (target_user_id body) (ad_mr db)"
  have run: "subscription_request True lib settings now authorization body db = (Inr Unfollow, db\<lparr>ad_mr := ?mr\<rparr>)"
    using Unfollow assms by (simp add: subscription_request_cases agent_subscription_def)
  show ?thesis
    by (simp add: run Unfollow amounts_def delete_subscribe_find delete_subscribe_edge fun_eq_iff)
qed

text \<open>The agent of the examples logged in as the second user of the example database.\<close>

definition ex_follower :: MmAgent where
  "ex_follower = ex_agent\<lparr>ag_mb_agent_id := ''2''\<rparr>"

definition ex_app :: "nat \<Rightarrow> app_db" where
  "ex_app n = \<lparr>ad_mm = (ex_db [])\<lparr>mm_agents := [ex_follower]\<rparr>, ad_mr = ex_state n\<rparr>"

definition ex_follower_jwt :: jwt_lib where
  "ex_follower_jwt = ex_jwt_lib (access_payload ex_settings 100 3 ex_follower) 100 1000"

lemma ex_follower_logged_in:
  "fst (get_current_agent ex_follower_jwt ex_settings 500 (Some (''Bearer '' @ ''T'')) (ad_mm (ex_app n))) = Inr ex_follower"
proof -
  have acc: "jwt_documented ex_follower_jwt ''k1'' ''priv'' ''pub'' (access_payload ex_settings 100 3 ex_follower) 100
      (100 + of_int (mm_access_ttl_seconds ex_settings))"
    unfolding ex_follower_jwt_def using ex_jwt_documented [of "access_payload ex_settings 100 3 ex_follower" 100 1000]
    by (simp add: ex_settings_def default_settings_def)
  have "get_agent (ag_id ex_follower) (ad_mm (ex_app n)) = Some ex_follower" by (simp add: get_agent_def ex_app_def)
  from created_token_authenticates [OF _ _ _ acc _ this, where ks = "[]" and tok = "''T''" and t = 500]
  show ?thesis
    by (simp add: ex_follower_jwt_def ex_settings_def default_settings_def create_access_token_def ex_jwt_lib_def)
qed

theorem subscription_moves_one_edge_witness:
  "\<exists>db'. subscription_request True ex_follower_jwt ex_settings 500 (Some (''Bearer '' @ ''T''))
        \<lparr>target_user_id = ''1'', sub_action = Follow, idempotency_key = []\<rparr> (ex_app 8) = (Inr Follow, db')
    \<and> edges_of (mr_trace (ad_mr db')) (''U2'', ''U1'', []) = Some 1 \<and> amounts (ad_mr db') ''2'' ''1'' = Some 1"
proof -
  let ?body = "\<lparr>target_user_id = ''1'', sub_action = Follow, idempotency_key = []\<rparr>"
  obtain r db' where run: "subscription_request True ex_follower_jwt ex_settings 500 (Some (''Bearer '' @ ''T'')) ?body (ex_app 8) = (r, db')"
    by force
  have known: "''1'' \<in> set (mr_agents (ad_mr (ex_app 8)))" "''2'' \<in> set (mr_agents (ad_mr (ex_app 8)))"
    by (simp_all add: ex_app_def ex_agents)
  have "r = Inr Follow \<and> edges_of (mr_trace (ad_mr db')) (''U2'', ''U1'', []) = Some 1 \<and> amounts (ad_mr db') ''2'' ''1'' = Some 1"
    using subscription_moves_one_edge [OF ex_follower_logged_in [of 8], where body = ?body] known
    by (simp add: run [simplified] ex_follower_def mm_pgmer_prefix_def Let_def)
  then show ?thesis using run by blast
qed

text \<open>An agent the crawler has not seen, or a target it has not seen, makes a follow request fail on a foreign
  key: an unhandled exception, not an answer of the API, and nothing is stored.\<close>

theorem follow_unknown_agent_fails:
  assumes "fst (get_current_agent lib settings now authorization (ad_mm db)) = Inr agent"
    and "sub_action body = Follow"
    and "ag_mb_agent_id agent \<notin> set (mr_agents (ad_mr db)) \<or> target_user_id body \<notin> set (mr_agents (ad_mr db))"
  shows "subscription_request True lib settings now authorization body db = (Inl (IntegrityError ''foreign key''), db)"
  using assms by (auto simp: subscription_request_cases agent_subscription_def upsert_subscribe_def bind_act_def)

theorem follow_unknown_agent_fails_witness:
  "subscription_request True ex_follower_jwt ex_settings 500 (Some (''Bearer '' @ ''T''))
     \<lparr>target_user_id = ''7'', sub_action = Follow, idempotency_key = []\<rparr> (ex_app 8) = (Inl (IntegrityError ''foreign key''), ex_app 8)"
  by (rule follow_unknown_agent_fails [OF ex_follower_logged_in]) (simp_all add: ex_app_def ex_agents)

end
