(* ===== verification/InitDb.thy ===== *)
theory InitDb
  imports SqlSingle Config MeritSteps Retry
begin

text \<open>
  Starting the database of the server: \<open>init_db\<close> and the background load of the graph, of
  \<open>meritmolt/database.py\<close>. The driver's execution of one statement on a connection is a parameter, as are the texts of the
  statements and \<open>create_all\<close>, and so are the text of an exception and of its cause.
\<close>

section \<open>Schema\<close>

definition exec_sql_batch :: "(string \<Rightarrow> ('c, unit) action) \<Rightarrow> string \<Rightarrow> ('c, unit) action" where
  "exec_sql_batch exec_driver_sql sql = for_each (split_sql_statements sql) exec_driver_sql"

definition is_sqlite :: "string \<Rightarrow> bool" where
  "is_sqlite url = py_in ''sqlite'' url"

text \<open>\<open>async with engine.begin()\<close>: commit, or roll back when the block raises.\<close>

definition transaction :: "('c, 'a) action \<Rightarrow> ('c, 'a) action" where
  "transaction block c = (case block c of (Inr x, c') \<Rightarrow> (Inr x, c') | (Inl e, _) \<Rightarrow> (Inl e, c))"

record ddl_texts =
  EXTENSION_SQL :: string
  PGMER_HELPERS_SQL :: string
  TYPES_SQL :: string
  TRIGGER_FUNCTIONS_SQL :: string
  TRIGGERS_SQL :: string
  WRAPPER_FUNCTIONS_SQL :: string

record 'c driver =
  dr_exec :: "string \<Rightarrow> ('c, unit) action"
  dr_textlake_create_all :: "('c, unit) action"
  dr_base_create_all :: "('c, unit) action"

definition init_db_lite :: "'c driver \<Rightarrow> ('c, unit) action" where
  "init_db_lite dr = transaction (dr_base_create_all dr)"

definition init_db_postgres :: "'c driver \<Rightarrow> ddl_texts \<Rightarrow> ('c, unit) action" where
  "init_db_postgres dr texts = transaction
     (bind_act (exec_sql_batch (dr_exec dr) (EXTENSION_SQL texts)) (\<lambda>_.
      bind_act (dr_textlake_create_all dr) (\<lambda>_.
      bind_act (exec_sql_batch (dr_exec dr) (PGMER_HELPERS_SQL texts)) (\<lambda>_.
      bind_act (exec_sql_batch (dr_exec dr) (TYPES_SQL texts)) (\<lambda>_.
      bind_act (exec_sql_batch (dr_exec dr) (TRIGGER_FUNCTIONS_SQL texts)) (\<lambda>_.
      bind_act (exec_sql_batch (dr_exec dr) (TRIGGERS_SQL texts)) (\<lambda>_.
      bind_act (exec_sql_batch (dr_exec dr) (WRAPPER_FUNCTIONS_SQL texts)) (\<lambda>_.
      dr_base_create_all dr))))))))"

text \<open>The module's \<open>engine\<close> is set before anything can fail.\<close>

record 'c db_module =
  dm_engine :: bool
  dm_db :: 'c

definition init_db :: "'c driver \<Rightarrow> ddl_texts \<Rightarrow> Settings \<Rightarrow> ('c db_module, unit) action" where
  "init_db dr texts settings m =
     (case (if is_sqlite (database_url settings) then init_db_lite dr else init_db_postgres dr texts) (dm_db m) of
        (r, c) \<Rightarrow> (r, m\<lparr>dm_engine := True, dm_db := c\<rparr>))"

section \<open>Loading the graph\<close>

definition MERITRANK_INIT_MAX_RETRIES :: nat where "MERITRANK_INIT_MAX_RETRIES = 5"
definition MERITRANK_INIT_INITIAL_DELAY_SEC :: seconds where "MERITRANK_INIT_INITIAL_DELAY_SEC = 1"
definition MERITRANK_INIT_MAX_DELAY_SEC :: seconds where "MERITRANK_INIT_MAX_DELAY_SEC = 30"
definition MERITRANK_INIT_RETRYABLE_MESSAGE :: string where "MERITRANK_INIT_RETRYABLE_MESSAGE = ''Try again''"

record exn_text =
  str_of :: "py_exn \<Rightarrow> string"
  str_of_cause :: "py_exn \<Rightarrow> string option"

definition is_meritrank_retryable :: "exn_text \<Rightarrow> py_exn \<Rightarrow> bool" where
  "is_meritrank_retryable tx e =
     (if py_in MERITRANK_INIT_RETRYABLE_MESSAGE (str_of tx e) then True
      else case str_of_cause tx e of None \<Rightarrow> False | Some cause \<Rightarrow> py_in MERITRANK_INIT_RETRYABLE_MESSAGE cause)"

definition is_dbapi_error :: "py_exn \<Rightarrow> bool" where
  "is_dbapi_error e = (case e of DBAPIError _ \<Rightarrow> True | IntegrityError _ \<Rightarrow> True | DataError _ \<Rightarrow> True | _ \<Rightarrow> False)"

definition init_again :: "exn_text \<Rightarrow> py_exn \<Rightarrow> bool" where
  "init_again tx e \<longleftrightarrow> is_dbapi_error e \<and> is_meritrank_retryable tx e"

text \<open>
  The loop, with the number of attempts left after this one and the delay. The last component collects the
  arguments of \<open>asyncio.sleep\<close>.
\<close>

fun meritrank_init_loop ::
  "exn_text \<Rightarrow> ('c, unit) action \<Rightarrow> nat \<Rightarrow> seconds \<Rightarrow> 'c \<Rightarrow> (unit result \<times> 'c) \<times> seconds list" where
  "meritrank_init_loop tx execute 0 delay c = (execute c, [])"
| "meritrank_init_loop tx execute (Suc left) delay c =
     (case execute c of
        (Inr x, c') \<Rightarrow> ((Inr x, c'), [])
      | (Inl e, c') \<Rightarrow>
          if init_again tx e
          then (case meritrank_init_loop tx execute left (min (delay * 2) MERITRANK_INIT_MAX_DELAY_SEC) c' of
                  (r, slept) \<Rightarrow> (r, delay # slept))
          else ((Inl e, c'), []))"

definition meritrank_init_with_retry ::
  "exn_text \<Rightarrow> ('c, unit) action \<Rightarrow> 'c \<Rightarrow> (unit result \<times> 'c) \<times> seconds list" where
  "meritrank_init_with_retry tx execute =
     meritrank_init_loop tx execute (MERITRANK_INIT_MAX_RETRIES - 1) MERITRANK_INIT_INITIAL_DELAY_SEC"

text \<open>
  \<open>run_meritrank_init_background\<close>: without an engine it logs and returns. The exception of the block leaves it,
  a cancellation as well as any other.
\<close>

definition run_meritrank_init_background :: "exn_text \<Rightarrow> ('c, unit) action \<Rightarrow> ('c db_module, unit) action" where
  "run_meritrank_init_background tx execute m =
     (if \<not> dm_engine m then (Inr (), m)
      else case transaction (\<lambda>c. fst (meritrank_init_with_retry tx execute c)) (dm_db m) of
             (r, c) \<Rightarrow> (r, m\<lparr>dm_db := c\<rparr>))"

section \<open>Statements run one by one\<close>

lemma for_each_prefix:
  "\<exists>ran todo. xs = ran @ todo
    \<and> snd (for_each xs f c) = fold (\<lambda>x c. snd (f x c)) ran c
    \<and> (fst (for_each xs f c) = Inr () \<and> todo = []
       \<or> (\<exists>before x e. ran = before @ [x] \<and> fst (f x (fold (\<lambda>x c. snd (f x c)) before c)) = Inl e
            \<and> fst (for_each xs f c) = Inl e))"
proof (induction xs arbitrary: c)
  case (Cons x xs)
  obtain r c' where run: "f x c = (r, c')" by force
  show ?case
  proof (cases r)
    case (Inl e)
    then show ?thesis
      using run by (intro exI [of _ "[x]"] exI [of _ xs]) (auto simp: bind_act_def intro: exI [of _ "[]"])
  next
    case (Inr y)
    obtain ran todo where ih: "xs = ran @ todo" "snd (for_each xs f c') = fold (\<lambda>x c. snd (f x c)) ran c'"
      "fst (for_each xs f c') = Inr () \<and> todo = []
       \<or> (\<exists>before x e. ran = before @ [x] \<and> fst (f x (fold (\<lambda>x c. snd (f x c)) before c')) = Inl e
            \<and> fst (for_each xs f c') = Inl e)"
      using Cons.IH [of c'] by blast
    have step: "for_each (x # xs) f c = for_each xs f c'" using run Inr by (simp add: bind_act_def)
    have fold: "fold (\<lambda>x c. snd (f x c)) (x # ys) c = fold (\<lambda>x c. snd (f x c)) ys c'" for ys using run by simp
    from ih(3) show ?thesis
    proof (elim disjE exE conjE)
      assume "fst (for_each xs f c') = Inr ()" "todo = []"
      then show ?thesis
        unfolding step using ih(1,2) fold by (intro exI [of _ "x # ran"] exI [of _ "[]"]) simp
    next
      fix before y e
      assume "ran = before @ [y]" "fst (f y (fold (\<lambda>x c. snd (f x c)) before c')) = Inl e"
        "fst (for_each xs f c') = Inl e"
      then show ?thesis
        unfolding step using ih(1,2) fold [of ran] fold [of before]
        by (intro exI [of _ "x # ran"] exI [of _ todo]) (auto intro!: exI [of _ "x # before"])
    qed
  qed
qed simp

text \<open>A batch of DDL sends the database single statements only, in their order, each one after the one
  before it succeeded, and stops at the first that fails, with its error.\<close>

theorem exec_sql_batch_prefix:
  "\<exists>sent rest. split_sql_statements sql = sent @ rest
    \<and> map split_sql_statements sent = map (\<lambda>s. [s]) sent
    \<and> snd (exec_sql_batch exec sql c) = fold (\<lambda>s c. snd (exec s c)) sent c
    \<and> (fst (exec_sql_batch exec sql c) = Inr () \<and> rest = []
       \<or> (\<exists>before s e. sent = before @ [s] \<and> fst (exec s (fold (\<lambda>s c. snd (exec s c)) before c)) = Inl e
            \<and> fst (exec_sql_batch exec sql c) = Inl e))"
proof -
  have single: "map split_sql_statements sent = map (\<lambda>s. [s]) sent" if "split_sql_statements sql = sent @ rest" for sent rest
    using split_again [of _ sql] that by simp
  obtain sent rest where sent: "split_sql_statements sql = sent @ rest"
    and run: "snd (exec_sql_batch exec sql c) = fold (\<lambda>s c. snd (exec s c)) sent c"
      "fst (exec_sql_batch exec sql c) = Inr () \<and> rest = []
       \<or> (\<exists>before s e. sent = before @ [s] \<and> fst (exec s (fold (\<lambda>s c. snd (exec s c)) before c)) = Inl e
            \<and> fst (exec_sql_batch exec sql c) = Inl e)"
    using for_each_prefix [of "split_sql_statements sql" exec c] unfolding exec_sql_batch_def by blast
  show ?thesis using sent single [OF sent] run by (intro exI [of _ sent] exI [of _ rest]) simp
qed

section \<open>Retrying in a transaction\<close>

text \<open>The connection after \<open>n\<close> executions.\<close>

definition after :: "('c, 'a) action \<Rightarrow> nat \<Rightarrow> 'c \<Rightarrow> 'c" where
  "after execute n = (\<lambda>c. snd (execute c)) ^^ n"

lemma after_simps: "after execute 0 c = c" "after execute (Suc n) c = after execute n (snd (execute c))"
  by (simp_all add: after_def funpow_Suc_right del: funpow.simps(2))

lemma init_loop_runs:
  "\<exists>n\<le>left. length (snd (meritrank_init_loop tx execute left delay c)) = n
    \<and> fst (meritrank_init_loop tx execute left delay c) = execute (after execute n c)
    \<and> (\<forall>i<n. \<exists>e. fst (execute (after execute i c)) = Inl e \<and> init_again tx e)
    \<and> (n = left \<or> fst (execute (after execute n c)) = Inr ()
        \<or> (\<exists>e. fst (execute (after execute n c)) = Inl e \<and> \<not> init_again tx e))"
proof (induction left arbitrary: delay c)
  case 0
  then show ?case by (simp add: after_simps)
next
  case (Suc left)
  obtain r c' where run: "execute c = (r, c')" by force
  show ?case
  proof (cases "\<exists>e. r = Inl e \<and> init_again tx e")
    case True
    then obtain e where e: "r = Inl e" "init_again tx e" by blast
    obtain n where n: "n \<le> left"
      "length (snd (meritrank_init_loop tx execute left (min (delay * 2) MERITRANK_INIT_MAX_DELAY_SEC) c')) = n"
      "fst (meritrank_init_loop tx execute left (min (delay * 2) MERITRANK_INIT_MAX_DELAY_SEC) c') = execute (after execute n c')"
      "\<forall>i<n. \<exists>e. fst (execute (after execute i c')) = Inl e \<and> init_again tx e"
      "n = left \<or> fst (execute (after execute n c')) = Inr ()
        \<or> (\<exists>e. fst (execute (after execute n c')) = Inl e \<and> \<not> init_again tx e)"
      using Suc.IH by blast
    have "\<exists>e. fst (execute (after execute i c)) = Inl e \<and> init_again tx e" if "i < Suc n" for i
      using that n(4) run e by (cases i) (auto simp: after_simps)
    then show ?thesis
      using n run e by (intro exI [of _ "Suc n"]) (auto simp: after_simps split: prod.split)
  next
    case False
    then show ?thesis using run by (intro exI [of _ 0]) (auto simp: after_simps split: sum.split)
  qed
qed

lemma init_loop_slept:
  "snd (meritrank_init_loop tx execute left delay c) =
    take (length (snd (meritrank_init_loop tx execute left delay c)))
      (map (\<lambda>i. ((\<lambda>d. min (d * 2) MERITRANK_INIT_MAX_DELAY_SEC) ^^ i) delay) [0..<left])"
proof (induction left arbitrary: delay c)
  case (Suc left)
  have shift: "map (\<lambda>i. ((\<lambda>d. min (d * 2) MERITRANK_INIT_MAX_DELAY_SEC) ^^ i) delay) [0..<Suc left] =
      delay # map (\<lambda>i. ((\<lambda>d. min (d * 2) MERITRANK_INIT_MAX_DELAY_SEC) ^^ i) (min (delay * 2) MERITRANK_INIT_MAX_DELAY_SEC)) [0..<left]"
    by (simp add: map_upt_Suc funpow_Suc_right del: upt_Suc funpow.simps(2))
  show ?case
    unfolding shift using Suc.IH [of "min (delay * 2) MERITRANK_INIT_MAX_DELAY_SEC" "snd (execute c)"]
    by (cases "execute c") (auto split: prod.split sum.split)
qed simp

text \<open>C32: the load of the graph is tried between one and five times, pausing 1, 2, 4 and 8 seconds between the
  attempts; each attempt but the last failed with a database error that says to try again, and the
  outcome is that of the last, which succeeded, failed otherwise, or was the fifth.\<close>

theorem meritrank_init_terminates:
  "\<exists>n. n < 5 \<and> snd (meritrank_init_with_retry tx execute c) = take n [1, 2, 4, 8]
    \<and> fst (meritrank_init_with_retry tx execute c) = execute (after execute n c)
    \<and> list_all (\<lambda>i. case fst (execute (after execute i c)) of Inl e \<Rightarrow> init_again tx e | Inr _ \<Rightarrow> False) [0..<n]
    \<and> (n = 4 \<or> (case fst (execute (after execute n c)) of Inl e \<Rightarrow> \<not> init_again tx e | Inr _ \<Rightarrow> True))"
proof -
  obtain n where n: "n \<le> 4" "length (snd (meritrank_init_loop tx execute 4 1 c)) = n"
    "fst (meritrank_init_loop tx execute 4 1 c) = execute (after execute n c)"
    "\<forall>i<n. \<exists>e. fst (execute (after execute i c)) = Inl e \<and> init_again tx e"
    "n = 4 \<or> fst (execute (after execute n c)) = Inr ()
        \<or> (\<exists>e. fst (execute (after execute n c)) = Inl e \<and> \<not> init_again tx e)"
    using init_loop_runs [of 4 tx execute 1 c] by (elim exE conjE) (rule that)
  have slept: "snd (meritrank_init_loop tx execute 4 1 c) = take n [1, 2, 4, 8]"
  proof -
    have "[0..<4] = [0, Suc 0, Suc (Suc 0), Suc (Suc (Suc 0))]" by (simp add: eval_nat_numeral)
    then show ?thesis using init_loop_slept [of tx execute 4 1 c] unfolding n(2) by (simp add: MERITRANK_INIT_MAX_DELAY_SEC_def)
  qed
  have "list_all (\<lambda>i. case fst (execute (after execute i c)) of Inl e \<Rightarrow> init_again tx e | Inr _ \<Rightarrow> False) [0..<n]"
    using n(4) by (auto simp: list_all_iff)
  moreover have "n = 4 \<or> (case fst (execute (after execute n c)) of Inl e \<Rightarrow> \<not> init_again tx e | Inr _ \<Rightarrow> True)"
    using n(5) by (auto split: sum.split)
  moreover have "meritrank_init_with_retry tx execute c = meritrank_init_loop tx execute 4 1 c"
    by (simp add: meritrank_init_with_retry_def MERITRANK_INIT_MAX_RETRIES_def MERITRANK_INIT_INITIAL_DELAY_SEC_def
        del: meritrank_init_loop.simps)
  moreover have "n < 5" using n(1) by simp
  ultimately show ?thesis
    using n(3) slept by (intro exI [of _ n] conjI) (simp_all only:)
qed

text \<open>C40: but it never succeeds after a failure. In a PostgreSQL transaction a failed statement makes every
  later one fail, with an error that does not say to try again; so the second attempt fails for good,
  whether or not the service is ready by then, and the transaction is rolled back.\<close>

theorem retry_in_aborted_transaction_fails:
  assumes "dm_engine m"
    and "\<And>c e. fst (execute c) = Inl e \<Longrightarrow> fst (execute (snd (execute c))) = Inl aborted"
    and "\<not> init_again tx aborted"
    and "fst (execute (dm_db m)) = Inl e"
  shows "run_meritrank_init_background tx execute m = (Inl (if init_again tx e then aborted else e), m)
    \<and> snd (meritrank_init_with_retry tx execute (dm_db m)) = (if init_again tx e then [1] else [])"
proof -
  obtain c1 where first: "execute (dm_db m) = (Inl e, c1)" using assms(4) by (cases "execute (dm_db m)") simp
  obtain c2 where second: "execute c1 = (Inl aborted, c2)"
    using assms(2) [OF assms(4)] first by (cases "execute c1") simp
  have left: "MERITRANK_INIT_MAX_RETRIES - 1 = Suc (Suc (Suc (Suc 0)))" by (simp add: MERITRANK_INIT_MAX_RETRIES_def)
  have run: "meritrank_init_with_retry tx execute (dm_db m) =
      (if init_again tx e then ((Inl aborted, c2), [1]) else ((Inl e, c1), []))"
    unfolding meritrank_init_with_retry_def left
    by (simp add: first second assms(3) MERITRANK_INIT_INITIAL_DELAY_SEC_def)
  then show ?thesis
    using assms(1) by (simp add: run_meritrank_init_background_def transaction_def)
qed

text \<open>
  A connection to PostgreSQL with the graph service: the tables, whether the transaction is aborted, and
  what the service answers to the next calls, \<open>None\<close> for success.
\<close>

record pg_conn =
  pg_db :: mr_db
  pg_aborted :: bool
  pg_service :: "string option list"

definition exec_bulk_init :: "(pg_conn, unit) action" where
  "exec_bulk_init c =
     (if pg_aborted c
      then (Inl (DBAPIError ''current transaction is aborted, commands ignored until end of transaction block''), c)
      else case pg_service c of
             Some err # answers \<Rightarrow> (Inl (DBAPIError err), c\<lparr>pg_aborted := True, pg_service := answers\<rparr>)
           | None # answers \<Rightarrow> (Inr (), c\<lparr>pg_db := snd (meritrank_bulk_init 120000 (pg_db c)), pg_service := answers\<rparr>)
           | [] \<Rightarrow> (Inr (), c\<lparr>pg_db := snd (meritrank_bulk_init 120000 (pg_db c))\<rparr>))"

definition plain_text :: exn_text where
  "plain_text = \<lparr>str_of = (\<lambda>e. case e of DBAPIError s \<Rightarrow> s | _ \<Rightarrow> []), str_of_cause = (\<lambda>_. None)\<rparr>"

theorem retry_in_aborted_transaction_fails_witness:
  "fst (run_meritrank_init_background plain_text exec_bulk_init
      \<lparr>dm_engine = True, dm_db = \<lparr>pg_db = ex_state 8, pg_aborted = False, pg_service = [Some ''Try again'', None]\<rparr>\<rparr>)
    = Inl (DBAPIError ''current transaction is aborted, commands ignored until end of transaction block'')"
proof -
  let ?aborted = "DBAPIError ''current transaction is aborted, commands ignored until end of transaction block''"
  let ?m = "\<lparr>dm_engine = True, dm_db = \<lparr>pg_db = ex_state 8, pg_aborted = False, pg_service = [Some ''Try again'', None]\<rparr>\<rparr>"
  have ready: "dm_engine ?m" by simp
  have aborts: "fst (exec_bulk_init (snd (exec_bulk_init c))) = Inl ?aborted" if "fst (exec_bulk_init c) = Inl e" for c e
    using that by (auto simp: exec_bulk_init_def split: if_splits list.splits option.splits)
  have final: "\<not> init_again plain_text ?aborted" and first: "init_again plain_text (DBAPIError ''Try again'')"
    by code_simp+
  have failed: "fst (exec_bulk_init (dm_db ?m)) = Inl (DBAPIError ''Try again'')" by (simp add: exec_bulk_init_def)
  show ?thesis
    using retry_in_aborted_transaction_fails [OF ready aborts final failed] first by simp
qed

end
