(* ===== verification/App.thy ===== *)
theory App
  imports Backpressure InitDb Auth
begin

text \<open>
  The application of \<open>meritmolt/main.py\<close>: its start and end, its handler of exceptions, and its two middlewares
  around the routes, the backpressure outside of the rate limits. The routes are a parameter: a
  function from the connection scope to a run.
\<close>

section \<open>Start and end\<close>

text \<open>What \<open>lifespan\<close> does before it yields; the result says whether the graph is loaded in the background.\<close>

definition lifespan_startup :: "'c driver \<Rightarrow> ddl_texts \<Rightarrow> Settings \<Rightarrow> ('c db_module, bool) action" where
  "lifespan_startup dr texts settings =
     bind_act (init_db dr texts settings) (\<lambda>_.
       ret (mm_meritrank_init_on_startup settings \<and> \<not> py_in ''sqlite'' (database_url settings)))"

text \<open>And after: whether the task is cancelled, and whether the engine is disposed of.\<close>

definition lifespan_shutdown :: "bool option \<Rightarrow> 'c db_module \<Rightarrow> bool \<times> bool" where
  "lifespan_shutdown init_task_done m =
     (case init_task_done of None \<Rightarrow> False | Some finished \<Rightarrow> \<not> finished, dm_engine m)"

section \<open>Answers of the application itself\<close>

definition global_exception_handler :: "py_exn \<Rightarrow> int \<times> json" where
  "global_exception_handler e =
     (case e of
        HTTPException status detail \<Rightarrow> (status, JObj [(''detail'', JStr detail)])
      | _ \<Rightarrow> (500, JObj [(''detail'', JStr ''Internal server error'')]))"

definition health :: json where
  "health = JObj [(''status'', JStr ''ok'')]"

definition db_ping :: "(py_exn \<Rightarrow> string) \<Rightarrow> unit result \<Rightarrow> 'c db_module \<Rightarrow> json" where
  "db_ping str_exn select_1 m =
     (if \<not> dm_engine m
      then JObj [(''status'', JStr ''error''), (''db'', JBool False), (''message'', JStr ''Database not initialized'')]
      else case select_1 of
             Inr _ \<Rightarrow> JObj [(''status'', JStr ''ok''), (''db'', JBool True)]
           | Inl e \<Rightarrow> JObj [(''status'', JStr ''error''), (''db'', JBool False), (''message'', JStr (str_exn e))])"

text \<open>
  Starlette calls the handler for an exception that leaves the middlewares, when no response has begun, and
  raises the exception again. A cancellation is no \<open>Exception\<close>.
\<close>

definition starts_response :: "asgi_message \<Rightarrow> bool" where
  "starts_response msg = (case msg of ResponseStart _ _ \<Rightarrow> True | ResponseBody _ \<Rightarrow> False)"

definition handle_exception :: "call_outcome \<Rightarrow> call_outcome" where
  "handle_exception outcome = map_option (\<lambda>(sent, r). case r of
      None \<Rightarrow> (sent, None)
    | Some e \<Rightarrow>
        (if e = CancelledError \<or> list_ex starts_response sent then (sent, Some e)
         else case global_exception_handler e of
                (status, body) \<Rightarrow> (sent @ [ResponseStart status [(''content-type'', ''application/json'')], ResponseBody body], Some e)))
      outcome"

section \<open>The middlewares\<close>

record server =
  sv_guard :: ConcurrencyGuard
  sv_stores :: "RouteGroup \<rightharpoonup> BucketStore"

definition new_server :: "Settings \<Rightarrow> server" where
  "new_server settings = \<lparr>sv_guard = new_guard settings, sv_stores = build_stores settings\<rparr>"

text \<open>The run of the rate limiter: it decides at once.\<close>

fun limited_run :: "decision result \<Rightarrow> app_run \<Rightarrow> app_run" where
  "limited_run (Inl e) run = \<lparr>run_sends = [], run_end = Some (0, Some e)\<rparr>"
| "limited_run (Inr Forward) run = run"
| "limited_run (Inr (Respond msgs)) run = \<lparr>run_sends = map (Pair 0) msgs, run_end = Some (0, None)\<rparr>"

text \<open>The scope that reaches the inner middleware, and whether it does.\<close>

definition inner_scope :: "string \<Rightarrow> scope \<Rightarrow> scope" where
  "inner_scope fresh_uuid sc =
     (if sc_type sc = ''http'' then sc\<lparr>sc_request_id := Some (get_request_id_from_scope fresh_uuid sc)\<rparr> else sc)"

definition admitted :: "scope \<Rightarrow> ConcurrencyGuard \<Rightarrow> bool" where
  "admitted sc g \<longleftrightarrow> sc_type sc \<noteq> ''http'' \<or> fst (guard_try_acquire (classify (scope_path sc)) g)"

definition serve ::
  "jwt_lib \<Rightarrow> (json \<Rightarrow> string) \<Rightarrow> Settings \<Rightarrow> string \<Rightarrow> rl_clock \<Rightarrow> (scope \<Rightarrow> app_run) \<Rightarrow> scope
   \<Rightarrow> server \<Rightarrow> call_outcome \<times> server" where
  "serve lib rep settings fresh_uuid clk app sc sv =
     (let (decision, stores) = rate_limit_call lib rep settings clk (inner_scope fresh_uuid sc) (sv_stores sv);
          (outcome, guard) = backpressure_call settings fresh_uuid (\<lambda>sc'. limited_run decision (app sc')) sc (sv_guard sv)
      in (if sc_type sc = ''http'' then handle_exception outcome else outcome,
          \<lparr>sv_guard = guard, sv_stores = if admitted sc (sv_guard sv) then stores else sv_stores sv\<rparr>))"

section \<open>Refusals\<close>

lemma admitted_inner: "classify (scope_path (inner_scope fresh_uuid sc)) = classify (scope_path sc)"
  by (simp add: inner_scope_def)

lemma handle_return [simp]: "handle_exception (Some (sent, None)) = Some (sent, None)"
  by (simp add: handle_exception_def)

lemma overloaded_call:
  assumes "sc_type sc = ''http''" and "\<not> admitted sc g"
  shows "backpressure_call settings fresh_uuid app sc g =
    (Some (send_json_response 503 (overloaded_body (get_request_id_from_scope fresh_uuid sc)) 60, None), g)"
proof -
  have "fst (guard_try_acquire (classify (scope_path sc)) g) = False" using assms by (simp add: admitted_def)
  then obtain g1 where "guard_try_acquire (classify (scope_path sc)) g = (False, g1)"
    by (cases "guard_try_acquire (classify (scope_path sc)) g") simp
  with guard_refused_unchanged [OF this] show ?thesis using assms(1) by (simp add: backpressure_call_def)
qed

lemma admitted_call:
  assumes "sc_type sc = ''http''" and "admitted sc g"
  shows "fst (backpressure_call settings fresh_uuid app sc g) =
    (if classify (scope_path sc) = READS
     then run_with_deadline (mm_bp_request_deadline_seconds settings) (get_request_id_from_scope fresh_uuid sc)
            (app (inner_scope fresh_uuid sc))
     else run_to_end (app (inner_scope fresh_uuid sc)))"
proof -
  have "fst (guard_try_acquire (classify (scope_path sc)) g)" using assms by (simp add: admitted_def)
  then obtain g1 where "guard_try_acquire (classify (scope_path sc)) g = (True, g1)"
    by (cases "guard_try_acquire (classify (scope_path sc)) g") simp
  then show ?thesis using assms(1) by (simp add: backpressure_call_def Let_def inner_scope_def split: option.split)
qed

text \<open>C29: a refusal costs nothing at the other middleware: a request refused for overload is answered 503 and
  takes no token of its principal, and a request that is over its rate is answered 429 without running
  the application, and gives back its permits.\<close>

theorem refusals_are_free:
  assumes "sc_type sc = ''http''" and "0 < mm_bp_request_deadline_seconds settings"
  shows "if \<not> admitted sc (sv_guard sv)
    then serve lib rep settings fresh_uuid clk app sc sv =
      (Some (send_json_response 503 (overloaded_body (get_request_id_from_scope fresh_uuid sc)) 60, None), sv)
    else case rate_limit_call lib rep settings clk (inner_scope fresh_uuid sc) (sv_stores sv) of
        (Inr (Respond msgs), stores) \<Rightarrow>
          serve lib rep settings fresh_uuid clk app sc sv = (Some (msgs, None), sv\<lparr>sv_stores := stores\<rparr>)
      | _ \<Rightarrow> True"
proof (cases "admitted sc (sv_guard sv)")
  case False
  then show ?thesis
    using overloaded_call [OF assms(1) False] by (simp add: serve_def case_prod_unfold assms(1))
next
  case True
  obtain d stores where limit: "rate_limit_call lib rep settings clk (inner_scope fresh_uuid sc) (sv_stores sv) = (d, stores)"
    by force
  show ?thesis
  proof (cases "\<exists>msgs. d = Inr (Respond msgs)")
    case True
    then obtain msgs where d: "d = Inr (Respond msgs)" by blast
    let ?app = "\<lambda>sc'. limited_run d (app sc')"
    obtain out g' where run: "backpressure_call settings fresh_uuid ?app sc (sv_guard sv) = (out, g')" by force
    have "map snd (map (Pair (0 :: rat)) msgs) = msgs" by (simp add: o_def)
    then have out: "out = Some (msgs, None)"
      using admitted_call [OF assms(1) \<open>admitted sc (sv_guard sv)\<close>, of settings fresh_uuid ?app] assms(2) run d
      by (auto simp: run_with_deadline_def run_to_end_def split: if_splits)
    have "g' = sv_guard sv" using call_restores_guard run unfolding out by blast
    then show ?thesis
      using limit d run out assms(1) \<open>admitted sc (sv_guard sv)\<close> by (simp add: serve_def)
  next
    case False
    then show ?thesis using True limit by (auto split: sum.split decision.split)
  qed
qed

definition ex_routes :: "scope \<Rightarrow> app_run" where
  "ex_routes sc = \<lparr>run_sends = [], run_end = Some (1, Some AttributeError)\<rparr>"

definition ex_full :: server where
  "ex_full = \<lparr>sv_guard = (new_guard default_settings)\<lparr>global_sem := 0\<rparr>, sv_stores = build_stores default_settings\<rparr>"

theorem refusals_are_free_witness:
  "snd (serve ex_jwt (\<lambda>_. []) default_settings ''u'' (ex_clock 1) ex_routes ex_scope ex_full) = ex_full"
proof -
  have full: "\<not> admitted ex_scope (sv_guard ex_full)"
    by (simp add: admitted_def ex_scope_def ex_full_def guard_try_acquire_def sem_acquire_def)
  show ?thesis
    using refusals_are_free [of ex_scope default_settings ex_full ex_jwt "\<lambda>_. []" "''u''" "ex_clock 1" ex_routes] full
    by (simp add: ex_scope_def default_settings_def)
qed

section \<open>Every request is answered\<close>

text \<open>What the routes owe: a run that ends without an exception has begun a response, no run ends with a
  cancellation, and only reads may hang.\<close>

definition routes_answer :: "(scope \<Rightarrow> app_run) \<Rightarrow> bool" where
  "routes_answer app \<longleftrightarrow>
     (\<forall>sc. case run_end (app sc) of
         None \<Rightarrow> classify (scope_path sc) = READS
       | Some (t, None) \<Rightarrow> list_ex (\<lambda>p. starts_response (snd p)) (run_sends (app sc))
       | Some (t, Some e) \<Rightarrow> e \<noteq> CancelledError)"

lemma send_json_starts: "list_ex starts_response (send_json_response st body r)"
  by (simp add: send_json_response_def starts_response_def Let_def)

lemma handled_starts:
  assumes "r \<noteq> Some CancelledError" and "r = None \<Longrightarrow> list_ex starts_response sent"
  shows "\<exists>sent' r'. handle_exception (Some (sent, r)) = Some (sent', r') \<and> list_ex starts_response sent'"
  using assms
  by (cases r) (auto simp: handle_exception_def starts_response_def case_prod_unfold)

lemma rate_limit_responds:
  "fst (rate_limit_call lib rep settings clk sc stores) = Inr (Respond msgs) \<Longrightarrow> list_ex starts_response msgs"
  by (auto simp: rate_limit_call_def Let_def case_prod_unfold send_json_starts split: if_splits sum.splits option.splits)

text \<open>The run that the backpressure sees, with the rate limiter in front.\<close>

lemma limited_run_answers:
  assumes "routes_answer app" and "\<And>msgs. d = Inr (Respond msgs) \<Longrightarrow> list_ex starts_response msgs"
    and "d \<noteq> Inl CancelledError"
  shows "case run_end (limited_run d (app sc)) of
      None \<Rightarrow> classify (scope_path sc) = READS
    | Some (t, None) \<Rightarrow> list_ex starts_response (map snd (run_sends (limited_run d (app sc))))
    | Some (t, Some e) \<Rightarrow> e \<noteq> CancelledError"
proof -
  have routes: "case run_end (app sc) of
      None \<Rightarrow> classify (scope_path sc) = READS
    | Some (t, None) \<Rightarrow> list_ex (\<lambda>p. starts_response (snd p)) (run_sends (app sc))
    | Some (t, Some e) \<Rightarrow> e \<noteq> CancelledError"
    using assms(1) by (simp add: routes_answer_def)
  consider e where "d = Inl e" | "d = Inr Forward" | msgs where "d = Inr (Respond msgs)"
    by (cases d) (metis decision.exhaust)+
  then show ?thesis
  proof cases
    case 1
    then show ?thesis using assms(3) by simp
  next
    case 2
    then show ?thesis using routes by (auto simp: list_ex_iff split: option.splits)
  next
    case 3
    then show ?thesis using assms(2) [OF 3] by (simp add: o_def)
  qed
qed

lemma deadline_starts:
  assumes "case run_end run of
      None \<Rightarrow> P
    | Some (t, None) \<Rightarrow> list_ex starts_response (map snd (run_sends run))
    | Some (t, Some e) \<Rightarrow> e \<noteq> CancelledError"
  shows "\<exists>sent r. run_with_deadline d rid run = Some (sent, r)
    \<and> r \<noteq> Some CancelledError \<and> (r = None \<longrightarrow> list_ex starts_response sent)"
proof -
  have timeout: "list_ex starts_response (xs @ send_json_response st body ra)" for xs st body ra
    by (simp add: send_json_starts)
  show ?thesis
    using assms unfolding run_with_deadline_def Let_def
    by (cases "run_end run") (auto simp: timeout simp del: list_ex_append split: prod.splits option.splits)
qed

lemma runs_start:
  assumes "case run_end run of
      None \<Rightarrow> False
    | Some (t, None) \<Rightarrow> list_ex starts_response (map snd (run_sends run))
    | Some (t, Some e) \<Rightarrow> e \<noteq> CancelledError"
  shows "\<exists>sent r. run_to_end run = Some (sent, r)
    \<and> r \<noteq> Some CancelledError \<and> (r = None \<longrightarrow> list_ex starts_response sent)"
  using assms by (cases "run_end run") (auto simp: run_to_end_def split: option.splits)

lemma request_answered:
  assumes "sc_type sc = ''http''" and "routes_answer app"
    and "fst (rate_limit_call lib rep settings clk (inner_scope fresh_uuid sc) (sv_stores sv)) \<noteq> Inl CancelledError"
  shows "\<exists>sent r. fst (serve lib rep settings fresh_uuid clk app sc sv) = Some (sent, r) \<and> list_ex starts_response sent"
proof -
  obtain d stores where limit: "rate_limit_call lib rep settings clk (inner_scope fresh_uuid sc) (sv_stores sv) = (d, stores)"
    by force
  let ?app = "\<lambda>sc'. limited_run d (app sc')"
  have out: "fst (serve lib rep settings fresh_uuid clk app sc sv) =
      handle_exception (fst (backpressure_call settings fresh_uuid ?app sc (sv_guard sv)))"
    using assms(1) limit by (simp add: serve_def case_prod_unfold Let_def)
  show ?thesis
  proof (cases "admitted sc (sv_guard sv)")
    case False
    then show ?thesis
      unfolding out overloaded_call [OF assms(1) False] by (simp add: send_json_starts)
  next
    case True
    have runs: "case run_end (?app (inner_scope fresh_uuid sc)) of
        None \<Rightarrow> classify (scope_path sc) = READS
      | Some (t, None) \<Rightarrow> list_ex starts_response (map snd (run_sends (?app (inner_scope fresh_uuid sc))))
      | Some (t, Some e) \<Rightarrow> e \<noteq> CancelledError"
    proof (rule limited_run_answers [OF assms(2), of d "inner_scope fresh_uuid sc", unfolded admitted_inner])
      show "list_ex starts_response msgs" if "d = Inr (Respond msgs)" for msgs
        using limit that by (intro rate_limit_responds [of lib rep settings clk "inner_scope fresh_uuid sc" "sv_stores sv"]) simp
      show "d \<noteq> Inl CancelledError" using assms(3) limit by simp
    qed
    have "\<exists>sent r. fst (backpressure_call settings fresh_uuid ?app sc (sv_guard sv)) = Some (sent, r)
        \<and> r \<noteq> Some CancelledError \<and> (r = None \<longrightarrow> list_ex starts_response sent)"
      unfolding admitted_call [OF assms(1) True] using runs
      by (cases "classify (scope_path sc) = READS")
         (simp_all only: if_True if_False simp_thms deadline_starts runs_start)
    then obtain sent r where "fst (backpressure_call settings fresh_uuid ?app sc (sv_guard sv)) = Some (sent, r)"
      "r \<noteq> Some CancelledError" "r = None \<longrightarrow> list_ex starts_response sent" by blast
    then show ?thesis using handled_starts [of r sent] unfolding out by simp
  qed
qed

text \<open>
  The routes of the application. Starlette makes a response of what an endpoint returns, with the status of its
  route, and of an \<open>HTTPException\<close>, with its status and detail, and sends both messages when the endpoint has ended;
  any other exception leaves the routes and nothing is sent. An endpoint is given by how long it takes and its
  result; \<open>None\<close> is an endpoint that hangs.
\<close>

type_synonym endpoint = "(seconds \<times> (int \<times> json) result) option"

definition json_response :: "int \<Rightarrow> json \<Rightarrow> asgi_message list" where
  "json_response status body = [ResponseStart status [(''content-type'', ''application/json'')], ResponseBody body]"

definition endpoint_run :: "endpoint \<Rightarrow> app_run" where
  "endpoint_run call =
     (case call of
        None \<Rightarrow> \<lparr>run_sends = [], run_end = None\<rparr>
      | Some (t, Inr (status, body)) \<Rightarrow> \<lparr>run_sends = map (Pair t) (json_response status body), run_end = Some (t, None)\<rparr>
      | Some (t, Inl (HTTPException status detail)) \<Rightarrow>
          \<lparr>run_sends = map (Pair t) (json_response status (JObj [(''detail'', JStr detail)])), run_end = Some (t, None)\<rparr>
      | Some (t, Inl e) \<Rightarrow> \<lparr>run_sends = [], run_end = Some (t, Some e)\<rparr>)"

text \<open>One complete response and nothing else.\<close>

definition one_response :: "asgi_message list \<Rightarrow> bool" where
  "one_response sent \<longleftrightarrow> (case sent of [ResponseStart _ _, ResponseBody _] \<Rightarrow> True | _ \<Rightarrow> False)"

lemma one_response_simps [simp]:
  "one_response (json_response status body)" "one_response (send_json_response status msg retry_after)"
  "\<not> one_response []"
  by (simp_all add: one_response_def json_response_def send_json_response_def Let_def)

text \<open>What the middlewares rely on in a run: it sends a whole response at its end, or raises and sends nothing.\<close>

definition whole_run :: "app_run \<Rightarrow> bool" where
  "whole_run run \<longleftrightarrow>
     (case run_end run of
        None \<Rightarrow> run_sends run = []
      | Some (t, None) \<Rightarrow> one_response (map snd (run_sends run)) \<and> (\<forall>p\<in>set (run_sends run). fst p = t)
      | Some (t, Some e) \<Rightarrow> run_sends run = [] \<and> e \<noteq> CancelledError)"

lemma map_snd_Pair: "map snd (map (Pair t) xs) = xs"
  by (simp add: o_def)

lemma endpoint_run_whole: "(\<And>t. call \<noteq> Some (t, Inl CancelledError)) \<Longrightarrow> whole_run (endpoint_run call)"
  by (auto simp: endpoint_run_def whole_run_def map_snd_Pair simp del: map_map split: option.split sum.split py_exn.split)

lemma endpoint_run_hangs: "run_end (endpoint_run call) = None \<longleftrightarrow> call = None"
  by (auto simp: endpoint_run_def split: option.split sum.split py_exn.split)

lemma rate_limit_whole:
  "fst (rate_limit_call lib rep settings clk sc stores) = Inr (Respond msgs) \<Longrightarrow> one_response msgs"
  by (auto simp: rate_limit_call_def Let_def case_prod_unfold split: if_splits sum.splits option.splits)

lemma limited_run_whole:
  assumes "whole_run run" and "\<And>msgs. d = Inr (Respond msgs) \<Longrightarrow> one_response msgs" and "d \<noteq> Inl CancelledError"
  shows "whole_run (limited_run d run)" and "run_end run \<noteq> None \<Longrightarrow> run_end (limited_run d run) \<noteq> None"
proof -
  consider e where "d = Inl e" | "d = Inr Forward" | msgs where "d = Inr (Respond msgs)"
    by (cases d) (metis decision.exhaust)+
  note cases = this
  show "whole_run (limited_run d run)"
    using cases assms by cases (auto simp: whole_run_def map_snd_Pair simp del: map_map)
  show "run_end (limited_run d run) \<noteq> None" if "run_end run \<noteq> None"
    using cases that by cases simp_all
qed

text \<open>A call whose outcome the handler of exceptions turns into one response.\<close>

definition answerable :: "call_outcome \<Rightarrow> bool" where
  "answerable outcome \<longleftrightarrow>
     (case outcome of
        None \<Rightarrow> False
      | Some (sent, None) \<Rightarrow> one_response sent
      | Some (sent, Some e) \<Rightarrow> sent = [] \<and> e \<noteq> CancelledError)"

lemma answerable_handled: "answerable outcome \<Longrightarrow> \<exists>sent r. handle_exception outcome = Some (sent, r) \<and> one_response sent"
proof -
  assume a: "answerable outcome"
  show ?thesis
  proof (cases outcome)
    case None
    with a show ?thesis by (simp add: answerable_def)
  next
    case (Some x)
    obtain sent r where x: "x = (sent, r)" by force
    show ?thesis
    proof (cases r)
      case None
      then show ?thesis using a by (simp add: Some x answerable_def)
    next
      case (Some e)
      obtain status body where h: "global_exception_handler e = (status, body)" by force
      have "sent = []" "e \<noteq> CancelledError" using a by (simp_all add: \<open>outcome = Some x\<close> x Some answerable_def)
      then have "handle_exception outcome =
          Some ([ResponseStart status [(''content-type'', ''application/json'')], ResponseBody body], Some e)"
        by (simp add: \<open>outcome = Some x\<close> x Some handle_exception_def h)
      then show ?thesis by (simp add: one_response_def)
    qed
  qed
qed

lemma whole_run_deadline: "whole_run run \<Longrightarrow> answerable (run_with_deadline d rid run)"
proof -
  assume w: "whole_run run"
  have late: "filter (\<lambda>(s, _). s < d) xs = []" if "\<forall>p\<in>set xs. fst p = t" "d \<le> t" for xs :: "(seconds \<times> asgi_message) list" and t
    using that by (auto simp: filter_empty_conv)
  show ?thesis
  proof (cases "run_end run")
    case None
    with w show ?thesis by (simp add: whole_run_def run_with_deadline_def answerable_def Let_def)
  next
    case (Some x)
    obtain t r where x: "x = (t, r)" by force
    show ?thesis
      using w late [of "run_sends run" t]
      by (cases r) (auto simp: Some x whole_run_def run_with_deadline_def answerable_def Let_def)
  qed
qed

lemma whole_run_to_end: "whole_run run \<Longrightarrow> run_end run \<noteq> None \<Longrightarrow> answerable (run_to_end run)"
  by (auto simp: whole_run_def run_to_end_def answerable_def split: option.splits)


lemma ex_not_cancelled:
  "fst (rate_limit_call ex_jwt (\<lambda>_. []) default_settings (ex_clock 1) (inner_scope ''u'' ex_scope)
      (sv_stores (new_server default_settings))) \<noteq> Inl CancelledError"
proof -
  have key: "rate_limit_key ex_jwt (\<lambda>_. []) t default_settings AUTH_LOGIN (inner_scope ''u'' ex_scope) = Inr ''10.0.0.7''" for t
    using ex_scope_key [of t] by (simp add: rate_limit_key_def inner_scope_def ex_scope_def extract_client_ip_from_scope_def find_header_def)
  have "classify (scope_path (inner_scope ''u'' ex_scope)) = AUTH_LOGIN"
    by (simp add: admitted_inner) (simp add: ex_scope_def scope_path_def classify_def)
  then show ?thesis
    using key by (auto simp: rate_limit_call_def Let_def case_prod_unfold split: option.split)
qed

lemma ex_routes_answer: "routes_answer ex_routes"
  by (simp add: routes_answer_def ex_routes_def)

text \<open>Two of the modelled endpoints as routes, with their framework: \<open>/health\<close>, and \<open>/v1/auth/me\<close> on the tables \<open>db\<close>.\<close>

definition ex_endpoints :: "mm_db \<Rightarrow> scope \<Rightarrow> endpoint" where
  "ex_endpoints db sc =
     Some (1 / 100,
       if scope_path sc = ''/health'' then Inr (200, health)
       else if scope_path sc = ''/v1/auth/me'' then
         (case fst (me True ex_jwt default_settings 0 (find_header sc ''authorization'') db) of
            Inl e \<Rightarrow> Inl e
          | Inr (i, mb, name) \<Rightarrow> Inr (200, JObj [(''id'', JStr (uuid_str i)), (''mb_agent_id'', JStr mb), (''mb_name'', JStr name)]))
       else Inl (HTTPException 404 ''Not Found''))"

lemma me_not_cancelled: "fst (me True ex_jwt default_settings 0 auth db) \<noteq> Inl CancelledError"
  by (auto simp: me_def get_db_session_def bind_act_def get_current_agent_def decode_access_token_def ex_jwt_def default_settings_def
      Let_def split: option.splits if_splits)


section \<open>The server between requests\<close>

text \<open>Requests one after the other, each answered before the next.\<close>

inductive served :: "jwt_lib \<Rightarrow> (json \<Rightarrow> string) \<Rightarrow> Settings \<Rightarrow> server \<Rightarrow> bool" for lib rep settings where
  start: "served lib rep settings (new_server settings)"
| request: "served lib rep settings sv \<Longrightarrow>
    serve lib rep settings fresh_uuid clk app sc sv = (Some out, sv') \<Longrightarrow> served lib rep settings sv'"

definition stores_ok :: "Settings \<Rightarrow> (RouteGroup \<rightharpoonup> BucketStore) \<Rightarrow> bool" where
  "stores_ok settings stores \<longleftrightarrow>
     (\<forall>grp. grp \<noteq> EXEMPT \<longrightarrow> (\<exists>st. stores grp = Some st \<and> store_inv st \<and> store_max_keys st = mm_rl_bucket_max_keys settings))"

lemma rate_limit_stores_ok:
  assumes "stores_ok settings stores"
  shows "stores_ok settings (snd (rate_limit_call lib rep settings clk sc stores))"
proof (cases "sc_type sc = ''http'' \<and> classify (scope_path sc) \<noteq> EXEMPT")
  case True
  let ?grp = "classify (scope_path sc)"
  obtain st where st: "stores ?grp = Some st" "store_inv st" "store_max_keys st = mm_rl_bucket_max_keys settings"
    using assms True by (auto simp: stores_ok_def)
  show ?thesis
  proof (cases "rate_limit_key lib rep (clk_wall clk) settings ?grp sc")
    case (Inl e)
    then show ?thesis using assms True by (simp add: rate_limit_call_def)
  next
    case (Inr key)
    have "snd (rate_limit_call lib rep settings clk sc stores) =
        stores(?grp \<mapsto> snd (store_access (access_of clk key ?grp settings) st))"
      using True Inr st(1) by (simp add: rate_limit_call_def store_access_def access_of_def Let_def case_prod_beta)
    then show ?thesis using assms st store_access_inv [OF st(2)] by (simp add: stores_ok_def)
  qed
next
  case False
  then show ?thesis using assms by (auto simp: rate_limit_call_def)
qed

text \<open>C28: after any requests that were answered, allowed, refused, failed or timed out, every permit is back, and every
  store of buckets has distinct principals and no more of them than its cap.\<close>

theorem server_at_rest:
  assumes "served lib rep settings sv"
  shows "sv_guard sv = new_guard settings \<and> stores_ok settings (sv_stores sv)"
  using assms
proof (induction rule: served.induct)
  case start
  have "build_stores settings grp = Some (new_store (mm_rl_bucket_max_keys settings) (of_int (mm_rl_bucket_ttl_seconds settings)))"
    if "grp \<noteq> EXEMPT" for grp
    using that by (cases grp) (simp_all add: build_stores_def Let_def)
  then show ?case by (simp add: new_server_def stores_ok_def new_store_inv) (simp add: new_store_def)
next
  case (request sv fresh_uuid clk app sc out sv')
  obtain d stores where limit: "rate_limit_call lib rep settings clk (inner_scope fresh_uuid sc) (sv_stores sv) = (d, stores)"
    by force
  obtain o' g' where run: "backpressure_call settings fresh_uuid (\<lambda>sc'. limited_run d (app sc')) sc (sv_guard sv) = (o', g')"
    by force
  have sv': "sv' = \<lparr>sv_guard = g', sv_stores = if admitted sc (sv_guard sv) then stores else sv_stores sv\<rparr>" and "o' \<noteq> None"
    using request.hyps(2) limit run by (auto simp: serve_def handle_exception_def split: if_splits)
  then obtain o'' where "o' = Some o''" by blast
  then have "g' = sv_guard sv" using call_restores_guard run by blast
  moreover have "stores_ok settings stores"
    using rate_limit_stores_ok [of settings "sv_stores sv" lib rep clk "inner_scope fresh_uuid sc"] request.IH limit by simp
  ultimately show ?case using request.IH sv' by simp
qed

theorem server_at_rest_witness:
  "sv_guard (snd (serve ex_jwt (\<lambda>_. []) default_settings ''u'' (ex_clock 1) ex_routes ex_scope (new_server default_settings)))
    = new_guard default_settings"
proof -
  obtain sent r where "fst (serve ex_jwt (\<lambda>_. []) default_settings ''u'' (ex_clock 1) ex_routes ex_scope (new_server default_settings)) = Some (sent, r)"
    using request_answered [OF _ ex_routes_answer ex_not_cancelled] by (auto simp: ex_scope_def)
  then have "serve ex_jwt (\<lambda>_. []) default_settings ''u'' (ex_clock 1) ex_routes ex_scope (new_server default_settings) =
      (Some (sent, r), snd (serve ex_jwt (\<lambda>_. []) default_settings ''u'' (ex_clock 1) ex_routes ex_scope (new_server default_settings)))"
    by (metis prod.collapse)
  then show ?thesis using server_at_rest [OF served.request [OF served.start]] by blast
qed

end
