(* ===== verification/CrawlGraph.thy ===== *)
theory CrawlGraph
  imports Handlers MeritSteps
begin

text \<open>
  The crawler's upserts and the triggers of the graph work on the same tables: an upsert of
  \<open>textlake/upsert.py\<close> is a statement that fires the triggers of \<open>meritmolt/schema/ddl.py\<close>. This theory joins the
  two models: the crawler's tables, column by column, are mirrored in the tables that the SQL of the triggers reads.
\<close>

section \<open>The columns that the triggers read\<close>

definition text_of :: "dbval \<Rightarrow> string" where
  "text_of v = (case v of VJson (JStr s) \<Rightarrow> s | _ \<Rightarrow> [])"

definition opt_text :: "dbval \<Rightarrow> string option" where
  "opt_text v = (case v of VJson (JStr s) \<Rightarrow> Some s | _ \<Rightarrow> None)"

definition agent_cols :: "row \<Rightarrow> string" where
  "agent_cols r = text_of (r ''id'')"

definition submolt_cols :: "row \<Rightarrow> string \<times> string" where
  "submolt_cols r = (text_of (r ''id''), text_of (r ''name''))"

definition post_cols :: "row \<Rightarrow> string \<times> string option \<times> string" where
  "post_cols r = (text_of (r ''id''), opt_text (r ''submolt_id''), text_of (r ''author_id''))"

definition comment_cols :: "row \<Rightarrow> string \<times> string \<times> string option \<times> string" where
  "comment_cols r = (text_of (r ''id''), text_of (r ''post_id''), opt_text (r ''parent_id''), text_of (r ''author_id''))"

definition mirrors :: "crawl_db \<Rightarrow> mr_db \<Rightarrow> bool" where
  "mirrors db mr \<longleftrightarrow>
     mr_agents mr = map agent_cols (entity_rows db Agent)
     \<and> mr_submolts mr = map submolt_cols (entity_rows db Submolt)
     \<and> map (\<lambda>p. (mp_id p, mp_submolt_id p, mp_author_id p)) (mr_posts mr) = map post_cols (entity_rows db Post)
     \<and> map (\<lambda>c. (mc_id c, mc_post_id c, mc_parent_id c, mc_author_id c)) (mr_comments mr)
         = map comment_cols (entity_rows db Comment)"

section \<open>An upsert as the triggers see it\<close>

text \<open>
  A conflicting insertion of an agent or a submolt fires no trigger; one of a post or comment draws a ticker.
\<close>

fun on_upsert :: "entity \<Rightarrow> row \<Rightarrow> mr_db \<Rightarrow> mr_db" where
  "on_upsert Agent x mr = snd (insert_agent (text_of (x ''id'')) mr)"
| "on_upsert Submolt x mr =
     (if text_of (x ''id'') \<in> fst ` set (mr_submolts mr) then mr
      else mr\<lparr>mr_submolts := mr_submolts mr @ [(text_of (x ''id''), text_of (x ''name''))]\<rparr>)"
| "on_upsert Post x mr =
     (if find_post (text_of (x ''id'')) mr \<noteq> None
      then snd (author_id_ticker_trigger (text_of (x ''author_id'')) mr)
      else snd (insert_post (text_of (x ''id'')) (opt_text (x ''submolt_id'')) (text_of (x ''author_id'')) mr))"
| "on_upsert Comment x mr =
     (if find_comment (text_of (x ''id'')) mr \<noteq> None
      then snd (author_id_ticker_trigger (text_of (x ''author_id'')) mr)
      else snd (insert_comment (text_of (x ''id'')) (text_of (x ''post_id'')) (opt_text (x ''parent_id''))
                  (text_of (x ''author_id'')) mr))"

fun mirrored :: "entity \<Rightarrow> string list" where
  "mirrored Agent = [''id'']"
| "mirrored Submolt = [''id'', ''name'']"
| "mirrored Post = [''id'', ''submolt_id'', ''author_id'']"
| "mirrored Comment = [''id'', ''post_id'', ''parent_id'', ''author_id'']"

text \<open>
  What the graph needs of the data: identifiers without a prefix of the graph, replies on the post of their
  parent, and no change of a mirrored column of a row that is there.
\<close>

definition graph_safe :: "entity \<Rightarrow> row \<Rightarrow> crawl_db \<Rightarrow> bool" where
  "graph_safe e x db \<longleftrightarrow>
     safe_id (text_of (x ''id'')) \<and>
     (case get_row e (x ''id'') db of
        Some old \<Rightarrow> list_all (\<lambda>c. x c = VNull \<or> x c = old c) (mirrored e)
      | None \<Rightarrow>
          e \<noteq> Comment \<or> x ''parent_id'' = x ''id''
          \<or> (case get_row Comment (x ''parent_id'') db of None \<Rightarrow> True | Some q \<Rightarrow> q ''post_id'' = x ''post_id''))"

section \<open>Lookups agree\<close>

lemma text_column:
  assumes "row_violation e r = None" and "map_of (columns_of e) c = Some co"
    and "co_type co = CCitext \<or> (\<exists>n. co_type co = CStr n)"
  shows "r c = VNull \<or> r c = VJson (JStr (text_of (r c)))"
proof -
  have "fits (co_type co) (r c)" using assms(1) map_of_SomeD [OF assms(2)] by (auto simp: row_violation_None)
  then show ?thesis using assms(3) by (auto simp: fits_def text_of_def split: dbval.splits json.splits)
qed

lemma id_text: "row_violation e r = None \<Longrightarrow> r ''id'' = VJson (JStr (text_of (r ''id'')))"
  using text_column [of e r "''id''" pk_col] columns_facts(1) [of e] excluded_not_null(1) [of e r]
  by (simp add: pk_col_def col_def)

lemma opt_text_iff: "v = VNull \<or> v = VJson (JStr (text_of v)) \<Longrightarrow> opt_text v = Some s \<longleftrightarrow> v = VJson (JStr s)"
  by (cases v) (auto simp: opt_text_def text_of_def split: json.splits)

lemma text_inj: "v = VJson (JStr (text_of v)) \<Longrightarrow> w = VJson (JStr (text_of w)) \<Longrightarrow> text_of v = text_of w \<longleftrightarrow> v = w"
  by metis

lemma row_id:
  assumes "db_ok db" and "r \<in> set (entity_rows db e)"
  shows "r ''id'' = VJson (JStr (text_of (r ''id'')))"
  using assms by (intro id_text [of e]) (auto simp: db_ok_def)

lemma row_exists_text:
  assumes "db_ok db"
  shows "row_exists e (VJson (JStr i)) db \<longleftrightarrow> i \<in> (\<lambda>r. text_of (r ''id'')) ` set (entity_rows db e)"
proof
  assume "row_exists e (VJson (JStr i)) db"
  then obtain r where r: "r \<in> set (entity_rows db e)" "r ''id'' = VJson (JStr i)" by (auto simp: row_exists_iff)
  then have "text_of (r ''id'') = i" by (simp add: text_of_def)
  with r(1) show "i \<in> (\<lambda>r. text_of (r ''id'')) ` set (entity_rows db e)" by blast
next
  assume "i \<in> (\<lambda>r. text_of (r ''id'')) ` set (entity_rows db e)"
  then obtain r where r: "r \<in> set (entity_rows db e)" "i = text_of (r ''id'')" by blast
  with row_id [OF assms r(1)] have "r ''id'' = VJson (JStr i)" by simp
  with r(1) show "row_exists e (VJson (JStr i)) db" unfolding row_exists_iff by (metis imageI)
qed

lemma mirrors_lookup:
  assumes "db_ok db" and "mirrors db mr"
  shows "i \<in> set (mr_agents mr) \<longleftrightarrow> row_exists Agent (VJson (JStr i)) db"
    and "i \<in> fst ` set (mr_submolts mr) \<longleftrightarrow> row_exists Submolt (VJson (JStr i)) db"
    and "find_post i mr \<noteq> None \<longleftrightarrow> row_exists Post (VJson (JStr i)) db"
    and "find_comment i mr \<noteq> None \<longleftrightarrow> row_exists Comment (VJson (JStr i)) db"
proof -
  have "map fst (map (\<lambda>p. (mp_id p, mp_submolt_id p, mp_author_id p)) (mr_posts mr)) = map fst (map post_cols (entity_rows db Post))"
    using assms(2) by (simp only: mirrors_def)
  then have posts: "map mp_id (mr_posts mr) = map (\<lambda>r. text_of (r ''id'')) (entity_rows db Post)"
    by (simp add: o_def post_cols_def)
  have "map fst (map (\<lambda>c. (mc_id c, mc_post_id c, mc_parent_id c, mc_author_id c)) (mr_comments mr)) =
      map fst (map comment_cols (entity_rows db Comment))"
    using assms(2) by (simp only: mirrors_def)
  then have comments: "map mc_id (mr_comments mr) = map (\<lambda>r. text_of (r ''id'')) (entity_rows db Comment)"
    by (simp add: o_def comment_cols_def)
  show "i \<in> set (mr_agents mr) \<longleftrightarrow> row_exists Agent (VJson (JStr i)) db"
    and "i \<in> fst ` set (mr_submolts mr) \<longleftrightarrow> row_exists Submolt (VJson (JStr i)) db"
    using assms(2) by (simp_all add: row_exists_text [OF assms(1)] mirrors_def agent_cols_def submolt_cols_def image_image)
  have "find_post i mr \<noteq> None \<longleftrightarrow> i \<in> set (map mp_id (mr_posts mr))" by (auto simp: find_post_def find_None_iff)
  then show "find_post i mr \<noteq> None \<longleftrightarrow> row_exists Post (VJson (JStr i)) db"
    unfolding posts row_exists_text [OF assms(1)] by simp
  have "find_comment i mr \<noteq> None \<longleftrightarrow> i \<in> set (map mc_id (mr_comments mr))" by (auto simp: find_comment_def find_None_iff)
  then show "find_comment i mr \<noteq> None \<longleftrightarrow> row_exists Comment (VJson (JStr i)) db"
    unfolding comments row_exists_text [OF assms(1)] by simp
qed

section \<open>One upsert\<close>

lemma map_tbl_update_same:
  assumes "distinct (map key rows)" and "tbl_get key k rows = Some old" and "f new = f old"
  shows "map f (tbl_update key k (\<lambda>_. new) rows) = map f rows"
proof -
  have "f (if key r = k then new else r) = f r" if "r \<in> set rows" for r
  proof (cases "key r = k")
    case True
    then have "tbl_get key k rows = Some r" using tbl_get_Some_iff [OF assms(1), of k r] that by simp
    with assms(2,3) True show ?thesis by simp
  qed simp
  then show ?thesis by (simp add: tbl_update_def)
qed

lemma enrich_stable:
  "c \<in> set (mirrored e) \<Longrightarrow> x c = VNull \<or> x c = old c \<Longrightarrow> enrich e cols auth now x old c = old c"
  by (cases e) (auto simp: enrich_def coalesce_def)

lemma stable_cols:
  assumes "list_all (\<lambda>c. x c = VNull \<or> x c = old c) (mirrored e)"
  shows "e = Agent \<Longrightarrow> agent_cols (enrich e cols auth now x old) = agent_cols old"
    and "e = Submolt \<Longrightarrow> submolt_cols (enrich e cols auth now x old) = submolt_cols old"
    and "e = Post \<Longrightarrow> post_cols (enrich e cols auth now x old) = post_cols old"
    and "e = Comment \<Longrightarrow> comment_cols (enrich e cols auth now x old) = comment_cols old"
proof -
  have same: "enrich e cols auth now x old c = old c" if "c \<in> set (mirrored e)" for c
    using assms that by (intro enrich_stable) (auto simp: list_all_iff)
  show "e = Agent \<Longrightarrow> agent_cols (enrich e cols auth now x old) = agent_cols old"
    and "e = Submolt \<Longrightarrow> submolt_cols (enrich e cols auth now x old) = submolt_cols old"
    and "e = Post \<Longrightarrow> post_cols (enrich e cols auth now x old) = post_cols old"
    and "e = Comment \<Longrightarrow> comment_cols (enrich e cols auth now x old) = comment_cols old"
    using same by (simp_all add: agent_cols_def submolt_cols_def post_cols_def comment_cols_def)
qed

lemma update_same:
  assumes "db_ok db" and "get_row e k db = Some old" and "f new = f old"
  shows "map f (tbl_update (\<lambda>r. r ''id'') k (\<lambda>_. new) (entity_rows db e)) = map f (entity_rows db e)"
  using assms by (intro map_tbl_update_same [where old = old]) (simp_all add: db_ok_def get_row_def)

text \<open>An update of a row that leaves its mirrored columns alone leaves the mirror alone.\<close>

lemma update_mirrors:
  assumes "db_ok db" and "mirrors db mr" and "get_row e k db = Some old"
    and "list_all (\<lambda>c. x c = VNull \<or> x c = old c) (mirrored e)"
  shows "mirrors (set_rows e (tbl_update (\<lambda>r. r ''id'') k (\<lambda>_. enrich e cols auth now x old) (entity_rows db e)) db) mr"
  using assms(2) stable_cols [OF assms(4), of cols auth now]
    update_same [OF assms(1,3), of agent_cols "enrich e cols auth now x old"]
    update_same [OF assms(1,3), of submolt_cols "enrich e cols auth now x old"]
    update_same [OF assms(1,3), of post_cols "enrich e cols auth now x old"]
    update_same [OF assms(1,3), of comment_cols "enrich e cols auth now x old"]
  by (cases e) (simp_all add: mirrors_def set_rows_def)

lemma mirrors_same_tables: "same_tables mr mr' \<Longrightarrow> mirrors db mr \<longleftrightarrow> mirrors db mr'"
  by (simp add: mirrors_def same_tables_def)

lemma bump_same_tables: "same_tables (snd (bump_vsids u mr)) mr"
  using bump_same [of u mr "fst (bump_vsids u mr)" "snd (bump_vsids u mr)"] by simp

text \<open>What an insertion adds.\<close>

lemma insert_agent_tables:
  "i \<notin> set (mr_agents mr) \<Longrightarrow> mr_agents (snd (insert_agent i mr)) = mr_agents mr @ [i]"
  "mr_submolts (snd (insert_agent i mr)) = mr_submolts mr" "mr_posts (snd (insert_agent i mr)) = mr_posts mr"
  "mr_comments (snd (insert_agent i mr)) = mr_comments mr"
  by (auto simp: insert_agent_def on_mb_agent_created_def split: option.split)

lemma insert_post_tables:
  assumes "find_post i mr = None" and "a \<in> set (mr_agents mr)" and "\<And>x. s = Some x \<Longrightarrow> x \<in> fst ` set (mr_submolts mr)"
  shows "mr_agents (snd (insert_post i s a mr)) = mr_agents mr"
    "mr_submolts (snd (insert_post i s a mr)) = mr_submolts mr"
    "mr_comments (snd (insert_post i s a mr)) = mr_comments mr"
    "map (\<lambda>p. (mp_id p, mp_submolt_id p, mp_author_id p)) (mr_posts (snd (insert_post i s a mr))) =
      map (\<lambda>p. (mp_id p, mp_submolt_id p, mp_author_id p)) (mr_posts mr) @ [(i, s, a)]"
proof -
  obtain t mr1 where bump: "bump_vsids a mr = (t, mr1)" by force
  have same: "mr_agents mr1 = mr_agents mr" "mr_submolts mr1 = mr_submolts mr" "mr_comments mr1 = mr_comments mr" "mr_posts mr1 = mr_posts mr"
    using bump_same [OF bump] by (simp_all add: same_tables_def)
  have run: "insert_post i s a mr =
      (let p = \<lparr>mp_id = i, mp_submolt_id = s, mp_author_id = a, mp_ticker = t\<rparr>; mr2 = mr1\<lparr>mr_posts := mr_posts mr1 @ [p]\<rparr>
       in (Inr (), emit (post_inserted p mr2) mr2))"
    using assms by (cases s) (simp_all add: insert_post_def bump)
  show "mr_agents (snd (insert_post i s a mr)) = mr_agents mr"
    "mr_submolts (snd (insert_post i s a mr)) = mr_submolts mr"
    "mr_comments (snd (insert_post i s a mr)) = mr_comments mr"
    "map (\<lambda>p. (mp_id p, mp_submolt_id p, mp_author_id p)) (mr_posts (snd (insert_post i s a mr))) =
      map (\<lambda>p. (mp_id p, mp_submolt_id p, mp_author_id p)) (mr_posts mr) @ [(i, s, a)]"
    by (simp_all add: run Let_def same)
qed

lemma insert_comment_tables:
  assumes "find_comment i mr = None" and "a \<in> set (mr_agents mr)" and "find_post p mr \<noteq> None"
    and "\<And>x. q = Some x \<Longrightarrow> x = i \<or> find_comment x mr \<noteq> None"
  shows "mr_agents (snd (insert_comment i p q a mr)) = mr_agents mr"
    "mr_submolts (snd (insert_comment i p q a mr)) = mr_submolts mr"
    "mr_posts (snd (insert_comment i p q a mr)) = mr_posts mr"
    "map (\<lambda>c. (mc_id c, mc_post_id c, mc_parent_id c, mc_author_id c)) (mr_comments (snd (insert_comment i p q a mr))) =
      map (\<lambda>c. (mc_id c, mc_post_id c, mc_parent_id c, mc_author_id c)) (mr_comments mr) @ [(i, p, q, a)]"
proof -
  obtain t mr1 where bump: "bump_vsids a mr = (t, mr1)" by force
  have same: "mr_agents mr1 = mr_agents mr" "mr_submolts mr1 = mr_submolts mr" "mr_comments mr1 = mr_comments mr" "mr_posts mr1 = mr_posts mr"
    using bump_same [OF bump] by (simp_all add: same_tables_def)
  have run: "insert_comment i p q a mr =
      (let c = \<lparr>mc_id = i, mc_post_id = p, mc_parent_id = q, mc_author_id = a, mc_ticker = t\<rparr>;
           mr2 = mr1\<lparr>mr_comments := mr_comments mr1 @ [c]\<rparr>
       in (Inr (), emit (comment_inserted c mr2) mr2))"
    using assms by (cases q) (auto simp: insert_comment_def bump)
  show "mr_agents (snd (insert_comment i p q a mr)) = mr_agents mr"
    "mr_submolts (snd (insert_comment i p q a mr)) = mr_submolts mr"
    "mr_posts (snd (insert_comment i p q a mr)) = mr_posts mr"
    "map (\<lambda>c. (mc_id c, mc_post_id c, mc_parent_id c, mc_author_id c)) (mr_comments (snd (insert_comment i p q a mr))) =
      map (\<lambda>c. (mc_id c, mc_post_id c, mc_parent_id c, mc_author_id c)) (mr_comments mr) @ [(i, p, q, a)]"
    by (simp_all add: run Let_def same)
qed

section \<open>The simulation\<close>

text \<open>Foreign keys of a row that violates none, as the mirrored tables see them.\<close>

lemma key_column:
  assumes "row_violation e x = None" and "\<not> fk_violation e x db'"
    and col: "map_of (columns_of e) c = Some (fk_col n e')"
  shows "x c = VNull \<and> n \<or> x c = VJson (JStr (text_of (x c))) \<and> row_exists e' (x c) db'"
proof -
  have "x c = VNull \<or> x c = VJson (JStr (text_of (x c)))"
    by (rule text_column [OF assms(1) col]) (simp add: fk_col_def col_def)
  moreover have "x c = VNull \<longrightarrow> n"
    using not_null_column [OF assms(1) col] by (auto simp: fk_col_def col_def)
  moreover have "x c = VNull \<or> row_exists e' (x c) db'"
    using assms(2) map_of_SomeD [OF col] by (auto simp: fk_violation_def list_ex_iff fk_col_def)
  ultimately show ?thesis by blast
qed

lemma fk_columns:
  "map_of (columns_of Post) ''submolt_id'' = Some (fk_col True Submolt)"
  "map_of (columns_of Post) ''author_id'' = Some (fk_col False Agent)"
  "map_of (columns_of Comment) ''post_id'' = Some (fk_col False Post)"
  "map_of (columns_of Comment) ''parent_id'' = Some (fk_col True Comment)"
  "map_of (columns_of Comment) ''author_id'' = Some (fk_col False Agent)"
  by (simp_all add: MbPost_def MbComment_def)

lemma row_exists_set_rows: "row_exists e' v (set_rows e rows db) =
    (if e' = e then v \<in> (\<lambda>r. r ''id'') ` set rows else row_exists e' v db)"
  by (simp add: row_exists_iff set_rows_def)

lemma new_id:
  assumes "get_row e (x ''id'') db = None" and "x ''id'' = VJson (JStr (text_of (x ''id'')))"
  shows "\<not> row_exists e (VJson (JStr (text_of (x ''id'')))) db"
  using assms by (metis get_row_def row_exists_iff tbl_get_None_iff)

lemma insert_post_mirrors:
  assumes "db_ok db" and m: "mirrors db mr" and v: "row_violation Post x = None"
    and new: "get_row Post (x ''id'') db = None"
    and db': "db' = set_rows Post (tbl_insert x (entity_rows db Post)) db" and fk: "\<not> fk_violation Post x db'"
  shows "mirrors db' (on_upsert Post x mr)"
    and "on_upsert Post x mr = snd (insert_post (text_of (x ''id'')) (opt_text (x ''submolt_id'')) (text_of (x ''author_id'')) mr)"
proof -
  note look = mirrors_lookup [OF assms(1) m]
  have fresh: "find_post (text_of (x ''id'')) mr = None"
    using new_id [where x = x, OF new id_text [OF v]] look(3) by blast
  have a: "text_of (x ''author_id'') \<in> set (mr_agents mr)"
    using key_column [OF v fk fk_columns(2)] look(1) by (simp add: db' row_exists_set_rows)
  have s: "y \<in> fst ` set (mr_submolts mr)" if "opt_text (x ''submolt_id'') = Some y" for y
  proof -
    have "x ''submolt_id'' = VJson (JStr y)" using that by (auto simp: opt_text_def split: dbval.splits json.splits)
    then show ?thesis using key_column [OF v fk fk_columns(1)] look(2) [of y] by (auto simp: db' row_exists_set_rows)
  qed
  show run: "on_upsert Post x mr = snd (insert_post (text_of (x ''id'')) (opt_text (x ''submolt_id'')) (text_of (x ''author_id'')) mr)"
    using fresh by simp
  show "mirrors db' (on_upsert Post x mr)"
    unfolding run using m insert_post_tables [OF fresh a s]
    by (simp add: mirrors_def db' set_rows_def tbl_insert_def post_cols_def)
qed

lemma insert_post_sim:
  assumes "db_ok db" and "mirrors db mr" and "row_violation Post x = None"
    and "get_row Post (x ''id'') db = None"
    and "db' = set_rows Post (tbl_insert x (entity_rows db Post)) db" and "\<not> fk_violation Post x db'"
    and "safe_id (text_of (x ''id''))"
  shows "mirrors db' (on_upsert Post x mr) \<and> mr_step mr (on_upsert Post x mr)"
  using insert_post_mirrors [OF assms(1-6)] mr_step.post [OF assms(7)] by simp

lemma mirrored_comment:
  assumes "db_ok db" and "mirrors db mr" and "find_comment y mr = Some c"
  obtains r where "get_row Comment (VJson (JStr y)) db = Some r" and "mc_post_id c = text_of (r ''post_id'')"
proof -
  have c: "c \<in> set (mr_comments mr)" "mc_id c = y" using find_comment_SomeD [OF assms(3)] by auto
  let ?cols = "\<lambda>c. (mc_id c, mc_post_id c, mc_parent_id c, mc_author_id c)"
  have "?cols c \<in> set (map ?cols (mr_comments mr))" using c(1) by simp
  also have "map ?cols (mr_comments mr) = map comment_cols (entity_rows db Comment)"
    using assms(2) by (simp only: mirrors_def)
  finally obtain r where r: "r \<in> set (entity_rows db Comment)" "?cols c = comment_cols r" by auto
  then have "text_of (r ''id'') = y" "mc_post_id c = text_of (r ''post_id'')" using c(2) by (simp_all add: comment_cols_def)
  moreover have "get_row Comment (r ''id'') db = Some r"
    using assms(1) r(1) by (simp add: get_row_def db_ok_def tbl_get_Some_iff)
  ultimately show ?thesis using that row_id [OF assms(1) r(1)] by auto
qed

lemma insert_comment_sim:
  assumes "db_ok db" and m: "mirrors db mr" and v: "row_violation Comment x = None"
    and new: "get_row Comment (x ''id'') db = None"
    and db': "db' = set_rows Comment (tbl_insert x (entity_rows db Comment)) db" and fk: "\<not> fk_violation Comment x db'"
    and safe: "graph_safe Comment x db"
  shows "mirrors db' (on_upsert Comment x mr) \<and> mr_step mr (on_upsert Comment x mr)"
proof -
  note look = mirrors_lookup [OF assms(1) m]
  have fresh: "find_comment (text_of (x ''id'')) mr = None"
    using new_id [where x = x, OF new id_text [OF v]] look(4) by blast
  have a: "text_of (x ''author_id'') \<in> set (mr_agents mr)"
    using key_column [OF v fk fk_columns(5)] look(1) by (simp add: db' row_exists_set_rows)
  have p: "find_post (text_of (x ''post_id'')) mr \<noteq> None" and pt: "x ''post_id'' = VJson (JStr (text_of (x ''post_id'')))"
    using key_column [OF v fk fk_columns(3)] look(3) by (auto simp: db' row_exists_set_rows)
  have q: "y = text_of (x ''id'') \<or> find_comment y mr \<noteq> None" if "opt_text (x ''parent_id'') = Some y" for y
  proof -
    have "x ''parent_id'' = VJson (JStr y)" using that by (auto simp: opt_text_def split: dbval.splits json.splits)
    then have "row_exists Comment (VJson (JStr y)) db'" using key_column [OF v fk fk_columns(4)] by auto
    then have "VJson (JStr y) = x ''id'' \<or> row_exists Comment (VJson (JStr y)) db"
      by (auto simp: db' set_rows_def tbl_insert_def row_exists_iff)
    then have "text_of (VJson (JStr y)) = text_of (x ''id'') \<or> find_comment y mr \<noteq> None" using look(4) [of y] by metis
    then show ?thesis by (simp add: text_of_def)
  qed
  have post: "same_post_parent (text_of (x ''id'')) (text_of (x ''post_id'')) (opt_text (x ''parent_id'')) mr"
  proof (cases "opt_text (x ''parent_id'')")
    case None
    then show ?thesis by (simp add: same_post_parent_def)
  next
    case (Some y)
    then have par: "x ''parent_id'' = VJson (JStr y)" by (auto simp: opt_text_def split: dbval.splits json.splits)
    have "mc_post_id c = text_of (x ''post_id'')" if y: "y \<noteq> text_of (x ''id'')" and c: "find_comment y mr = Some c" for c
    proof -
      obtain r where r: "get_row Comment (x ''parent_id'') db = Some r" "mc_post_id c = text_of (r ''post_id'')"
        using mirrored_comment [OF assms(1) m c] par by auto
      have "text_of (VJson (JStr y)) = y" by (simp add: text_of_def)
      then have "x ''parent_id'' \<noteq> x ''id''" using y par by metis
      then have "r ''post_id'' = x ''post_id''" using safe new r(1) by (simp add: graph_safe_def)
      with r(2) show ?thesis by simp
    qed
    then show ?thesis using Some by (auto simp: same_post_parent_def split: option.split)
  qed
  have run: "on_upsert Comment x mr = snd (insert_comment (text_of (x ''id'')) (text_of (x ''post_id''))
      (opt_text (x ''parent_id'')) (text_of (x ''author_id'')) mr)"
    using fresh by simp
  have "safe_id (text_of (x ''id''))" using safe by (simp add: graph_safe_def)
  then show ?thesis
    unfolding run using m insert_comment_tables [OF fresh a p q] mr_step.comment [OF _ post]
    by (simp add: mirrors_def db' set_rows_def tbl_insert_def comment_cols_def)
qed

lemma insert_agent_sim:
  assumes "db_ok db" and m: "mirrors db mr" and v: "row_violation Agent x = None"
    and new: "get_row Agent (x ''id'') db = None"
    and db': "db' = set_rows Agent (tbl_insert x (entity_rows db Agent)) db"
    and safe: "safe_id (text_of (x ''id''))"
  shows "mirrors db' (on_upsert Agent x mr) \<and> mr_step mr (on_upsert Agent x mr)"
proof -
  have "text_of (x ''id'') \<notin> set (mr_agents mr)"
    using new_id [where x = x, OF new id_text [OF v]] mirrors_lookup(1) [OF assms(1) m] by blast
  then show ?thesis
    using m insert_agent_tables mr_step.agent [OF safe]
    by (simp add: mirrors_def db' set_rows_def tbl_insert_def agent_cols_def)
qed

lemma insert_submolt_sim:
  assumes "db_ok db" and m: "mirrors db mr" and v: "row_violation Submolt x = None"
    and new: "get_row Submolt (x ''id'') db = None"
    and db': "db' = set_rows Submolt (tbl_insert x (entity_rows db Submolt)) db"
  shows "mirrors db' (on_upsert Submolt x mr) \<and> mr_step mr (on_upsert Submolt x mr)"
proof -
  have fresh: "text_of (x ''id'') \<notin> fst ` set (mr_submolts mr)"
    using new_id [where x = x, OF new id_text [OF v]] mirrors_lookup(2) [OF assms(1) m] by blast
  have "mr_step mr (on_upsert Submolt x mr)" using mr_step.submolt [OF fresh] fresh by simp
  moreover have "mirrors db' (on_upsert Submolt x mr)"
    using m fresh by (simp add: mirrors_def db' set_rows_def tbl_insert_def submolt_cols_def)
  ultimately show ?thesis by simp
qed

lemmas insert_sims = insert_agent_sim insert_submolt_sim insert_post_sim insert_comment_sim

lemma conflict_sim:
  assumes ok: "db_ok db" and m: "mirrors db mr" and v: "row_violation e x = None"
    and old: "get_row e (x ''id'') db = Some old"
  shows "(on_upsert e x mr = mr \<or> mr_step mr (on_upsert e x mr)) \<and> same_tables (on_upsert e x mr) mr"
proof -
  note look = mirrors_lookup [OF ok m, of "text_of (x ''id'')"]
  have "row_exists e (VJson (JStr (text_of (x ''id'')))) db"
    using old id_text [OF v] by (metis get_row_def option.distinct(1) row_exists_iff tbl_get_None_iff)
  then show ?thesis
    using look mr_step.again bump_same_tables
    by (cases e) (auto simp: insert_agent_def author_id_ticker_trigger_def same_tables_def)
qed

lemma upsert_sim:
  assumes ok: "db_ok db" and m: "mirrors db mr"
    and run: "enrichment_upsert e cols auth now vals db = (Inr (), db')"
    and safe: "graph_safe e (row_of now e vals) db"
  shows "mirrors db' (on_upsert e (row_of now e vals) mr) \<and> mr_step\<^sup>*\<^sup>* mr (on_upsert e (row_of now e vals) mr)"
proof (rule upsert_Inr [OF run])
  let ?x = "row_of now e vals"
  assume new: "get_row e (?x ''id'') db = None" and db': "db' = set_rows e (tbl_insert ?x (entity_rows db e)) db"
    and v: "row_violation e ?x = None" and fk: "\<not> fk_violation e ?x db'"
  have i: "safe_id (text_of (?x ''id''))" using safe by (simp add: graph_safe_def)
  have "mirrors db' (on_upsert e ?x mr) \<and> mr_step mr (on_upsert e ?x mr)"
  proof (cases e)
    case Agent
    from insert_agent_sim [OF ok m v [unfolded Agent] new [unfolded Agent] db' [unfolded Agent] i [unfolded Agent]]
    show ?thesis by (simp only: Agent)
  next
    case Submolt
    from insert_submolt_sim [OF ok m v [unfolded Submolt] new [unfolded Submolt] db' [unfolded Submolt]]
    show ?thesis by (simp only: Submolt)
  next
    case Post
    from insert_post_sim [OF ok m v [unfolded Post] new [unfolded Post] db' [unfolded Post] fk [unfolded Post] i [unfolded Post]]
    show ?thesis by (simp only: Post)
  next
    case Comment
    from insert_comment_sim [OF ok m v [unfolded Comment] new [unfolded Comment] db' [unfolded Comment] fk [unfolded Comment]
        safe [unfolded Comment]]
    show ?thesis by (simp only: Comment)
  qed
  then show ?thesis by blast
next
  fix old
  let ?x = "row_of now e vals"
  assume old: "get_row e (?x ''id'') db = Some old"
    and db': "db' = set_rows e (tbl_update (\<lambda>r. r ''id'') (?x ''id'') (\<lambda>_. enrich e cols auth now ?x old) (entity_rows db e)) db"
    and v: "row_violation e ?x = None"
  have "list_all (\<lambda>c. ?x c = VNull \<or> ?x c = old c) (mirrored e)" using safe old by (simp add: graph_safe_def)
  then have "mirrors db' mr" unfolding db' by (rule update_mirrors [OF ok m old])
  then show ?thesis
    using conflict_sim [OF ok m v old] mirrors_same_tables [of "on_upsert e ?x mr" mr db'] by auto
qed

section \<open>The graph of the crawled tables\<close>

text \<open>The tables as the crawler has them, without the tickers.\<close>

definition crawled_tables :: "crawl_db \<Rightarrow> mr_db" where
  "crawled_tables db =
     \<lparr>mr_agents = map agent_cols (entity_rows db Agent),
      mr_submolts = map submolt_cols (entity_rows db Submolt),
      mr_posts = map (\<lambda>r. case post_cols r of (i, s, a) \<Rightarrow>
        \<lparr>mp_id = i, mp_submolt_id = s, mp_author_id = a, mp_ticker = 0\<rparr>) (entity_rows db Post),
      mr_comments = map (\<lambda>r. case comment_cols r of (i, p, q, a) \<Rightarrow>
        \<lparr>mc_id = i, mc_post_id = p, mc_parent_id = q, mc_author_id = a, mc_ticker = 0\<rparr>) (entity_rows db Comment),
      mr_subscribe = [], user_vsids = Map.empty, mr_trace = []\<rparr>"

definition without_tickers :: "mr_db \<Rightarrow> mr_db" where
  "without_tickers mr = mr\<lparr>mr_posts := map (\<lambda>p. p\<lparr>mp_ticker := 0\<rparr>) (mr_posts mr),
     mr_comments := map (\<lambda>c. c\<lparr>mc_ticker := 0\<rparr>) (mr_comments mr), user_vsids := Map.empty, mr_trace := []\<rparr>"

lemma find_map_same: "(\<And>x. P (f x) = P x) \<Longrightarrow> find P (map f xs) = map_option f (find P xs)"
  by (induction xs) auto

lemma without_tickers_finds:
  "find_post i (without_tickers mr) = map_option (\<lambda>p. p\<lparr>mp_ticker := 0\<rparr>) (find_post i mr)"
  "find_comment i (without_tickers mr) = map_option (\<lambda>c. c\<lparr>mc_ticker := 0\<rparr>) (find_comment i mr)"
  by (simp_all add: without_tickers_def find_post_def find_comment_def find_map_same)

lemma without_tickers_count:
  assumes "\<And>c. P (c\<lparr>mc_ticker := 0\<rparr>) = P c"
  shows "count_comments_of P e (without_tickers mr) = count_comments_of P e mr"
  using assms by (simp add: count_comments_of_def without_tickers_def filter_map o_def)

lemma expected_without_tickers: "expected (without_tickers mr) m n b = expected mr m n b"
proof -
  have sub: "mr_subscribe (without_tickers mr) = mr_subscribe mr" "mr_submolts (without_tickers mr) = mr_submolts mr"
    by (simp_all add: without_tickers_def)
  then have "mm_get_board x (without_tickers mr) = mm_get_board x mr" for x by (cases x) (simp_all add: mm_get_board_def)
  then have board: "post_board p (without_tickers mr) = post_board p mr" for p
    by (cases "find_post p mr") (simp_all add: post_board_def without_tickers_finds)
  show ?thesis
    by (cases m; cases n)
      (simp_all add: sub board without_tickers_finds comments_on_def replies_to_def without_tickers_count
        option.map_disc_iff split: option.split)
qed

lemma mirrors_crawled:
  assumes "mirrors db mr" and "mr_subscribe mr = []"
  shows "without_tickers mr = crawled_tables db"
proof -
  let ?pc = "\<lambda>p. (mp_id p, mp_submolt_id p, mp_author_id p)" and ?cc = "\<lambda>c. (mc_id c, mc_post_id c, mc_parent_id c, mc_author_id c)"
  let ?p = "\<lambda>(i, s, a). \<lparr>mp_id = i, mp_submolt_id = s, mp_author_id = a, mp_ticker = 0\<rparr>"
  let ?c = "\<lambda>(i, p, q, a). \<lparr>mc_id = i, mc_post_id = p, mc_parent_id = q, mc_author_id = a, mc_ticker = 0\<rparr>"
  have "map (\<lambda>p. p\<lparr>mp_ticker := 0\<rparr>) (mr_posts mr) = map ?p (map ?pc (mr_posts mr))" by simp
  also have "\<dots> = map ?p (map post_cols (entity_rows db Post))" using assms(1) by (simp only: mirrors_def)
  finally have posts: "map (\<lambda>p. p\<lparr>mp_ticker := 0\<rparr>) (mr_posts mr) = map (\<lambda>r. ?p (post_cols r)) (entity_rows db Post)" by (simp add: o_def)
  have "map (\<lambda>c. c\<lparr>mc_ticker := 0\<rparr>) (mr_comments mr) = map ?c (map ?cc (mr_comments mr))" by simp
  also have "\<dots> = map ?c (map comment_cols (entity_rows db Comment))" using assms(1) by (simp only: mirrors_def)
  finally have "map (\<lambda>c. c\<lparr>mc_ticker := 0\<rparr>) (mr_comments mr) = map (\<lambda>r. ?c (comment_cols r)) (entity_rows db Comment)" by (simp add: o_def)
  with posts assms show ?thesis by (simp add: without_tickers_def crawled_tables_def mirrors_def)
qed

lemma on_upsert_subscribe: "mr_subscribe (on_upsert e x mr) = mr_subscribe mr"
proof -
  have bump: "mr_subscribe (snd (bump_vsids u db)) = mr_subscribe db" for u db
    using bump_same_tables [of u db] by (simp add: same_tables_def)
  have agent: "mr_subscribe (snd (insert_agent i db)) = mr_subscribe db" for i db
    by (simp add: insert_agent_def on_mb_agent_created_def split: option.split)
  have post: "mr_subscribe (snd (insert_post i s a db)) = mr_subscribe db" for i s a db
    using bump [of a db] by (cases "bump_vsids a db") (simp add: insert_post_def Let_def)
  have comment: "mr_subscribe (snd (insert_comment i p q a db)) = mr_subscribe db" for i p q a db
    using bump [of a db] by (cases "bump_vsids a db") (simp add: insert_comment_def Let_def)
  show ?thesis by (cases e) (simp_all add: bump agent post comment)
qed

text \<open>
  The histories of the crawler's tables and of the triggers, side by side. An upsert that a constraint
  refuses raises, and its statement is undone with what its triggers did.
\<close>

inductive crawl_run :: "crawl_db \<Rightarrow> mr_db \<Rightarrow> bool" where
  crawl_start: "crawl_run empty_db mr_empty"
| crawl_upsert: "crawl_run db mr \<Longrightarrow> enrichment_upsert e cols auth now vals db = (Inr (), db') \<Longrightarrow>
    graph_safe e (row_of now e vals) db \<Longrightarrow> crawl_run db' (on_upsert e (row_of now e vals) mr)"
| crawl_refused: "crawl_run db mr \<Longrightarrow> enrichment_upsert e cols auth now vals db = (Inl err, db') \<Longrightarrow> crawl_run db' mr"

lemma empty_mirrors: "db_ok empty_db \<and> mirrors empty_db mr_empty"
  by (simp add: db_ok_def empty_db_def mirrors_def mr_empty_def)

lemma crawl_run_reach:
  "crawl_run db mr \<Longrightarrow> db_ok db \<and> mirrors db mr \<and> mr_step\<^sup>*\<^sup>* mr_empty mr \<and> mr_subscribe mr = []"
proof (induction rule: crawl_run.induct)
  case crawl_start
  then show ?case using empty_mirrors by (simp add: mr_empty_def)
next
  case (crawl_upsert db mr e cols auth now vals db')
  then have ih: "db_ok db" "mirrors db mr" "mr_step\<^sup>*\<^sup>* mr_empty mr" "mr_subscribe mr = []" by blast+
  have "db_ok db'" using upsert_db_ok [OF ih(1), of e cols auth now vals] crawl_upsert.hyps(2) by simp
  then show ?case
    using upsert_sim [OF ih(1,2) crawl_upsert.hyps(2,3)] ih(3,4) by (auto simp: on_upsert_subscribe)
next
  case (crawl_refused db mr e cols auth now vals err db')
  then show ?case using upsert_Inl by metis
qed

text \<open>C1: in every history of upserts that obeys the conditions of the graph, the edges that the triggers of \<open>ddl.py\<close> have
  recorded are those of the tables that the crawler has stored, read column by column: posts and comments with
  their authors, boards and counts of comments. An upsert that enriches a row that is already there, or that a
  constraint refuses, changes no edge of it.\<close>

theorem crawled_graph:
  assumes "crawl_run db mr" and "safe_node m" and "safe_node n"
  shows "edges_of (mr_trace mr) (node_name m, node_name n, b) = expected (crawled_tables db) m n b"
proof -
  note reach = crawl_run_reach [OF assms(1)]
  have "edges_of (mr_trace mr) (node_name m, node_name n, b) = expected (without_tickers mr) m n b"
    using reachable_inv [of mr] reach agreesD [OF _ assms(2,3)] by (simp add: mr_inv_def expected_without_tickers)
  with mirrors_crawled [of db mr] reach show ?thesis by simp
qed

text \<open>Two agents, a post of the first, a comment of the second and another crawl of the post.\<close>

definition ex_upserts :: "(entity \<times> colvals) list" where
  "ex_upserts =
     [(Agent, [(''id'', VJson (JStr ''1'')), (''name'', VJson (JStr ''Ann'')), (''raw_json'', VJson (JObj []))]),
      (Agent, [(''id'', VJson (JStr ''2'')), (''name'', VJson (JStr ''Bob'')), (''raw_json'', VJson (JObj []))]),
      (Post, [(''id'', VJson (JStr ''3'')), (''author_id'', VJson (JStr ''1'')), (''raw_json'', VJson (JObj []))]),
      (Comment, [(''id'', VJson (JStr ''4'')), (''post_id'', VJson (JStr ''3'')), (''author_id'', VJson (JStr ''2'')),
         (''content'', VJson (JStr ''hi'')), (''raw_json'', VJson (JObj []))]),
      (Post, [(''id'', VJson (JStr ''3'')), (''author_id'', VJson (JStr ''1'')), (''title'', VJson (JStr ''t'')),
         (''raw_json'', VJson (JObj []))])]"

definition ex_crawl :: "nat \<Rightarrow> crawl_db \<times> mr_db" where
  "ex_crawl n = fold (\<lambda>(e, vals) (db, mr).
     (snd (enrichment_upsert e [''author_id'', ''title''] True 1 vals db), on_upsert e (row_of 1 e vals) mr))
     (take n ex_upserts) (empty_db, mr_empty)"

definition ex_crawl_ok :: "nat \<Rightarrow> bool" where
  "ex_crawl_ok n = (case (ex_crawl n, ex_upserts ! n) of ((db, mr), (e, vals)) \<Rightarrow>
     fst (enrichment_upsert e [''author_id'', ''title''] True 1 vals db) = Inr () \<and> graph_safe e (row_of 1 e vals) db)"

lemma ex_crawl_all_ok: "list_all ex_crawl_ok [0, 1, 2, 3, 4]"
  by code_simp

lemma ex_crawl_Suc: "n < length ex_upserts \<Longrightarrow> ex_crawl (Suc n) = (case (ex_crawl n, ex_upserts ! n) of ((db, mr), (e, vals)) \<Rightarrow>
     (snd (enrichment_upsert e [''author_id'', ''title''] True 1 vals db), on_upsert e (row_of 1 e vals) mr))"
  by (simp add: ex_crawl_def take_Suc_conv_app_nth split: prod.split)

lemma ex_crawl_step:
  assumes "n < length ex_upserts" and "ex_crawl_ok n" and "crawl_run (fst (ex_crawl n)) (snd (ex_crawl n))"
  shows "crawl_run (fst (ex_crawl (Suc n))) (snd (ex_crawl (Suc n)))"
proof -
  obtain db mr e vals where c: "ex_crawl n = (db, mr)" "ex_upserts ! n = (e, vals)" by (metis surj_pair)
  let ?run = "enrichment_upsert e [''author_id'', ''title''] True 1 vals db"
  have run: "?run = (Inr (), snd ?run)" and safe: "graph_safe e (row_of 1 e vals) db"
    using assms(2) by (simp_all add: ex_crawl_ok_def c prod_eq_iff)
  have "crawl_run db mr" using assms(3) by (simp add: c)
  from crawl_upsert [OF this run safe] show ?thesis by (simp add: ex_crawl_Suc [OF assms(1)] c)
qed

lemma ex_crawl_run: "crawl_run (fst (ex_crawl 5)) (snd (ex_crawl 5))"
proof -
  have "crawl_run (fst (ex_crawl 0)) (snd (ex_crawl 0))" by (simp add: ex_crawl_def crawl_start)
  from this [THEN ex_crawl_step [rotated 2], THEN ex_crawl_step [rotated 2], THEN ex_crawl_step [rotated 2],
      THEN ex_crawl_step [rotated 2], THEN ex_crawl_step [rotated 2]]
  show ?thesis using ex_crawl_all_ok by (simp add: ex_upserts_def eval_nat_numeral)
qed

lemma ex_crawl_edge:
  "expected (crawled_tables (fst (ex_crawl 5))) (UserN ''2'') (PostN ''3'') [] = Some 1"
  by code_simp

theorem crawled_graph_witness:
  "edges_of (mr_trace (snd (ex_crawl 5))) (node_name (UserN ''2''), node_name (PostN ''3''), []) = Some 1"
  using crawled_graph [OF ex_crawl_run, of "UserN ''2''" "PostN ''3''" "[]"] ex_crawl_edge by (simp add: safe_id_def)

end
