(* ===== verification/CrawlerLoops.thy ===== *)
theory CrawlerLoops
  imports Crawler
begin

text \<open>
  The loops of \<open>textlake/queue/worker.py\<close> and \<open>textlake/queue/scheduler.py\<close>: what one task of the crawler does over
  time, with its pauses, the failures of its own transactions and the commits of the other tasks in
  between. Every run of a loop is a sequence of the steps of theory Crawler, whose invariants it so keeps.
\<close>

section \<open>The loop of a worker\<close>

definition POLL_INTERVAL_MIN :: seconds where "POLL_INTERVAL_MIN = 1 / 2"
definition POLL_INTERVAL_MAX :: seconds where "POLL_INTERVAL_MAX = 5"

text \<open>
  What happens to a worker in one turn: whether the shutdown event is set when it looks, what the other tasks have
  committed meanwhile, the time, the tasks whose rows are locked, and the exceptions that its own transactions raise:
  the query, the lease, the deletion of a finished task, the record of a failure.
\<close>

record turn_input =
  ti_shutdown :: bool
  ti_others :: "crawl_db \<Rightarrow> crawl_db"
  ti_now :: seconds
  ti_locked :: "uuid \<Rightarrow> bool"
  ti_select_fails :: bool
  ti_commit_fails :: bool
  ti_delete_error :: "py_exn option"
  ti_record_fails :: bool

text \<open>After the turn: the pause, if any, or the end of the loop by a cancellation.\<close>

datatype turn_end = NextTurn "seconds option" | LoopCancelled

text \<open>The two statements under one \<open>try\<close>: a deletion that raises is handled as a failure of the task.\<close>

definition task_outcome :: "unit result \<Rightarrow> py_exn option \<Rightarrow> unit result" where
  "task_outcome outcome delete_error =
     (case outcome of
        Inl e \<Rightarrow> Inl e
      | Inr _ \<Rightarrow> (case delete_error of None \<Rightarrow> Inr () | Some e \<Rightarrow> Inl e))"

definition run_task ::
  "(py_exn \<Rightarrow> string) \<Rightarrow> turn_input \<Rightarrow> handler \<Rightarrow> CrawlTask \<Rightarrow> crawl_db \<Rightarrow> turn_end \<times> crawl_db" where
  "run_task exn_str ti h t db =
     (let (result, db1) = run_handler h (py_or (ct_params t) (JObj [])) db;
          outcome = task_outcome result (ti_delete_error ti)
      in if outcome = Inl CancelledError then (LoopCancelled, db1)
         else if outcome \<noteq> Inr () \<and> ti_record_fails ti then (NextTurn (Some 1), db1)
         else (NextTurn None, finalize exn_str (ti_now ti) (ct_id t) outcome db1))"

definition worker_body ::
  "(string \<Rightarrow> handler option) \<Rightarrow> (py_exn \<Rightarrow> string) \<Rightarrow> string \<Rightarrow> turn_input \<Rightarrow> seconds \<times> crawl_db
   \<Rightarrow> turn_end \<times> seconds \<times> crawl_db" where
  "worker_body handlers exn_str worker_id ti = (\<lambda>(poll_interval, db).
     if ti_select_fails ti then (NextTurn (Some 1), poll_interval, db)
     else
       (case claim_task (ti_locked ti) (ti_now ti) worker_id db of
          (None, db1) \<Rightarrow>
            if ti_commit_fails ti then (NextTurn (Some 1), poll_interval, db)
            else let pause = min (poll_interval * (6 / 5)) POLL_INTERVAL_MAX in (NextTurn (Some pause), pause, db1)
        | (Some t, db1) \<Rightarrow>
            if ti_commit_fails ti then (NextTurn (Some 1), POLL_INTERVAL_MIN, db)
            else
              (case handlers (ct_kind t) of
                 None \<Rightarrow>
                   if ti_delete_error ti = Some CancelledError then (LoopCancelled, POLL_INTERVAL_MIN, db1)
                   else if ti_delete_error ti \<noteq> None then (NextTurn (Some 1), POLL_INTERVAL_MIN, db1)
                   else (NextTurn None, POLL_INTERVAL_MIN, delete_task (ct_id t) db1)
               | Some h \<Rightarrow>
                   let (next_turn, db2) = run_task exn_str ti h t db1 in (next_turn, POLL_INTERVAL_MIN, db2))))"

fun worker_turns ::
  "(string \<Rightarrow> handler option) \<Rightarrow> (py_exn \<Rightarrow> string) \<Rightarrow> string \<Rightarrow> turn_input list \<Rightarrow> seconds \<times> crawl_db
   \<Rightarrow> seconds list \<times> crawl_db" where
  "worker_turns handlers exn_str worker_id [] s = ([], snd s)"
| "worker_turns handlers exn_str worker_id (ti # tis) s =
     (if ti_shutdown ti then ([], snd s)
      else
        (case worker_body handlers exn_str worker_id ti (fst s, ti_others ti (snd s)) of
           (LoopCancelled, s1) \<Rightarrow> ([], snd s1)
         | (NextTurn pause, s1) \<Rightarrow>
             let (pauses, db) = worker_turns handlers exn_str worker_id tis s1
             in (case pause of None \<Rightarrow> pauses | Some p \<Rightarrow> p # pauses, db)))"

text \<open>The pauses of a run and the database at its end.\<close>

definition worker_loop ::
  "(string \<Rightarrow> handler option) \<Rightarrow> (py_exn \<Rightarrow> string) \<Rightarrow> string \<Rightarrow> turn_input list \<Rightarrow> crawl_db
   \<Rightarrow> seconds list \<times> crawl_db" where
  "worker_loop handlers exn_str worker_id tis db =
     worker_turns handlers exn_str worker_id tis (POLL_INTERVAL_MIN, db)"

section \<open>The loop of the scheduler\<close>

definition SCHEDULER_INTERVAL :: seconds where "SCHEDULER_INTERVAL = 30"

definition new_sched :: sched where
  "new_sched = \<lparr>last_list_submolts = None, last_poll_feed = Map.empty, last_prune = None, last_parked_recovery = None\<rparr>"

record sched_input =
  si_shutdown :: bool
  si_others :: "crawl_db \<Rightarrow> crawl_db"
  si_now :: seconds
  si_ids :: "string \<Rightarrow> uuid"
  si_commit_ok :: bool

text \<open>Every turn, also one that raised, is followed by the pause.\<close>

fun scheduler_loop :: "crawl_lib \<Rightarrow> sched_input list \<Rightarrow> sched \<times> crawl_db \<Rightarrow> seconds list \<times> sched \<times> crawl_db" where
  "scheduler_loop lib [] x = ([], x)"
| "scheduler_loop lib (si # sis) x =
     (if si_shutdown si then ([], x)
      else
        let y = scheduler_turn lib (si_now si) (si_ids si) (si_commit_ok si) (fst x) (si_others si (snd x));
            (pauses, z) = scheduler_loop lib sis y
        in (SCHEDULER_INTERVAL # pauses, z))"

section \<open>Loops are sequences of steps\<close>

lemma others_then_step:
  "crawler_step\<^sup>*\<^sup>* db (f db) \<Longrightarrow> crawler_step (f db) db' \<Longrightarrow> crawler_step\<^sup>*\<^sup>* db db'"
  by simp

lemma run_task_steps:
  assumes "get_handler env kind = Some h"
  shows "crawler_step\<^sup>*\<^sup>* db (snd (run_task exn_str ti h t db))"
proof -
  let ?p = "py_or (ct_params t) (JObj [])"
  have h: "crawler_step db (snd (run_handler h ?p db))" by (rule handle [OF assms])
  have "crawler_step\<^sup>*\<^sup>* db (finalize exn_str (ti_now ti) (ct_id t) outcome (snd (run_handler h ?p db)))" for outcome
    using h finish [of "snd (run_handler h ?p db)"] by (meson converse_rtranclp_into_rtranclp r_into_rtranclp)
  with h show ?thesis by (auto simp: run_task_def Let_def split: prod.splits)
qed

lemma worker_body_steps: "crawler_step\<^sup>*\<^sup>* db (snd (snd (worker_body (get_handler env) exn_str w ti (p, db))))"
proof (cases "claim_task (ti_locked ti) (ti_now ti) w db")
  case (Pair found db1)
  then have c: "crawler_step db db1" using claim [of db "ti_locked ti" "ti_now ti" w] by simp
  have t: "crawler_step\<^sup>*\<^sup>* db db2" if "get_handler env k = Some h" "run_task exn_str ti h t db1 = (e, db2)" for k h t e db2
    using run_task_steps [OF that(1), of db1 exn_str ti t] that(2) c by (simp add: converse_rtranclp_into_rtranclp)
  have d: "crawler_step\<^sup>*\<^sup>* db (delete_task i db1)" for i using c drop [of db1 i] by (meson converse_rtranclp_into_rtranclp r_into_rtranclp)
  show ?thesis
    using c d t by (cases found) (auto simp: worker_body_def Pair Let_def split: option.split prod.split)
qed

lemma worker_turns_steps:
  assumes "list_all (\<lambda>ti. \<forall>db. crawler_step\<^sup>*\<^sup>* db (ti_others ti db)) tis"
  shows "crawler_step\<^sup>*\<^sup>* (snd s) (snd (worker_turns (get_handler env) exn_str w tis s))"
  using assms
proof (induction tis arbitrary: s)
  case Nil
  then show ?case by simp
next
  case (Cons ti tis)
  let ?db = "ti_others ti (snd s)"
  obtain e s1 where b: "worker_body (get_handler env) exn_str w ti (fst s, ?db) = (e, s1)" by (metis surj_pair)
  have "crawler_step\<^sup>*\<^sup>* (snd s) ?db" using Cons.prems by simp
  moreover have "crawler_step\<^sup>*\<^sup>* ?db (snd s1)" using worker_body_steps [of ?db env exn_str w ti "fst s"] b by simp
  moreover have "crawler_step\<^sup>*\<^sup>* (snd s1) (snd (worker_turns (get_handler env) exn_str w tis s1))"
    using Cons by simp
  ultimately show ?case
    by (cases e) (auto simp: b split: prod.splits dest: rtranclp_trans)
qed

lemma scheduler_loop_steps:
  assumes "list_all (\<lambda>si. \<forall>db. crawler_step\<^sup>*\<^sup>* db (si_others si db)) sis"
  shows "crawler_step\<^sup>*\<^sup>* (snd x) (snd (snd (scheduler_loop lib sis x)))"
  using assms
proof (induction sis arbitrary: x)
  case Nil
  then show ?case by simp
next
  case (Cons si sis)
  let ?db = "si_others si (snd x)"
  let ?y = "scheduler_turn lib (si_now si) (si_ids si) (si_commit_ok si) (fst x) ?db"
  have "crawler_step\<^sup>*\<^sup>* (snd x) ?db" using Cons.prems by simp
  moreover have "crawler_step ?db (snd ?y)" by (rule schedule)
  moreover have "crawler_step\<^sup>*\<^sup>* (snd ?y) (snd (snd (scheduler_loop lib sis ?y)))" using Cons by simp
  ultimately show ?case by (auto simp: Let_def split: prod.splits)
qed

text \<open>The loops do no more than the steps. A run of a worker or of the scheduler, whatever fails in it and
  whatever the other tasks commit in between by steps of their own, leads to a database that a
  sequence of the crawler's steps leads to; from tables in order it so leads to tables in order.\<close>

theorem loops_refine_steps:
  assumes "list_all (\<lambda>ti. \<forall>db. crawler_step\<^sup>*\<^sup>* db (ti_others ti db)) tis"
    and "list_all (\<lambda>si. \<forall>db. crawler_step\<^sup>*\<^sup>* db (si_others si db)) sis"
    and "crawl_ok db"
  shows "crawler_step\<^sup>*\<^sup>* db (snd (worker_loop (get_handler env) exn_str w tis db))
    \<and> crawler_step\<^sup>*\<^sup>* db (snd (snd (scheduler_loop lib sis (new_sched, db))))
    \<and> crawl_ok (snd (worker_loop (get_handler env) exn_str w tis db))
    \<and> crawl_ok (snd (snd (scheduler_loop lib sis (new_sched, db))))"
  using worker_turns_steps [OF assms(1), of "(POLL_INTERVAL_MIN, db)" env exn_str w]
    scheduler_loop_steps [OF assms(2), of "(new_sched, db)" lib] ok_steps.steps_I assms(3)
  by (auto simp: worker_loop_def)

section \<open>The pauses of a worker without work\<close>

definition idle :: "turn_input \<Rightarrow> bool" where
  "idle ti \<longleftrightarrow> \<not> ti_shutdown ti \<and> \<not> ti_select_fails ti \<and> \<not> ti_commit_fails ti
     \<and> (\<forall>db. select_task (ti_locked ti) (ti_now ti) (crawl_tasks (ti_others ti db)) = None)"

lemma idle_body:
  "idle ti \<Longrightarrow> worker_body handlers exn_str w ti (p, ti_others ti db) =
     (NextTurn (Some (min (p * (6 / 5)) 5)), min (p * (6 / 5)) 5, ti_others ti db)"
  by (simp add: idle_def worker_body_def claim_task_def POLL_INTERVAL_MAX_def Let_def)

lemma capped_growth:
  assumes "0 \<le> (p::rat)"
  shows "min (min (p * (6 / 5)) 5 * (6 / 5) ^ k) 5 = min (p * (6 / 5) ^ Suc k) 5"
proof (cases "5 \<le> p * (6 / 5)")
  case True
  have one: "(1::rat) \<le> (6 / 5) ^ k" by (rule one_le_power) simp
  have "5 * 1 \<le> p * (6 / 5) * (6 / 5) ^ k" using True one by (intro mult_mono) simp_all
  moreover have "5 \<le> 5 * (6 / 5 :: rat) ^ k" using one by simp
  moreover have "min (p * (6 / 5)) 5 = 5" using True by simp
  ultimately show ?thesis by (simp only: power_Suc mult.assoc [symmetric] min.absorb2 mult_1_right)
next
  case False
  then have "min (p * (6 / 5)) 5 = p * (6 / 5)" by simp
  then show ?thesis by (simp only: power_Suc mult.assoc)
qed

lemma idle_turns:
  assumes "list_all idle tis" and "0 \<le> p"
  shows "fst (worker_turns handlers exn_str w tis (p, db)) = map (\<lambda>k. min (p * (6 / 5) ^ Suc k) 5) [0..<length tis]"
  using assms
proof (induction tis arbitrary: p db)
  case Nil
  then show ?case by simp
next
  case (Cons ti tis)
  let ?q = "min (p * (6 / 5)) 5"
  have "fst (worker_turns handlers exn_str w (ti # tis) (p, db)) =
      ?q # fst (worker_turns handlers exn_str w tis (?q, ti_others ti db))"
    using Cons.prems idle_body [of ti handlers exn_str w p db] by (simp add: idle_def split: prod.split)
  also have "\<dots> = ?q # map (\<lambda>k. min (?q * (6 / 5) ^ Suc k) 5) [0..<length tis]"
    using Cons by simp
  also have "\<dots> = map (\<lambda>k. min (p * (6 / 5) ^ Suc k) 5) [0..<length (ti # tis)]"
    unfolding capped_growth [OF Cons.prems(2)] by (simp add: map_upt_Suc del: upt_Suc)
  finally show ?case .
qed

lemma worker_pauses_step:
  assumes "3 / 5 \<le> p * (6 / 5)"
  shows "case worker_body handlers exn_str w ti (p, db) of (e, q, _) \<Rightarrow>
    1 / 2 \<le> q \<and> (\<forall>d. e = NextTurn (Some d) \<longrightarrow> 3 / 5 \<le> d \<and> d \<le> 5)"
  using assms
  by (auto simp: worker_body_def run_task_def POLL_INTERVAL_MIN_def POLL_INTERVAL_MAX_def Let_def
      split: prod.split option.split)

lemma worker_turns_pauses:
  "1 / 2 \<le> fst s \<Longrightarrow> list_all (\<lambda>d. 3 / 5 \<le> d \<and> d \<le> 5) (fst (worker_turns handlers exn_str w tis s))"
proof (induction tis arbitrary: s)
  case Nil
  then show ?case by simp
next
  case (Cons ti tis)
  obtain e q db where b: "worker_body handlers exn_str w ti (fst s, ti_others ti (snd s)) = (e, q, db)"
    by (metis surj_pair)
  then have q: "1 / 2 \<le> q" "\<And>d. e = NextTurn (Some d) \<Longrightarrow> 3 / 5 \<le> d \<and> d \<le> 5"
    using worker_pauses_step [of "fst s" handlers exn_str w ti "ti_others ti (snd s)"] Cons.prems by simp_all
  have "list_all (\<lambda>d. 3 / 5 \<le> d \<and> d \<le> 5) (fst (worker_turns handlers exn_str w tis (q, db)))"
    using Cons.IH q(1) by simp
  with q(2) show ?case by (cases e) (auto simp: b split: prod.splits option.split)
qed

text \<open>The pauses of a worker. A worker that finds nothing pauses 0.6 seconds, then 1.2 times as long each time, and
  never longer than 5 seconds.\<close>

theorem idle_pauses:
  assumes "list_all idle tis"
  shows "fst (worker_loop handlers exn_str w tis db) = map (\<lambda>k. min (1 / 2 * (6 / 5) ^ Suc k) 5) [0..<length tis]"
  unfolding worker_loop_def POLL_INTERVAL_MIN_def using idle_turns [OF assms] by simp

text \<open>Whatever happens in its turns, no pause is shorter than 0.6 or longer than 5 seconds.\<close>

lemma worker_pauses_bounded: "list_all (\<lambda>d. 3 / 5 \<le> d \<and> d \<le> 5) (fst (worker_loop handlers exn_str w tis db))"
  unfolding worker_loop_def by (rule worker_turns_pauses) (simp add: POLL_INTERVAL_MIN_def)

section \<open>Concrete runs\<close>

text \<open>While the worker waits another one lists the submolts; then all rows are locked.\<close>

definition ex_turn :: "bool \<Rightarrow> turn_input" where
  "ex_turn busy = \<lparr>ti_shutdown = False,
     ti_others = (\<lambda>db. if busy then snd (run_handler (handle_list_submolts ex_list_env) (JObj []) db) else db),
     ti_now = 10, ti_locked = (\<lambda>_. \<not> busy), ti_select_fails = False, ti_commit_fails = False,
     ti_delete_error = None, ti_record_fails = False\<rparr>"

definition ex_sched :: sched_input where
  "ex_sched = \<lparr>si_shutdown = False, si_others = (\<lambda>db. db), si_now = 20, si_ids = (\<lambda>_. 7), si_commit_ok = True\<rparr>"

theorem loops_refine_steps_witness:
  "crawl_ok (snd (worker_loop (get_handler ex_list_env) (\<lambda>_. ''error'') ''w-0'' [ex_turn True, ex_turn False] empty_db))
   \<and> crawl_ok (snd (snd (scheduler_loop ex_lib [ex_sched] (new_sched, empty_db))))"
proof -
  have "get_handler ex_list_env ''list_submolts'' = Some (handle_list_submolts ex_list_env)"
    by (simp add: get_handler_def registry_def)
  then have "crawler_step db (snd (run_handler (handle_list_submolts ex_list_env) (JObj []) db))" for db
    by (rule crawler_step.handle)
  then have t: "list_all (\<lambda>ti. \<forall>db. crawler_step\<^sup>*\<^sup>* db (ti_others ti db)) [ex_turn True, ex_turn False]"
    by (simp add: ex_turn_def r_into_rtranclp)
  have s: "list_all (\<lambda>si. \<forall>db. crawler_step\<^sup>*\<^sup>* db (si_others si db)) [ex_sched]" by (simp add: ex_sched_def)
  from loops_refine_steps [OF t s empty_db_ok(1)] show ?thesis by blast
qed

theorem idle_pauses_witness:
  "fst (worker_loop (get_handler ex_list_env) (\<lambda>_. ''error'') ''w-0'' (replicate 3 (ex_turn False)) empty_db)
   = [3 / 5, 18 / 25, 108 / 125]"
proof -
  have "list_all idle (replicate 3 (ex_turn False))"
    by (simp add: idle_def ex_turn_def select_task_def eval_nat_numeral)
  from idle_pauses [OF this] show ?thesis by (simp add: eval_nat_numeral)
qed

end
