(* ===== verification/CrawlerProcess.thy ===== *)
theory CrawlerProcess
  imports CrawlerLoops Config
begin

text \<open>
  The process of the crawler: \<open>textlake/database.py\<close>, the life of the HTTP client, and \<open>textlake/__main__.py\<close>, which
  creates the database and its tables, starts the scheduler and the workers of theory CrawlerLoops, and
  closes what it has opened. What PostgreSQL, SQLAlchemy and httpx answer are parameters.
\<close>

section \<open>What the process holds\<close>

record pg_login =
  lg_host :: string
  lg_port :: int
  lg_user :: string
  lg_password :: "string option"
  lg_database :: string

record engine_options =
  eo_url :: string
  eo_echo :: bool
  eo_pool_size :: int
  eo_max_overflow :: int
  eo_expire_on_commit :: bool
  eo_autoflush :: bool

record client_options =
  co_base_url :: string
  co_timeout :: rat
  co_headers :: "(string \<times> string) list"

text \<open>The calls out of the process; \<open>'c\<close> is the state of the database server.\<close>

record 'c server_calls =
  sl_connect :: "pg_login \<Rightarrow> unit result"
  sl_datname :: "string \<Rightarrow> 'c \<Rightarrow> bool result"
  sl_execute :: "string \<Rightarrow> ('c, unit) action"
  sl_close :: "unit result"
  sl_create_engine :: "engine_options \<Rightarrow> unit result"
  sl_create_all :: "engine_options \<Rightarrow> ('c, unit) action"
  sl_dispose :: "unit result"
  sl_http_client :: "client_options \<Rightarrow> unit result"
  sl_aclose :: "unit result"

text \<open>
  The server and the connections, engines and clients that are open: a call that closes one and raises leaves it open.
\<close>

record 'c process =
  pr_catalog :: 'c
  pr_admin :: nat
  pr_engines :: nat
  pr_clients :: nat

definition on_catalog :: "('c, 'a) action \<Rightarrow> ('c process, 'a) action" where
  "on_catalog m s = (case m (pr_catalog s) of (r, c) \<Rightarrow> (r, s\<lparr>pr_catalog := c\<rparr>))"

definition in_transaction :: "('c, 'a) action \<Rightarrow> ('c, 'a) action" where
  "in_transaction m c = (case m c of (Inl e, _) \<Rightarrow> (Inl e, c) | (Inr x, c') \<Rightarrow> (Inr x, c'))"

text \<open>\<open>try: ... finally: ...\<close>, where an exception of the clean-up takes the place of the outcome.\<close>

definition try_finally :: "('s, 'a) action \<Rightarrow> ('s, unit) action \<Rightarrow> ('s, 'a) action" where
  "try_finally body cleanup s =
     (let (r, s1) = body s; (q, s2) = cleanup s1 in (case q of Inl e \<Rightarrow> Inl e | Inr _ \<Rightarrow> r, s2))"

section \<open>The database\<close>

definition admin_login :: "CrawlerSettings \<Rightarrow> pg_login" where
  "admin_login st =
     \<lparr>lg_host = cs_postgres_host st, lg_port = cs_postgres_port st, lg_user = cs_postgres_user st,
      lg_password = (if cs_postgres_password st = [] then None else Some (cs_postgres_password st)),
      lg_database = ''postgres''\<rparr>"

definition create_database :: "string \<Rightarrow> string" where
  "create_database name = ''CREATE DATABASE '' @ [CHR 0x22] @ name @ [CHR 0x22]"

definition open_admin :: "'c server_calls \<Rightarrow> CrawlerSettings \<Rightarrow> ('c process, unit) action" where
  "open_admin lib st s =
     (case sl_connect lib (admin_login st) of
        Inl e \<Rightarrow> (Inl e, s) | Inr _ \<Rightarrow> (Inr (), s\<lparr>pr_admin := pr_admin s + 1\<rparr>))"

definition close_admin :: "'c server_calls \<Rightarrow> ('c process, unit) action" where
  "close_admin lib s =
     (case sl_close lib of Inl e \<Rightarrow> (Inl e, s) | Inr _ \<Rightarrow> (Inr (), s\<lparr>pr_admin := pr_admin s - 1\<rparr>))"

definition ensure_database :: "'c server_calls \<Rightarrow> CrawlerSettings \<Rightarrow> ('c process, unit) action" where
  "ensure_database lib st =
     bind_act (open_admin lib st) (\<lambda>_.
     try_finally
       (bind_act (on_catalog (\<lambda>c. (sl_datname lib (cs_postgres_db st) c, c))) (\<lambda>found.
        when_act (\<not> found) (on_catalog (sl_execute lib (create_database (cs_postgres_db st))))))
       (close_admin lib))"

definition init_engine :: "'c server_calls \<Rightarrow> CrawlerSettings \<Rightarrow> ('c process, engine_options) action" where
  "init_engine lib st s =
     (let options = \<lparr>eo_url = crawler_database_url st, eo_echo = False, eo_pool_size = mb_concurrency st + 2,
            eo_max_overflow = 5, eo_expire_on_commit = False, eo_autoflush = False\<rparr>
      in case sl_create_engine lib options of
           Inl e \<Rightarrow> (Inl e, s) | Inr _ \<Rightarrow> (Inr options, s\<lparr>pr_engines := pr_engines s + 1\<rparr>))"

definition create_schema :: "'c server_calls \<Rightarrow> engine_options \<Rightarrow> ('c process, unit) action" where
  "create_schema lib options = on_catalog (in_transaction (sl_create_all lib options))"

definition dispose_engine :: "'c server_calls \<Rightarrow> ('c process, unit) action" where
  "dispose_engine lib s =
     (case sl_dispose lib of Inl e \<Rightarrow> (Inl e, s) | Inr _ \<Rightarrow> (Inr (), s\<lparr>pr_engines := pr_engines s - 1\<rparr>))"

section \<open>The client\<close>

definition client_options_of :: "CrawlerSettings \<Rightarrow> client_options" where
  "client_options_of st =
     \<lparr>co_base_url = py_rstrip_chars (mb_api_base st) ''/'', co_timeout = mb_http_timeout st,
      co_headers = [(''Authorization'', ''Bearer '' @ mb_crawler_api_key st), (''Content-Type'', ''application/json'')]\<rparr>"

definition client_enter :: "'c server_calls \<Rightarrow> CrawlerSettings \<Rightarrow> ('c process, unit) action" where
  "client_enter lib st s =
     (case sl_http_client lib (client_options_of st) of
        Inl e \<Rightarrow> (Inl e, s) | Inr _ \<Rightarrow> (Inr (), s\<lparr>pr_clients := pr_clients s + 1\<rparr>))"

text \<open>\<open>_client\<close> is set when the block is left; it stays set when \<open>aclose\<close> raises.\<close>

definition client_exit :: "'c server_calls \<Rightarrow> ('c process, unit) action" where
  "client_exit lib s =
     (case sl_aclose lib of Inl e \<Rightarrow> (Inl e, s) | Inr _ \<Rightarrow> (Inr (), s\<lparr>pr_clients := pr_clients s - 1\<rparr>))"

section \<open>The run\<close>

datatype crawler_job = SchedulerJob | WorkerJob string

definition crawler_jobs :: "CrawlerSettings \<Rightarrow> crawler_job list" where
  "crawler_jobs st = SchedulerJob # map (\<lambda>i. WorkerJob (''w-'' @ nat_str i)) [0..<nat (mb_concurrency st)]"

text \<open>\<open>task_group\<close> is what the tasks of the group do together to the database, and how the group ends.\<close>

definition run_jobs ::
  "'c server_calls \<Rightarrow> CrawlerSettings \<Rightarrow> (crawler_job list \<Rightarrow> ('c, unit) action) \<Rightarrow> ('c process, unit) action" where
  "run_jobs lib st task_group =
     bind_act (client_enter lib st) (\<lambda>_. try_finally (on_catalog (task_group (crawler_jobs st))) (client_exit lib))"

definition crawler_run ::
  "'c server_calls \<Rightarrow> CrawlerSettings result \<Rightarrow> (crawler_job list \<Rightarrow> ('c, unit) action) \<Rightarrow> ('c process, unit) action" where
  "crawler_run lib settings task_group =
     bind_act (of_result settings) (\<lambda>st.
     bind_act (ensure_database lib st) (\<lambda>_.
     bind_act (init_engine lib st) (\<lambda>options.
     bind_act (create_schema lib options) (\<lambda>_.
     try_finally (run_jobs lib st task_group) (dispose_engine lib)))))"

section \<open>What was opened is closed\<close>

text \<open>What a part of the run does to the open connections, clients and engines, when the calls that close them return.\<close>

definition leaves_open :: "'c server_calls \<Rightarrow> nat \<times> nat \<times> nat \<Rightarrow> 'c process \<Rightarrow> bool" where
  "leaves_open lib = (\<lambda>(admin, engines, clients) s.
     (sl_close lib = Inr () \<longrightarrow> pr_admin s = admin) \<and> (sl_dispose lib = Inr () \<longrightarrow> pr_engines s = engines)
     \<and> (sl_aclose lib = Inr () \<longrightarrow> pr_clients s = clients))"

definition handles :: "'c process \<Rightarrow> nat \<times> nat \<times> nat" where
  "handles s = (pr_admin s, pr_engines s, pr_clients s)"

lemma leaves_open_self: "leaves_open lib (handles s) s"
  by (simp add: leaves_open_def handles_def)

lemma handles_catalog [simp]:
  "pr_admin (snd (on_catalog m s)) = pr_admin s" "pr_engines (snd (on_catalog m s)) = pr_engines s"
  "pr_clients (snd (on_catalog m s)) = pr_clients s" "handles (snd (on_catalog m s)) = handles s"
  by (simp_all add: on_catalog_def handles_def split: prod.split)

lemma try_finally_snd: "snd (try_finally body cleanup s) = snd (cleanup (snd (body s)))"
  by (simp add: try_finally_def split: prod.split)

lemma bind_act_snd: "snd (bind_act m f s) = (case m s of (Inl e, s1) \<Rightarrow> s1 | (Inr x, s1) \<Rightarrow> snd (f x s1))"
  by (simp add: bind_act_def split: prod.split sum.split)

lemma ensure_database_handles:
  assumes "leaves_open lib (a, e, c) s"
  shows "leaves_open lib (a, e, c) (snd (ensure_database lib st s))"
proof -
  let ?body = "bind_act (on_catalog (\<lambda>c. (sl_datname lib (cs_postgres_db st) c, c))) (\<lambda>found.
        when_act (\<not> found) (on_catalog (sl_execute lib (create_database (cs_postgres_db st)))))"
  have "preserves (\<lambda>t. handles t = h) ?body" for h
    by (intro preserves_bind preserves_when) (simp_all add: preserves_def)
  then have "handles (snd (?body t)) = handles t" for t by (simp add: preserves_def)
  then show ?thesis
    using assms
    by (simp add: ensure_database_def bind_act_snd open_admin_def try_finally_snd close_admin_def split: sum.split)
       (auto simp: handles_def leaves_open_def)
qed

lemma run_jobs_handles:
  "leaves_open lib (a, e, c) s \<Longrightarrow> leaves_open lib (a, e, c) (snd (run_jobs lib st task_group s))"
  by (auto simp: run_jobs_def bind_act_snd client_enter_def try_finally_snd client_exit_def leaves_open_def split: sum.split)

text \<open>The one way to leave without disposing of the engine: the tables are created before the \<open>try\<close>.\<close>

definition engine_left :: "'c server_calls \<Rightarrow> CrawlerSettings result \<Rightarrow> 'c process \<Rightarrow> bool" where
  "engine_left lib settings s =
     (case settings of
        Inl _ \<Rightarrow> False
      | Inr st \<Rightarrow>
          (case ensure_database lib st s of
             (Inl _, _) \<Rightarrow> False
           | (Inr _, s1) \<Rightarrow>
               (case init_engine lib st s1 of
                  (Inl _, _) \<Rightarrow> False
                | (Inr options, s2) \<Rightarrow> isl (fst (create_schema lib options s2)))))"

text \<open>C24: the crawler closes what it opens. However the run ends - an exception of any call, of the group of
  tasks, of another clean-up, or none - the connection to \<open>postgres\<close> and the HTTP client have been closed and the engine
  disposed of, unless the very call that closes it raised or, for the engine, creating the tables raised.\<close>

theorem crawler_run_closes:
  assumes "crawler_run lib settings task_group s = (r, s')"
  shows "(sl_close lib = Inr () \<longrightarrow> pr_admin s' = pr_admin s) \<and> (sl_aclose lib = Inr () \<longrightarrow> pr_clients s' = pr_clients s) \<and>
    (sl_dispose lib = Inr () \<longrightarrow> pr_engines s' = pr_engines s + (if engine_left lib settings s then 1 else 0))"
proof -
  have "leaves_open lib (pr_admin s, pr_engines s + (if engine_left lib settings s then 1 else 0), pr_clients s)
      (snd (crawler_run lib settings task_group s))"
  proof (cases settings)
    case (Inl e)
    then show ?thesis by (simp add: crawler_run_def engine_left_def leaves_open_def)
  next
    case (Inr st)
    obtain r1 s1 where e: "ensure_database lib st s = (r1, s1)" by force
    have h1: "leaves_open lib (pr_admin s, pr_engines s, pr_clients s) s1"
      using ensure_database_handles [OF leaves_open_self [of lib s, unfolded handles_def], of st] e by simp
    obtain r2 s2 where i: "init_engine lib st s1 = (r2, s2)" by force
    have h2: "handles s2 = (pr_admin s1, pr_engines s1 + (if isl r2 then 0 else 1), pr_clients s1)"
      using i by (auto simp: init_engine_def Let_def handles_def split: sum.splits)
    note facts = crawler_run_def engine_left_def bind_act_snd Inr e i
    consider (none) x where "r1 = Inl x" | (no_engine) x where "r1 = Inr ()" "r2 = Inl x"
      | (engine) options where "r1 = Inr ()" "r2 = Inr options"
      by (metis (full_types) old.unit.exhaust sumE)
    then show ?thesis
    proof cases
      case none
      with h1 show ?thesis by (simp add: facts)
    next
      case no_engine
      with h1 h2 show ?thesis by (simp add: facts leaves_open_def handles_def)
    next
      case (engine options)
      obtain r3 s3 where c: "create_schema lib options s2 = (r3, s3)" by force
      then have "handles s3 = handles s2" using handles_catalog(4) by (metis create_schema_def snd_conv)
      with h1 h2 engine have h3: "leaves_open lib (pr_admin s, pr_engines s + 1, pr_clients s) s3"
        by (simp add: leaves_open_def handles_def)
      show ?thesis
        using h3 run_jobs_handles [OF h3, of st task_group] engine
        by (cases r3) (auto simp: facts c try_finally_snd dispose_engine_def leaves_open_def split: sum.split)
    qed
  qed
  then show ?thesis using assms by (simp add: leaves_open_def)
qed

section \<open>The database is created once\<close>

lemma admin_database [simp]: "pr_catalog (s\<lparr>pr_admin := n\<rparr>) = pr_catalog s"
  by simp

lemma ensure_database_run:
  "ensure_database lib st s =
     (case sl_connect lib (admin_login st) of
        Inl e \<Rightarrow> (Inl e, s)
      | Inr _ \<Rightarrow>
          (case (case sl_datname lib (cs_postgres_db st) (pr_catalog s) of
                   Inl e \<Rightarrow> (Inl e, pr_catalog s)
                 | Inr found \<Rightarrow>
                     if found then (Inr (), pr_catalog s)
                     else sl_execute lib (create_database (cs_postgres_db st)) (pr_catalog s)) of
             (r, c) \<Rightarrow>
               (case sl_close lib of
                  Inl e \<Rightarrow> (Inl e, s\<lparr>pr_catalog := c, pr_admin := pr_admin s + 1\<rparr>) | Inr _ \<Rightarrow> (r, s\<lparr>pr_catalog := c\<rparr>))))"
  by (auto simp: ensure_database_def bind_act_def open_admin_def close_admin_def try_finally_def on_catalog_def when_act_def
      split: sum.split prod.split)


section \<open>The jobs\<close>

text \<open>The workers write different names into their leases.\<close>

lemma crawler_jobs_distinct: "distinct (crawler_jobs st) \<and> length (crawler_jobs st) = nat (mb_concurrency st) + 1"
  by (auto simp: crawler_jobs_def distinct_map inj_on_def nat_str_inj)

section \<open>A concrete server\<close>

definition ex_server :: "string list server_calls" where
  "ex_server = \<lparr>sl_connect = (\<lambda>_. Inr ()), sl_datname = (\<lambda>n c. Inr (create_database n \<in> set c)),
     sl_execute = (\<lambda>stmt c. if stmt \<in> set c then (Inl (DBAPIError ''already exists''), c) else (Inr (), stmt # c)),
     sl_close = Inr (), sl_create_engine = (\<lambda>_. Inr ()), sl_create_all = (\<lambda>_ c. (Inr (), c)), sl_dispose = Inr (),
     sl_http_client = (\<lambda>_. Inr ()), sl_aclose = Inr ()\<rparr>"

definition ex_process :: "string list process" where
  "ex_process = \<lparr>pr_catalog = [], pr_admin = 0, pr_engines = 0, pr_clients = 0\<rparr>"

text \<open>A run whose tasks raise, and in which the disposal raises, too.\<close>

theorem crawler_run_closes_witness:
  "handles (snd (crawler_run ex_server (Inr (default_crawler_settings ''key'')) (\<lambda>jobs c. (Inl RuntimeError, c)) ex_process))
     = (0, 0, 0) \<and>
   pr_clients (snd (crawler_run (ex_server\<lparr>sl_dispose := Inl TransportError\<rparr>) (Inr (default_crawler_settings ''key''))
      (\<lambda>jobs c. (Inl RuntimeError, c)) ex_process)) = 0"
proof -
  let ?st = "default_crawler_settings ''key''"
  have "\<not> isl (fst (create_schema ex_server options t))" for options t
    by (simp add: create_schema_def on_catalog_def in_transaction_def ex_server_def)
  then have "\<not> engine_left ex_server (Inr ?st) ex_process"
    by (auto simp: engine_left_def split: sum.splits prod.splits) (metis (full_types) old.unit.exhaust sumE)+
  then show ?thesis
    using crawler_run_closes [OF surjective_pairing, of ex_server "Inr ?st" "\<lambda>jobs c. (Inl RuntimeError, c)" ex_process]
      crawler_run_closes [OF surjective_pairing, of "ex_server\<lparr>sl_dispose := Inl TransportError\<rparr>" "Inr ?st"
        "\<lambda>jobs c. (Inl RuntimeError, c)" ex_process]
    by (simp add: handles_def ex_server_def ex_process_def)
qed


end
