(* ===== verification/TokenRaces.thy ===== *)
theory TokenRaces
  imports Tokens
begin

text \<open>
  Rotations that overlap. \<open>rotate_refresh_token\<close> of \<open>auth/tokens.py\<close> reads the row of the token, checks it, and only then
  writes; it takes no lock. PostgreSQL at its default level, READ COMMITTED, lets another transaction commit in
  between. This theory cuts the rotation at that point and runs two of them side by side.
\<close>

section \<open>The two halves\<close>

text \<open>What the checks have established: the identifier and the row that was read. Refusals are \<open>None\<close>.\<close>

definition rotate_read ::
  "argon2_lib \<Rightarrow> rotate_env \<Rightarrow> string \<Rightarrow> mm_db \<Rightarrow> (uuid \<times> MmRefreshToken) option" where
  "rotate_read ph env raw_token db =
     (case parse_raw_token raw_token of
        None \<Rightarrow> None
      | Some (token_id, secret) \<Rightarrow>
          (case get_refresh_token token_id db of
             None \<Rightarrow> None
           | Some row \<Rightarrow>
               if rt_revoked_at row = None \<and> re_check env < rt_expires_at row
                  \<and> verify_secret ph (rt_token_hash row) secret = Inr True
               then Some (token_id, row) else None))"

definition rotate_write ::
  "argon2_lib \<Rightarrow> Settings \<Rightarrow> rotate_env \<Rightarrow> uuid \<Rightarrow> MmRefreshToken \<Rightarrow> string option \<Rightarrow> string option
   \<Rightarrow> (mm_db, string \<times> MmAgent) action" where
  "rotate_write ph settings env token_id row user_agent ip db =
     (let db1 = set_revoked token_id (re_revoke env) db
      in case get_agent (rt_agent_id row) db1 of
           None \<Rightarrow> (Inl (HTTPException 401 ''Agent not found''), db1)
         | Some agent \<Rightarrow>
             bind_act
               (mint_refresh_token ph settings (re_mint env) (rt_agent_id row) user_agent ip (Some token_id))
               (\<lambda>new_raw. ret (new_raw, agent)) db1)"

text \<open>Without anything in between the halves are the rotation.\<close>

lemma rotate_halves:
  "rotate_read ph env raw db = Some (i, row) \<Longrightarrow>
   rotate_refresh_token ph settings env raw ua ip db = rotate_write ph settings env i row ua ip db"
  by (auto simp: rotate_read_def rotate_refresh_token_def rotate_write_def Let_def split: option.splits prod.splits if_splits)

lemma rotate_succeeds_iff:
  "(\<exists>new db'. rotate_refresh_token ph settings env raw ua ip db = (Inr new, db')) \<longleftrightarrow>
   (\<exists>i row new db'. rotate_read ph env raw db = Some (i, row) \<and> rotate_write ph settings env i row ua ip db = (Inr new, db'))"
proof
  assume "\<exists>new db'. rotate_refresh_token ph settings env raw ua ip db = (Inr new, db')"
  then obtain n a db' where run: "rotate_refresh_token ph settings env raw ua ip db = (Inr (n, a), db')" by auto
  show "\<exists>i row new db'. rotate_read ph env raw db = Some (i, row) \<and> rotate_write ph settings env i row ua ip db = (Inr new, db')"
  proof (rule rotate_InrD [OF run])
    fix i secret row
    assume "parse_raw_token raw = Some (i, secret)" "get_refresh_token i db = Some row" "rt_revoked_at row = None"
      "re_check env < rt_expires_at row" "verify_secret ph (rt_token_hash row) secret = Inr True"
    then have "rotate_read ph env raw db = Some (i, row)" by (simp add: rotate_read_def)
    then show ?thesis using rotate_halves [of ph env raw db i row settings ua ip] run by metis
  qed
next
  assume "\<exists>i row new db'. rotate_read ph env raw db = Some (i, row) \<and> rotate_write ph settings env i row ua ip db = (Inr new, db')"
  then show "\<exists>new db'. rotate_refresh_token ph settings env raw ua ip db = (Inr new, db')"
    using rotate_halves by metis
qed

section \<open>Two rotations of one token\<close>

lemma write_InrD:
  assumes "rotate_write ph settings env i row ua ip db = (Inr (new_raw, agent), db')"
  shows "get_agent (rt_agent_id row) db = Some agent"
    and "mint_refresh_token ph settings (re_mint env) (rt_agent_id row) ua ip (Some i) (set_revoked i (re_revoke env) db)
      = (Inr new_raw, db')"
  using assms
  by (auto simp: rotate_write_def Let_def bind_act_eq_Inr get_agent_def split: option.splits)

lemma make_room_not_full:
  "int (active_count a now db) < mm_refresh_max_active_per_agent settings \<Longrightarrow> make_room settings a now db = db"
  by (simp add: make_room_def)

text \<open>The constraints that the second row meets are those that the first has met.\<close>

lemma second_mint:
  assumes m: "mint_refresh_token ph settings e1 a ua ip (Some i) db = (Inr raw1, db1)"
    and row: "get_refresh_token i db2 \<noteq> None" and ag: "get_agent a db2 \<noteq> None"
    and fresh: "get_refresh_token (me_uuid e2) db2 = None"
    and hash: "\<And>salt s. length (hash_secret ph salt s) \<le> 255"
    and room: "int (active_count a (me_now e2) db2) < mm_refresh_max_active_per_agent settings"
  shows "mint_refresh_token ph settings e2 a ua ip (Some i) db2 =
    (Inr (uuid_hex (me_uuid e2) @ ''.'' @ base64url_encode (me_secret e2)),
     write_token (Ins (minted_row ph settings e2 a ua ip (Some i))) db2)"
proof -
  have "mm_use_sqlite_for_tests settings \<or> varchar 512 ua \<and> varchar 45 ip"
    using m by (auto simp: mint_refresh_token_def Let_def refresh_token_violation_def split: option.splits if_splits)
  then show ?thesis
    using row ag fresh hash
    by (auto simp: mint_refresh_token_def Let_def make_room_not_full [OF room] refresh_token_violation_def varchar_def
        minted_row_def write_token_def)
qed

text \<open>C10: overlapping rotations defeat single use. Two requests present one refresh token, and both read it before
  either has written; the first commits. The second succeeds too - it does not look at the row again - and
  afterwards the token has two unrevoked successors: no reuse is noticed. (Its identifier is fresh, the agent is
  below the cap, and Argon2's hashes fit into their column.)\<close>

theorem overlapping_rotations_both_succeed:
  assumes "rotate_read ph env1 raw db = Some (i, row)" and "rotate_read ph env2 raw db = Some (i, row)"
    and first: "rotate_write ph settings env1 i row ua ip db = (Inr (raw1, agent), db1)"
    and fresh: "get_refresh_token (me_uuid (re_mint env2)) db1 = None"
    and hash: "\<And>salt s. length (hash_secret ph salt s) \<le> 255"
    and room: "int (active_count (rt_agent_id row) (me_now (re_mint env2)) (set_revoked i (re_revoke env2) db1))
      < mm_refresh_max_active_per_agent settings"
  shows "\<exists>raw2 db2 new1 new2. rotate_write ph settings env2 i row ua ip db1 = (Inr (raw2, agent), db2)
    \<and> get_refresh_token (me_uuid (re_mint env1)) db2 = Some new1 \<and> get_refresh_token (me_uuid (re_mint env2)) db2 = Some new2
    \<and> rt_rotated_from_id new1 = Some i \<and> rt_rotated_from_id new2 = Some i
    \<and> rt_revoked_at new1 = None \<and> rt_revoked_at new2 = None \<and> rt_id new1 \<noteq> rt_id new2"
proof -
  let ?a = "rt_agent_id row" and ?u1 = "me_uuid (re_mint env1)" and ?u2 = "me_uuid (re_mint env2)"
  let ?db2 = "set_revoked i (re_revoke env2) db1"
  let ?new1 = "minted_row ph settings (re_mint env1) ?a ua ip (Some i)" and ?new2 = "minted_row ph settings (re_mint env2) ?a ua ip (Some i)"
  note w1 = write_InrD [OF first]
  have old: "get_refresh_token i db = Some row" using assms(1) by (auto simp: rotate_read_def split: option.splits prod.splits if_splits)
  then have "get_refresh_token i (set_revoked i (re_revoke env1) db) = Some (revoke_at (re_revoke env1) row)"
    by (simp add: get_set_revoked)
  then obtain r where r: "get_refresh_token i db1 = Some r" "revoked r"
    using mint_change [of "set_revoked i (re_revoke env1) db"] w1(2) unfolding token_change_def
    by (metis option.distinct(1) revoke_at_simps(4) revoked_def snd_conv)
  have n1: "get_refresh_token ?u1 db1 = Some ?new1"
    using mint_InrD [OF w1(2)] minted_row_found by metis
  have ne: "?u1 \<noteq> i" "?u2 \<noteq> ?u1" using n1 r fresh by (auto simp: minted_row_def revoked_def)
  have "mm_agents db1 = mm_agents db" using agents_of_mint w1(2) by (metis set_revoked_agents snd_conv)
  then have agent: "get_agent ?a ?db2 = Some agent" using w1(1) by (simp add: get_agent_def)
  have found: "get_refresh_token i ?db2 \<noteq> None" "get_refresh_token ?u2 ?db2 = None" "get_refresh_token ?u1 ?db2 = Some ?new1"
    using r fresh n1 ne by (auto simp: get_set_revoked)
  have ag: "get_agent ?a ?db2 \<noteq> None" using agent by simp
  note mint2 = second_mint [OF w1(2) found(1) ag found(2) hash room]
  define db2 where "db2 = write_token (Ins ?new2) ?db2"
  have "rotate_write ph settings env2 i row ua ip db1 =
      (Inr (uuid_hex ?u2 @ ''.'' @ base64url_encode (me_secret (re_mint env2)), agent), db2)"
    by (simp add: rotate_write_def agent mint2 bind_act_def db2_def)
  moreover have "get_refresh_token ?u1 db2 = Some ?new1" "get_refresh_token ?u2 db2 = Some ?new2"
    using tokens_tbl.get_ins [OF found(3)] minted_row_found [OF found(2)] by (simp_all add: db2_def)
  ultimately show ?thesis using ne by (auto simp: minted_row_def)
qed

definition ex_rotate_env2 :: rotate_env where
  "ex_rotate_env2 = \<lparr>re_reuse = 5, re_check = 5, re_revoke = 6, re_mint = ex_env 6 12\<rparr>"

definition ex_short_ph :: argon2_lib where
  "ex_short_ph = ex_ph\<lparr>ph_hash := \<lambda>salt secret. replicate 32 (char_of (7 :: nat))\<rparr>"

lemma ex_reads:
  "rotate_read ex_short_ph ex_rotate_env (ex_raw 10) (ex_db [ex_row 10 0 None None]) = Some (10, ex_row 10 0 None None)"
  "rotate_read ex_short_ph ex_rotate_env2 (ex_raw 10) (ex_db [ex_row 10 0 None None]) = Some (10, ex_row 10 0 None None)"
  by (simp add: rotate_read_def ex_parse; simp add: ex_simps ex_short_ph_def ex_rotate_env_def ex_rotate_env2_def
      get_refresh_token_def verify_secret_def)+

lemma ex_first_write:
  "rotate_write ex_short_ph default_settings ex_rotate_env 10 (ex_row 10 0 None None) None None (ex_db [ex_row 10 0 None None])
   = (Inr (ex_raw 11, ex_agent), ex_db [ex_row 10 0 None (Some 5), ex_row 11 5 (Some 10) None])"
  by (simp add: ex_simps ex_short_ph_def rotate_write_def ex_rotate_env_def mint_refresh_token_def make_room_def active_count_def
      refresh_token_violation_def get_refresh_token_def get_agent_def varchar_def hash_secret_def
      tbl_insert_def Let_def set_revoked_def tbl_update_def revoke_at_def is_active_def bind_act_def)

theorem overlapping_rotations_both_succeed_witness:
  "\<exists>raw2 db2. rotate_write ex_short_ph default_settings ex_rotate_env2 10 (ex_row 10 0 None None) None None
       (ex_db [ex_row 10 0 None (Some 5), ex_row 11 5 (Some 10) None]) = (Inr (raw2, ex_agent), db2)
     \<and> (\<exists>new. get_refresh_token 11 db2 = Some new \<and> rt_revoked_at new = None)"
proof -
  let ?db1 = "ex_db [ex_row 10 0 None (Some 5), ex_row 11 5 (Some 10) None]"
  have "get_refresh_token (me_uuid (re_mint ex_rotate_env2)) ?db1 = None"
    by (simp add: ex_simps ex_rotate_env2_def get_refresh_token_def)
  moreover have "length (hash_secret ex_short_ph salt s) \<le> 255" for salt s
    by (simp add: ex_short_ph_def hash_secret_def)
  moreover have "int (active_count (rt_agent_id (ex_row 10 0 None None)) (me_now (re_mint ex_rotate_env2))
      (set_revoked 10 (re_revoke ex_rotate_env2) ?db1)) < mm_refresh_max_active_per_agent default_settings"
    by (simp add: ex_simps ex_rotate_env2_def active_count_def set_revoked_def tbl_update_def revoke_at_def is_active_def)
  ultimately show ?thesis
    using overlapping_rotations_both_succeed [OF ex_reads ex_first_write] by (fastforce simp: ex_rotate_env_def ex_env_def)
qed

end
