(* ===== verification/Seed.thy ===== *)
theory Seed
  imports CrawlGraph CrawlerProcess
begin

text \<open>
  \<open>scripts/seed_integration_test_data.py\<close>: waiting for PostgreSQL, one agent and one post by raw SQL, and the load of
  the graph. The tables are those of CrawlGraph, the crawler's and the triggers' side by side.
\<close>

section \<open>Waiting for the database\<close>

definition MAX_RETRIES :: nat where "MAX_RETRIES = 10"
definition RETRY_DELAY_SEC :: seconds where "RETRY_DELAY_SEC = 2"

text \<open>\<open>os.environ.get(name, default)\<close>; the port goes through \<open>int\<close>.\<close>

definition environ_get :: "(string \<Rightarrow> string option) \<Rightarrow> string \<Rightarrow> string \<Rightarrow> string" where
  "environ_get environ name fallback = (case environ name of None \<Rightarrow> fallback | Some v \<Rightarrow> v)"

definition seed_login :: "(string \<Rightarrow> string option) \<Rightarrow> pg_login result" where
  "seed_login environ =
     (case py_int (environ_get environ ''POSTGRES_PORT'' ''5432'') of
        None \<Rightarrow> Inl (ValueError ''invalid literal for int()'')
      | Some port \<Rightarrow>
          Inr \<lparr>lg_host = environ_get environ ''POSTGRES_HOST'' ''localhost'', lg_port = port,
               lg_user = environ_get environ ''POSTGRES_USER'' ''postgres'',
               lg_password = Some (environ_get environ ''POSTGRES_PASSWORD'' ''''),
               lg_database = environ_get environ ''POSTGRES_DB'' ''textlake''\<rparr>)"

text \<open>
  The attempts that are left, with the number of the next: its outcome and the pauses. Only a cancellation is no
  \<open>Exception\<close>. Without an attempt left the assertion fails, which the last attempt prevents.
\<close>

fun seed_connect :: "(nat \<Rightarrow> unit result) \<Rightarrow> nat \<Rightarrow> nat \<Rightarrow> unit result \<times> seconds list" where
  "seed_connect connect attempt 0 = (Inl (OtherException ''AssertionError''), [])"
| "seed_connect connect attempt (Suc left) =
     (case connect attempt of
        Inr _ \<Rightarrow> (Inr (), [])
      | Inl e \<Rightarrow>
          if e = CancelledError \<or> \<not> attempt < MAX_RETRIES - 1 then (Inl e, [])
          else let (r, pauses) = seed_connect connect (Suc attempt) left in (r, RETRY_DELAY_SEC # pauses))"

section \<open>The rows\<close>

text \<open>\<open>INSERT ... ON CONFLICT (id) DO NOTHING\<close>, each statement a transaction: the triggers fire as for an upsert, and a
  conflict leaves the row as it is.\<close>

definition insert_or_nothing :: "entity \<Rightarrow> seconds \<Rightarrow> colvals \<Rightarrow> (crawl_db \<times> mr_db, unit) action" where
  "insert_or_nothing e now vals = (\<lambda>(db, mr).
     let x = row_of now e vals; db' = set_rows e (tbl_insert x (entity_rows db e)) db
     in case row_violation e x of
          Some err \<Rightarrow> (Inl err, db, mr)
        | None \<Rightarrow>
            if get_row e (x ''id'') db \<noteq> None then (Inr (), db, on_upsert e x mr)
            else if unique_violation e x (entity_rows db e) then (Inl (IntegrityError ''unique''), db, mr)
            else if fk_violation e x db' then (Inl (IntegrityError ''foreign key''), db, mr)
            else (Inr (), db', on_upsert e x mr))"

definition seed_agent :: "seconds \<Rightarrow> colvals" where
  "seed_agent now =
     [(''id'', VJson (JStr ''any-user'')), (''name'', VJson (JStr ''any-user'')), (''raw_json'', VJson (JObj [])),
      (''first_seen_at'', VTime now), (''last_seen_at'', VTime now)]"

definition seed_post :: "seconds \<Rightarrow> colvals" where
  "seed_post now =
     [(''id'', VJson (JStr ''Bpost123'')), (''author_id'', VJson (JStr ''any-user'')), (''raw_json'', VJson (JObj [])),
      (''first_seen_at'', VTime now), (''last_seen_at'', VTime now)]"

definition seed_rows :: "seconds \<Rightarrow> (crawl_db \<times> mr_db, unit) action" where
  "seed_rows now =
     bind_act (insert_or_nothing Agent now (seed_agent now)) (\<lambda>_.
     bind_act (insert_or_nothing Post now (seed_post now)) (\<lambda>_.
     (\<lambda>(db, mr). (Inr (), db, snd (meritrank_init mr)))))"

text \<open>\<open>close_ok\<close> is the outcome of closing the connection.\<close>

definition seed_main ::
  "(string \<Rightarrow> string option) \<Rightarrow> (pg_login \<Rightarrow> nat \<Rightarrow> unit result) \<Rightarrow> unit result \<Rightarrow> seconds
   \<Rightarrow> (crawl_db \<times> mr_db, unit) action" where
  "seed_main environ connect close_ok now =
     bind_act (of_result (seed_login environ)) (\<lambda>login.
     bind_act (of_result (fst (seed_connect (connect login) 0 MAX_RETRIES))) (\<lambda>_.
     try_finally (seed_rows now) (of_result close_ok)))"

section \<open>The attempts\<close>

lemma seed_connect_first:
  assumes "attempt + left = MAX_RETRIES" and "n < left" and "connect (attempt + n) = Inr ()"
    and "\<And>i. i < n \<Longrightarrow> \<exists>e. connect (attempt + i) = Inl e \<and> e \<noteq> CancelledError"
  shows "seed_connect connect attempt left = (Inr (), replicate n RETRY_DELAY_SEC)"
  using assms
proof (induction n arbitrary: attempt left)
  case 0
  then show ?case by (cases left) simp_all
next
  case (Suc n)
  then obtain l where l: "left = Suc l" by (cases left) auto
  obtain e where e: "connect attempt = Inl e" "e \<noteq> CancelledError" using Suc.prems(4) [of 0] by auto
  have "seed_connect connect (Suc attempt) l = (Inr (), replicate n RETRY_DELAY_SEC)"
    using Suc.prems(1-3) Suc.prems(4) [of "Suc i" for i] l by (intro Suc.IH) auto
  moreover have "attempt < MAX_RETRIES - 1" using Suc.prems(1,2) l by linarith
  ultimately show ?case by (simp add: l e)
qed

text \<open>The script waits at most 18 seconds, and the first attempt that succeeds ends the wait.\<close>

lemma seed_connect_pauses: "length (snd (seed_connect connect attempt left)) \<le> MAX_RETRIES - 1 - attempt"
  by (induction connect attempt left rule: seed_connect.induct) (auto split: sum.split prod.split)

section \<open>Loading the graph twice\<close>

fun edge_write :: "mr_call \<Rightarrow> ((string \<times> string \<times> string) \<times> rat option) option" where
  "edge_write (PutEdge s d w b k) = Some ((s, d, b), Some w)"
| "edge_write (DeleteEdge s d b) = Some ((s, d, b), None)"
| "edge_write _ = None"

lemma edge_writes_fold:
  assumes "list_all (\<lambda>c. edge_write c \<noteq> None) calls"
  shows "fold apply_call calls g k = (case map_of (rev (map (the \<circ> edge_write) calls)) k of None \<Rightarrow> g k | Some v \<Rightarrow> v)"
  using assms
proof (induction calls rule: rev_induct)
  case Nil
  then show ?case by simp
next
  case (snoc c calls)
  then show ?case by (cases c) auto
qed

text \<open>Writes of edges done twice in the same order are the writes done once.\<close>

lemma edge_writes_idem:
  "list_all (\<lambda>c. edge_write c \<noteq> None) calls \<Longrightarrow> fold apply_call calls (fold apply_call calls g) = fold apply_call calls g"
  by (rule ext) (simp add: edge_writes_fold split: option.split)

lemma init_calls_writes: "list_all (\<lambda>c. edge_write c \<noteq> None) (init_calls mr)"
proof -
  have "edge_write c \<noteq> None" if "c \<in> set (comment_inserted r mr)" for c r
    using that
    by (auto simp: comment_inserted_def mm_sync_comment_upvote_edge_def mm_sync_reply_upvote_edge_def upvote_call_def
        reply_calls_def Let_def split: if_splits option.splits)
  then show ?thesis by (auto simp: init_calls_def list_all_iff subscribe_put_def post_inserted_def Let_def)
qed

lemma init_calls_same: "same_tables mr mr' \<Longrightarrow> init_calls mr = init_calls mr'"
proof -
  assume st: "same_tables mr mr'"
  have posts: "post_inserted p mr = post_inserted p mr'" for p
    by (simp add: post_inserted_def same_tables_facts [OF st])
  have "joined_comments mr = joined_comments mr'" and tabs: "mr_subscribe mr = mr_subscribe mr'" "mr_posts mr = mr_posts mr'"
    using st by (simp_all add: joined_comments_def same_tables_facts [OF st]) (simp_all add: same_tables_def)
  then show ?thesis by (simp add: init_calls_def posts comment_inserted_same [OF st])
qed

lemma init_tables: "same_tables (snd (meritrank_init mr)) mr"
  by (simp add: meritrank_init_def Let_def same_tables_def)

section \<open>The rows are there, and stay\<close>

lemma seed_texts:
  "row_of now Agent (seed_agent now) ''id'' = VJson (JStr ''any-user'')"
  "row_of now Post (seed_post now) ''id'' = VJson (JStr ''Bpost123'')"
  "row_of now Post (seed_post now) ''author_id'' = VJson (JStr ''any-user'')"
  by (simp_all add: row_of_def seed_agent_def seed_post_def)

lemma insert_mirrors:
  assumes ok: "db_ok db" and m: "mirrors db mr" and e: "e = Agent \<and> safe_id (text_of (row_of now e vals ''id'')) \<or> e = Post"
    and run: "insert_or_nothing e now vals (db, mr) = (Inr (), db', mr')"
  shows "db_ok db'" and "mirrors db' mr'" and "mr' = on_upsert e (row_of now e vals) mr"
    and "row_violation e (row_of now e vals) = None" and "get_row e (row_of now e vals ''id'') db' \<noteq> None"
    and "get_row e (row_of now e vals ''id'') db \<noteq> None \<Longrightarrow> db' = db"
    and "get_row e' v db \<noteq> None \<Longrightarrow> get_row e' v db' \<noteq> None"
proof -
  let ?x = "row_of now e vals"
  show v: "row_violation e ?x = None" and mr': "mr' = on_upsert e ?x mr"
    and same: "get_row e (?x ''id'') db \<noteq> None \<Longrightarrow> db' = db"
    using run by (auto simp: insert_or_nothing_def Let_def split: option.splits if_splits)
  have "db_ok db' \<and> mirrors db' mr' \<and> get_row e (?x ''id'') db' \<noteq> None \<and>
      (get_row e' v db \<noteq> None \<longrightarrow> get_row e' v db' \<noteq> None)"
  proof (cases "get_row e (?x ''id'') db")
    case (Some old)
    then have "db' = db" using same by simp
    moreover have "mirrors db mr'" unfolding mr'
      using mirrors_same_tables [of "on_upsert e ?x mr" mr db] conflict_sim [OF ok m v Some] m by blast
    ultimately show ?thesis using ok Some by simp
  next
    case None
    then have db': "db' = set_rows e (tbl_insert ?x (entity_rows db e)) db"
      and c: "\<not> unique_violation e ?x (entity_rows db e)" "\<not> fk_violation e ?x db'"
      using run by (auto simp: insert_or_nothing_def Let_def v split: if_splits)
    have up: "enrichment_upsert e [] False now vals db = (Inr (), db')"
      using None v c by (simp add: enrichment_upsert_def db')
    have "db_ok db'" using upsert_db_ok [OF ok, of e "[]" False now vals] up by simp
    moreover have "mirrors db' mr'" unfolding mr' using e
    proof
      assume a: "e = Agent \<and> safe_id (text_of (?x ''id''))"
      then show "mirrors db' (on_upsert e ?x mr)"
        using insert_agent_sim [OF ok m, of ?x db'] v None db' by auto
    next
      assume "e = Post"
      then show "mirrors db' (on_upsert e ?x mr)"
        using insert_post_mirrors(1) [OF ok m, of ?x db'] v None db' c(2) by auto
    qed
    moreover have "get_row e (?x ''id'') db' \<noteq> None" "get_row e' v db \<noteq> None \<Longrightarrow> get_row e' v db' \<noteq> None"
      using None by (auto simp: db' get_row_def set_rows_def table_simps)
    ultimately show ?thesis by blast
  qed
  then show "db_ok db'" "mirrors db' mr'" "get_row e (?x ''id'') db' \<noteq> None"
    and "get_row e' v db \<noteq> None \<Longrightarrow> get_row e' v db' \<noteq> None" by blast+
qed

text \<open>The nodes a request can ask for are there, and the second run finds them.\<close>

lemma seed_again:
  assumes ok: "db_ok db" and m: "mirrors db mr"
    and rows: "get_row Agent (VJson (JStr ''any-user'')) db \<noteq> None" "get_row Post (VJson (JStr ''Bpost123'')) db \<noteq> None"
  shows "\<exists>mr'. seed_rows now (db, mr) = (Inr (), db, snd (meritrank_init mr')) \<and> same_tables mr' mr \<and> mr_trace mr' = mr_trace mr"
proof -
  have va: "row_violation Agent (row_of now Agent (seed_agent now)) = None"
    and vp: "row_violation Post (row_of now Post (seed_post now)) = None"
    by (simp_all add: row_violation_def row_of_def seed_agent_def seed_post_def MbAgent_def MbPost_def fits_def
        pk_col_def col_def now_col_def const_col_def fk_col_def)
  let ?x = "row_of now Agent (seed_agent now)" and ?y = "row_of now Post (seed_post now)"
  have a: "insert_or_nothing Agent now (seed_agent now) (db, mr) = (Inr (), db, on_upsert Agent ?x mr)"
    using rows(1) va by (auto simp: insert_or_nothing_def Let_def seed_texts)
  have "row_exists Agent (VJson (JStr ''any-user'')) db" "row_exists Post (VJson (JStr ''Bpost123'')) db"
    using rows by (metis get_row_def row_exists_iff tbl_get_None_iff)+
  then have "''any-user'' \<in> set (mr_agents mr)" "find_post ''Bpost123'' mr \<noteq> None"
    using mirrors_lookup [OF ok m] by simp_all
  then have ups: "on_upsert Agent ?x mr = mr" "on_upsert Post ?y mr = snd (bump_vsids ''any-user'' mr)"
    by (simp_all add: insert_agent_def seed_texts text_of_def)
  have "insert_or_nothing Post now (seed_post now) (db, mr) = (Inr (), db, on_upsert Post ?y mr)"
    using rows(2) vp by (auto simp: insert_or_nothing_def Let_def seed_texts)
  with a ups have "seed_rows now (db, mr) = (Inr (), db, snd (meritrank_init (snd (bump_vsids ''any-user'' mr))))"
    by (simp add: seed_rows_def bind_act_def)
  moreover have "mr_trace (snd (bump_vsids ''any-user'' mr)) = mr_trace mr" by (simp add: bump_vsids_def Let_def)
  ultimately show ?thesis using bump_same_tables by blast
qed

text \<open>Seeding is idempotent. After a run that succeeds, the agent and the post that the tests ask for are stored; another
  run succeeds, changes no table of the crawler, and leaves every edge of the graph as it was.\<close>

theorem seed_idempotent:
  assumes ok: "db_ok db" and m: "mirrors db mr" and run: "seed_rows now (db, mr) = (Inr (), db1, mr1)"
  shows "get_row Agent (VJson (JStr ''any-user'')) db1 \<noteq> None \<and> get_row Post (VJson (JStr ''Bpost123'')) db1 \<noteq> None
    \<and> (\<exists>mr2. seed_rows now' (db1, mr1) = (Inr (), db1, mr2) \<and> edges_of (mr_trace mr2) = edges_of (mr_trace mr1))"
proof -
  obtain da ma dp mp where a: "insert_or_nothing Agent now (seed_agent now) (db, mr) = (Inr (), da, ma)"
    and p: "insert_or_nothing Post now (seed_post now) (da, ma) = (Inr (), dp, mp)"
    and last: "db1 = dp" "mr1 = snd (meritrank_init mp)"
    using run by (auto simp: seed_rows_def bind_act_def split: prod.splits sum.splits)
  note A = insert_mirrors [OF ok m _ a]
  have sa: "Agent = Agent \<and> safe_id (text_of (row_of now Agent (seed_agent now) ''id'')) \<or> Agent = Post"
    by (simp add: seed_texts text_of_def safe_id_def)
  have sp: "Post = Agent \<and> safe_id (text_of (row_of now Post (seed_post now) ''id'')) \<or> Post = Post" by simp
  note P = insert_mirrors [OF A(1,2) [OF sa] sp p]
  have rows: "get_row Agent (VJson (JStr ''any-user'')) db1 \<noteq> None" "get_row Post (VJson (JStr ''Bpost123'')) db1 \<noteq> None"
    using P(7) [of Agent "VJson (JStr ''any-user'')"] A(5) [OF sa] P(5) by (simp_all add: seed_texts last)
  have tabs: "same_tables mr1 mp" unfolding last by (rule init_tables)
  then have m1: "mirrors db1 mr1" using P(2) mirrors_same_tables by (simp add: last(1))
  have ok1: "db_ok db1" using P(1) by (simp add: last(1))
  from seed_again [OF ok1 m1 rows, of now'] obtain mr' where
    again: "seed_rows now' (db1, mr1) = (Inr (), db1, snd (meritrank_init mr'))" "same_tables mr' mr1" "mr_trace mr' = mr_trace mr1"
    by blast
  have calls: "init_calls mr' = init_calls mp" "init_calls mp = init_calls mr1"
    using init_calls_same again(2) tabs by metis+
  have "edges_of (mr_trace (snd (meritrank_init mr'))) = fold apply_call (init_calls mp) (edges_of (mr_trace mr1))"
    by (simp add: init_trace edges_of_append again(3) calls(1))
  also have "\<dots> = edges_of (mr_trace mr1)"
    by (simp add: last(2) init_trace edges_of_append edge_writes_idem [OF init_calls_writes])
  finally show ?thesis using rows again(1) by blast
qed

lemma seed_runs: "fst (seed_rows 1 (empty_db, mr_empty)) = Inr ()"
  by code_simp

text \<open>The identifier of the post begins with the prefix of posts, so its node is that of another post too.\<close>

lemma seed_post_node: "node_name (PostN ''Bpost123'') = node_name (PostN ''post123'')"
  by (simp add: mm_pgmer_prefix_def)

end
