(* ===== verification/TaskAttempts.thy ===== *)
theory TaskAttempts
  imports CrawlerLoops
begin

text \<open>
  How often a worker tries a task: the counter \<open>attempts\<close> of \<open>crawl_task\<close> over the turns of \<open>worker_loop\<close>, and the bound
  that \<open>max_attempts\<close> puts on them.
\<close>

section \<open>The task that a turn claims\<close>

definition turn_claim :: "string \<Rightarrow> turn_input \<Rightarrow> crawl_db \<Rightarrow> uuid option" where
  "turn_claim worker_id ti db =
     (if ti_select_fails ti \<or> ti_commit_fails ti then None
      else map_option ct_id (fst (claim_task (ti_locked ti) (ti_now ti) worker_id db)))"

text \<open>The turns of a run that claim task \<open>i\<close>, until it leaves the queue or the loop ends.\<close>

fun tries_of ::
  "(string \<Rightarrow> handler option) \<Rightarrow> (py_exn \<Rightarrow> string) \<Rightarrow> string \<Rightarrow> uuid \<Rightarrow> turn_input list \<Rightarrow> seconds \<times> crawl_db \<Rightarrow> nat" where
  "tries_of handlers exn_str worker_id i [] s = 0"
| "tries_of handlers exn_str worker_id i (ti # tis) s =
     (if ti_shutdown ti \<or> get_task i (ti_others ti (snd s)) = None then 0
      else
        (if turn_claim worker_id ti (ti_others ti (snd s)) = Some i then 1 else 0)
        + (case worker_body handlers exn_str worker_id ti (fst s, ti_others ti (snd s)) of
             (LoopCancelled, s1) \<Rightarrow> 0
           | (NextTurn pause, s1) \<Rightarrow> tries_of handlers exn_str worker_id i tis s1))"

section \<open>Handlers leave the queued tasks alone\<close>

interpretation task_kept: crawl_invariant "\<lambda>db. get_task i db = Some t" for i t
  by unfold_locales
     (auto simp: preserves_def get_task_def upsert_frame insert_task_def insert_stats_def mark_fetched_def set_rows_def
       table_simps)

lemma handler_keeps_task:
  "get_handler env kind = Some h \<Longrightarrow> get_task i db = Some t \<Longrightarrow> get_task i (snd (run_handler h p db)) = Some t"
  by (rule task_kept.handler_step)

section \<open>One turn\<close>

lemma get_update_task:
  "(\<And>r. ct_id (f r) = ct_id r) \<Longrightarrow>
   get_task i (update_task j f db) = (if i = j then map_option f (get_task i db) else get_task i db)"
  by (simp add: get_task_def update_task_def table_simps)

lemma get_delete_task: "get_task i (delete_task j db) = (if i = j then None else get_task i db)"
  by (simp add: get_task_def delete_task_def tbl_get_filter)

lemma finalize_other: "i \<noteq> j \<Longrightarrow> get_task i (finalize exn_str now j outcome db) = get_task i db"
  by (auto simp: finalize_def finalize_transient_def finalize_failure_def Let_def get_update_task get_delete_task
      split: sum.split py_exn.split option.split)

lemma finalize_counts:
  assumes "get_task i db = Some t" and "outcome \<noteq> Inl CancelledError"
  shows "get_task i (finalize exn_str now i outcome db) = None \<or>
    (\<exists>t'. get_task i (finalize exn_str now i outcome db) = Some t' \<and> ct_attempts t' = ct_attempts t + 1
       \<and> ct_max_attempts t' = ct_max_attempts t)"
proof (cases outcome)
  case (Inl e)
  then show ?thesis
    using assms
    by (cases e) (auto simp: finalize_def finalize_transient_def finalize_failure_def Let_def get_update_task)
qed (simp add: finalize_def get_delete_task)

text \<open>A task that has been counted once more, or has left the queue.\<close>

definition counted :: "CrawlTask \<Rightarrow> CrawlTask option \<Rightarrow> bool" where
  "counted t after_turn \<longleftrightarrow>
     (case after_turn of
        None \<Rightarrow> True
      | Some t' \<Rightarrow> ct_attempts t' = ct_attempts t + 1 \<and> ct_max_attempts t' = ct_max_attempts t)"

lemma run_task_other:
  assumes "get_handler env kind = Some h" and "get_task i db = Some t" and "ct_id task \<noteq> i"
  shows "get_task i (snd (run_task exn_str ti h task db)) = Some t"
proof -
  obtain r db1 where run: "run_handler h (py_or (ct_params task) (JObj [])) db = (r, db1)" by force
  then have "get_task i db1 = Some t" using handler_keeps_task [OF assms(1,2)] by (metis snd_conv)
  then show ?thesis using assms(3) by (simp add: run_task_def run Let_def finalize_other)
qed

lemma run_task_counts:
  assumes "get_handler env kind = Some h" and "get_task (ct_id task) db = Some t" and "\<not> ti_record_fails ti"
  shows "case run_task exn_str ti h task db of (e, db') \<Rightarrow> e = LoopCancelled \<or> counted t (get_task (ct_id task) db')"
proof -
  obtain r db1 where run: "run_handler h (py_or (ct_params task) (JObj [])) db = (r, db1)" by force
  then have kept: "get_task (ct_id task) db1 = Some t" using handler_keeps_task [OF assms(1,2)] by (metis snd_conv)
  show ?thesis
    using finalize_counts [OF kept, of "task_outcome r (ti_delete_error ti)" exn_str "ti_now ti"] assms(3)
    by (auto simp: run_task_def run Let_def counted_def)
qed

lemma claim_db:
  assumes "claim_task locked now w db = (Some task, db1)" and "get_task i db = Some t"
  shows "\<exists>t1. get_task i db1 = Some t1 \<and> ct_attempts t1 = ct_attempts t \<and> ct_max_attempts t1 = ct_max_attempts t
    \<and> (ct_id task \<noteq> i \<longrightarrow> t1 = t)"
  using assms by (auto simp: claim_task_def get_update_task split: option.splits)

lemma body_other:
  assumes t: "get_task i db = Some t" and c: "turn_claim w ti db \<noteq> Some i"
  shows "get_task i (snd (snd (worker_body (get_handler env) exn_str w ti (p, db)))) = Some t"
proof (cases "claim_task (ti_locked ti) (ti_now ti) w db")
  case (Pair found db1)
  show ?thesis
  proof (cases "ti_select_fails ti \<or> ti_commit_fails ti")
    case True
    then show ?thesis using t by (auto simp: worker_body_def Pair split: option.split)
  next
    case False
    show ?thesis
    proof (cases found)
      case None
      then have "db1 = db" using Pair by (auto simp: claim_task_def split: option.splits)
      then show ?thesis using None False t by (simp add: worker_body_def Pair Let_def)
    next
      case (Some task)
      then have ne: "ct_id task \<noteq> i" using c False Pair by (simp add: turn_claim_def)
      with claim_db [OF Pair [unfolded Some] t] have t1: "get_task i db1 = Some t" by blast
      have "get_task i db2 = Some t" if "get_handler env k = Some h" "run_task exn_str ti h task db1 = (e, db2)" for k h e db2
        using run_task_other [OF that(1) t1 ne, of exn_str ti] that(2) by simp
      then show ?thesis
        using Some False t1 ne by (auto simp: worker_body_def Pair Let_def get_delete_task split: option.split prod.split)
    qed
  qed
qed

lemma body_claims:
  assumes ok: "distinct_tasks db" "kinds_known db" and t: "get_task i db = Some t" and c: "turn_claim w ti db = Some i"
    and r: "\<not> ti_record_fails ti"
  shows "ct_attempts t < ct_max_attempts t"
    and "case worker_body (get_handler env) exn_str w ti (p, db) of (e, p', db') \<Rightarrow> e = LoopCancelled \<or> counted t (get_task i db')"
proof -
  have f: "\<not> ti_select_fails ti" "\<not> ti_commit_fails ti" using c by (auto simp: turn_claim_def split: if_splits)
  obtain task db1 where claim: "claim_task (ti_locked ti) (ti_now ti) w db = (Some task, db1)" and id: "ct_id task = i"
    using c f by (cases "claim_task (ti_locked ti) (ti_now ti) w db") (auto simp: turn_claim_def)
  then have sel: "select_task (ti_locked ti) (ti_now ti) (crawl_tasks db) = Some task"
    by (auto simp: claim_task_def split: option.splits)
  note chosen = select_task_Some(1) [OF sel]
  have "get_task i db = Some task" using chosen ok(1) id by (simp add: get_task_def distinct_tasks_def tbl_get_Some_iff)
  with t have task: "task = t" by simp
  then show "ct_attempts t < ct_max_attempts t" using chosen by (simp add: claimable_def)
  obtain t1 where t1: "get_task i db1 = Some t1" "ct_attempts t1 = ct_attempts t" "ct_max_attempts t1 = ct_max_attempts t"
    using claim_db [OF claim t] by blast
  obtain h where h: "get_handler env (ct_kind task) = Some h"
    using chosen ok(2) get_handler_known [of "ct_kind task" env] by (auto simp: kinds_known_def list_all_iff)
  obtain e db2 where run: "run_task exn_str ti h task db1 = (e, db2)" by force
  have "e = LoopCancelled \<or> counted t1 (get_task i db2)"
    using run_task_counts [OF h, of task db1 t1 ti exn_str] t1(1) r run id by simp
  then show "case worker_body (get_handler env) exn_str w ti (p, db) of (e, p', db') \<Rightarrow> e = LoopCancelled \<or> counted t (get_task i db')"
    using f t1(2,3) by (auto simp: worker_body_def claim h run Let_def counted_def split: option.splits)
qed

section \<open>All turns\<close>

definition alone :: "turn_input \<Rightarrow> bool" where
  "alone ti \<longleftrightarrow> ti_others ti = (\<lambda>db. db) \<and> \<not> ti_record_fails ti"

lemma tries_bounded:
  assumes "crawl_ok (snd s)" and "kinds_known (snd s)" and "list_all alone tis" and "get_task i (snd s) = Some t"
  shows "int (tries_of (get_handler env) exn_str w i tis s) \<le> max 0 (ct_max_attempts t - ct_attempts t)"
  using assms
proof (induction tis arbitrary: s t)
  case Nil
  then show ?case by simp
next
  case (Cons ti tis)
  have other: "ti_others ti (snd s) = snd s" and rec: "\<not> ti_record_fails ti" using Cons.prems(3) by (simp_all add: alone_def)
  obtain e p db' where b: "worker_body (get_handler env) exn_str w ti s = (e, p, db')" by (metis surj_pair)
  have steps: "crawler_step\<^sup>*\<^sup>* (snd s) db'" using worker_body_steps [of "snd s" env exn_str w ti "fst s"] b by simp
  have ok': "crawl_ok db'" "kinds_known db'"
    using ok_steps.steps_I [OF steps] kinds_steps.steps_I [OF steps] Cons.prems(1,2) by simp_all
  have d: "distinct_tasks (snd s)" using Cons.prems(1) by (simp add: crawl_ok_def queue_ok_def)
  note IH = Cons.IH [of "(p, db')", simplified, OF ok']
  have alone: "list_all alone tis" using Cons.prems(3) by simp
  have gone: "tries_of (get_handler env) exn_str w i tis (p, db') = 0" if "get_task i db' = None"
    using that Cons.prems(3) by (cases tis) (simp_all add: alone_def)
  show ?case
  proof (cases "turn_claim w ti (snd s) = Some i")
    case False
    have "get_task i db' = Some t"
      using body_other [OF Cons.prems(4) False, of env exn_str "fst s"] b by simp
    from IH [OF alone this] show ?thesis using False by (cases e) (simp_all add: other b Cons.prems(4))
  next
    case True
    note claims = body_claims(1) [OF d Cons.prems(2,4) True rec]
      body_claims(2) [OF d Cons.prems(2,4) True rec, of env exn_str "fst s"]
    show ?thesis
    proof (cases e)
      case LoopCancelled
      then show ?thesis using True claims(1) by (simp add: other b Cons.prems(4))
    next
      case (NextTurn pause)
      then have c: "counted t (get_task i db')" using claims(2) b by simp
      have "int (tries_of (get_handler env) exn_str w i tis (p, db')) \<le> max 0 (ct_max_attempts t - (ct_attempts t + 1))"
      proof (cases "get_task i db'")
        case None
        then show ?thesis using gone by simp
      next
        case (Some t')
        from IH [OF alone Some] show ?thesis using c Some by (simp add: counted_def)
      qed
      then show ?thesis using True NextTurn claims(1) by (simp add: other b Cons.prems(4))
    qed
  qed
qed


section \<open>A concrete run\<close>

text \<open>A task that is answered 429 each time, looked for at three times; at the second its time has not come.\<close>

definition ex_look :: "seconds \<Rightarrow> turn_input" where
  "ex_look now = \<lparr>ti_shutdown = False, ti_others = (\<lambda>db. db), ti_now = now, ti_locked = (\<lambda>_. False),
     ti_select_fails = False, ti_commit_fails = False, ti_delete_error = None, ti_record_fails = False\<rparr>"

definition ex_tries :: nat where
  "ex_tries = tries_of (get_handler ex_limited_env) (\<lambda>_. ''rate limit'') ''w-0'' 1 (map ex_look [10, 20, 200])
     (POLL_INTERVAL_MIN, ex_queue (ex_task 0 None))"

lemma ex_tries_two: "ex_tries = 2"
  by code_simp

text \<open>The record of the failure is needed: a worker that cannot record them tries the task a sixth time.\<close>

lemma unrecorded_tries:
  "tries_of (get_handler ex_limited_env) (\<lambda>_. ''rate limit'') ''w-0'' 1
     (map (\<lambda>now. (ex_look now)\<lparr>ti_record_fails := True\<rparr>) [10, 400, 800, 1200, 1600, 2000])
     (POLL_INTERVAL_MIN, ex_queue (ex_task 0 None)) = 6"
  by code_simp


end
