(* ===== verification/LeaseRaces.thy ===== *)
theory LeaseRaces
  imports TaskAttempts
begin

text \<open>
  Several workers on one queue (\<open>textlake/queue/worker.py\<close>). A worker's turn is cut at its commits: the claim, the
  transaction of the handler, the deletion or the record of the failure. Between any two of them other workers, the
  scheduler and the client commit, and time passes.
\<close>

section \<open>The pool of workers\<close>

text \<open>
  What one worker keeps in its local variables while it works on a task: its name, the row it read, the \<open>now\<close> of its
  claim, and the result of the handler once that has returned.
\<close>

record holder =
  ho_worker :: string
  ho_task :: CrawlTask
  ho_now :: seconds
  ho_result :: "unit result option"

record pool =
  po_clock :: seconds
  po_db :: crawl_db
  po_holders :: "holder list"

definition new_pool :: "seconds \<Rightarrow> crawl_db \<Rightarrow> pool" where
  "new_pool now db = \<lparr>po_clock = now, po_db = db, po_holders = []\<rparr>"

inductive pool_step :: "crawl_env \<Rightarrow> (py_exn \<Rightarrow> string) \<Rightarrow> crawl_lib \<Rightarrow> pool \<Rightarrow> pool \<Rightarrow> bool" for env exn_str lib where
  claim: "claim_task row_locked (po_clock p) w (po_db p) = (Some t, db) \<Longrightarrow> w \<notin> set (map ho_worker (po_holders p)) \<Longrightarrow>
    pool_step env exn_str lib p
      (p\<lparr>po_db := db, po_holders := \<lparr>ho_worker = w, ho_task = t, ho_now = po_clock p, ho_result = None\<rparr> # po_holders p\<rparr>)"
| handler: "po_holders p = before @ h # rest \<Longrightarrow> ho_result h = None \<Longrightarrow> get_handler env (ct_kind (ho_task h)) = Some f \<Longrightarrow>
    run_handler f (py_or (ct_params (ho_task h)) (JObj [])) (po_db p) = (r, db) \<Longrightarrow>
    pool_step env exn_str lib p (p\<lparr>po_db := db, po_holders := before @ h\<lparr>ho_result := Some r\<rparr> # rest\<rparr>)"
| unknown: "po_holders p = before @ h # rest \<Longrightarrow> ho_result h = None \<Longrightarrow> get_handler env (ct_kind (ho_task h)) = None \<Longrightarrow>
    pool_step env exn_str lib p (p\<lparr>po_db := delete_task (ct_id (ho_task h)) (po_db p), po_holders := before @ rest\<rparr>)"
| finish: "po_holders p = before @ h # rest \<Longrightarrow> ho_result h = Some r \<Longrightarrow>
    pool_step env exn_str lib p
      (p\<lparr>po_db := finalize exn_str (ho_now h) (ct_id (ho_task h)) (task_outcome r delete_error) (po_db p),
         po_holders := before @ rest\<rparr>)"
| lost: "po_holders p = before @ h # rest \<Longrightarrow> pool_step env exn_str lib p (p\<lparr>po_holders := before @ rest\<rparr>)"
| schedule: "pool_step env exn_str lib p (p\<lparr>po_db := snd (scheduler_turn lib (po_clock p) ids commit_ok s (po_db p))\<rparr>)"
| capture: "pool_step env exn_str lib p (p\<lparr>po_db := (po_db p)\<lparr>raw_captures := captures\<rparr>\<rparr>)"
| pass: "po_clock p \<le> now \<Longrightarrow> pool_step env exn_str lib p (p\<lparr>po_clock := now\<rparr>)"

text \<open>Every worker that is at work has still its lease: what the source relies on when it finalises without looking.\<close>

definition within_lease :: "pool \<Rightarrow> bool" where
  "within_lease p \<longleftrightarrow> list_all (\<lambda>h. po_clock p \<le> ho_now h + LEASE_SECONDS) (po_holders p)"

section \<open>Holding a lease\<close>

definition holds :: "crawl_db \<Rightarrow> holder \<Rightarrow> bool" where
  "holds db h \<longleftrightarrow> (case get_task (ct_id (ho_task h)) db of
     None \<Rightarrow> False
   | Some r \<Rightarrow> ct_locked_by r = Some (ho_worker h) \<and> ct_locked_until r = Some (ho_now h + LEASE_SECONDS))"

lemma holds_cong: "get_task (ct_id (ho_task h)) db' = get_task (ct_id (ho_task h)) db \<Longrightarrow> holds db' h = holds db h"
  by (simp add: holds_def)

lemma holds_result [simp]: "holds db (h\<lparr>ho_result := r\<rparr>) = holds db h"
  by (simp add: holds_def split: option.split)

lemma holds_delete: "holds db h \<Longrightarrow> ct_id (ho_task h) \<noteq> i \<Longrightarrow> holds (delete_task i db) h"
  by (simp add: holds_def get_delete_task)

lemma holds_finalize: "holds db h \<Longrightarrow> ct_id (ho_task h) \<noteq> i \<Longrightarrow> holds (finalize exn_str now i outcome db) h"
  by (simp add: holds_def finalize_other)

lemma holds_handler: "holds db h \<Longrightarrow> get_handler env kind = Some f \<Longrightarrow> holds (snd (run_handler f params db)) h"
  using handler_keeps_task [of env kind f "ct_id (ho_task h)" db] by (auto simp: holds_def split: option.splits)

lemma holds_captures: "holds (db\<lparr>raw_captures := captures\<rparr>) h = holds db h"
  by (rule holds_cong) (simp add: get_task_def)

text \<open>The scheduler inserts tasks, resets parked ones and removes captures: no lease is touched.\<close>

lemma holds_insert: "holds db h \<Longrightarrow> holds (snd (insert_task now i kind params key priority db)) h"
  using insert_task_writes [of now i kind params key priority db] by (auto simp: holds_def tasks_tbl.get_ins split: option.splits)

lemma holds_recover: "holds db h \<Longrightarrow> holds (recover_parked now db) h"
  by (auto simp: holds_def recover_parked_write tasks_tbl.get_upd_all split: option.splits)

lemma holds_scheduler: "holds db h \<Longrightarrow> holds (snd (scheduler_turn lib now ids commit_ok s db)) h"
proof -
  assume ok: "holds db h"
  let ?J = "\<lambda>x :: sched \<times> crawl_db. holds (snd x) h"
  have ins: "holds db' h" if "insert_task t k kind params key prio db1 = (r, db')" "holds db1 h"
    for t k kind params key prio db1 r db'
    using holds_insert [OF that(2), of t k kind params key prio] that(1) by simp
  have "preserves ?J (schedule_feed lib now ids f)" for f
    by (rule preservesI) (auto simp: schedule_feed_def split: prod.splits sum.splits dest: ins)
  moreover have "preserves ?J (schedule_list lib now ids)"
    by (rule preservesI) (auto simp: schedule_list_def split: prod.splits sum.splits dest: ins)
  moreover have "preserves ?J (schedule_recovery now)" "preserves ?J (schedule_prune now)"
    by (rule preservesI; auto simp: schedule_recovery_def schedule_prune_def prune_captures_def holds_captures
        intro: holds_recover)+
  ultimately have "preserves ?J (scheduler_body lib now ids)"
    unfolding scheduler_body_def by (intro preserves_bind preserves_for_each)
  from preservesD [OF this, of "(s, db)"] ok show ?thesis
    by (auto simp: scheduler_turn_def split: prod.splits sum.splits)
qed

lemma holds_claim:
  assumes "distinct_tasks db" and "holds db h" and "now \<le> ho_now h + LEASE_SECONDS"
    and c: "claim_task row_locked now w db = (Some t, db')"
  shows "holds db' h" and "ct_id t \<noteq> ct_id (ho_task h)"
proof -
  obtain r where r: "get_task (ct_id (ho_task h)) db = Some r" "leased (ho_now h + LEASE_SECONDS) r"
    using assms(2) by (auto simp: holds_def leased_def split: option.splits)
  note other = claim_other [OF assms(1) [unfolded distinct_tasks_def] r assms(3), of row_locked w, unfolded c]
  show "ct_id t \<noteq> ct_id (ho_task h)" using other(1) by auto
  show "holds db' h" using other(2) r(1) assms(2) by (simp add: holds_def)
qed

lemma claim_holds:
  assumes "distinct_tasks db" and "claim_task row_locked now w db = (Some t, db')"
  shows "holds db' \<lparr>ho_worker = w, ho_task = t, ho_now = now, ho_result = None\<rparr>"
proof -
  have sel: "select_task row_locked now (crawl_tasks db) = Some t"
    using assms(2) by (auto simp: claim_task_def split: option.splits)
  have "get_task (ct_id t) db = Some t"
    using select_task_Some(1) [OF sel] assms(1) by (simp add: get_task_def tbl_get_Some_iff distinct_tasks_def)
  then show ?thesis using assms(2) sel by (auto simp: holds_def claim_task_def get_update_task)
qed

section \<open>One worker at a time\<close>

definition pool_ok :: "pool \<Rightarrow> bool" where
  "pool_ok p \<longleftrightarrow> crawl_ok (po_db p) \<and> distinct (map (\<lambda>h. ct_id (ho_task h)) (po_holders p))
     \<and> distinct (map ho_worker (po_holders p)) \<and> list_all (holds (po_db p)) (po_holders p)"

lemma pool_ok_rest:
  assumes "pool_ok p" and "po_holders p = before @ h # rest" and "crawl_ok db"
    and "\<And>h'. holds (po_db p) h' \<Longrightarrow> ct_id (ho_task h') \<noteq> ct_id (ho_task h) \<Longrightarrow> holds db h'"
  shows "pool_ok (p\<lparr>po_db := db, po_holders := before @ rest\<rparr>)"
proof -
  have "ct_id (ho_task x) \<noteq> ct_id (ho_task h)" if "x \<in> set before \<union> set rest" for x
    using assms(1,2) that by (auto simp: pool_ok_def image_iff)
  then show ?thesis using assms by (auto simp: pool_ok_def list_all_iff)
qed

lemma pool_step_ok:
  "pool_step env exn_str lib p p' \<Longrightarrow> within_lease p \<Longrightarrow> pool_ok p \<Longrightarrow> pool_ok p'"
proof (induction rule: pool_step.induct)
  case (claim row_locked p w t db)
  have d: "distinct_tasks (po_db p)" using claim.prems(2) by (simp add: pool_ok_def crawl_ok_def queue_ok_def)
  have ok: "crawl_ok db" using ok_steps.claim_I [of "po_db p" row_locked "po_clock p" w] claim by (simp add: pool_ok_def)
  have "holds db h" "ct_id t \<noteq> ct_id (ho_task h)" if "h \<in> set (po_holders p)" for h
    using holds_claim [OF d _ _ claim.hyps(1), of h] claim.prems that
    by (auto simp: pool_ok_def within_lease_def list_all_iff)
  then show ?case
    using claim_holds [OF d claim.hyps(1)] claim.prems(2) claim.hyps(2) ok
    by (auto simp: pool_ok_def list_all_iff)
next
  case (handler p before h rest f r db)
  have "crawl_ok db" using ok.handler_step [OF handler.hyps(3)] handler by (metis pool_ok_def snd_conv)
  moreover have "holds db h'" if "holds (po_db p) h'" for h'
    using holds_handler [OF that handler.hyps(3)] handler.hyps(4) by (metis snd_conv)
  ultimately show ?case using handler by (simp add: pool_ok_def list_all_iff)
next
  case (unknown p before h rest)
  then show ?case by (intro pool_ok_rest holds_delete ok_steps.delete_I) (simp_all add: pool_ok_def)
next
  case (finish p before h rest r delete_error)
  then show ?case by (intro pool_ok_rest holds_finalize ok_steps.finalize_I) (simp_all add: pool_ok_def)
next
  case (lost p before h rest)
  then show ?case by (simp add: pool_ok_def list_all_iff)
next
  case (schedule p ids commit_ok s)
  then show ?case by (simp add: pool_ok_def list_all_iff ok_steps.scheduler_I holds_scheduler)
next
  case (capture p captures)
  then show ?case by (simp add: pool_ok_def list_all_iff ok_steps.captures_I holds_captures)
qed (simp add: pool_ok_def)

text \<open>C18: one worker at a time. The workers are tasks of one process and read one clock. Any number of workers claim, handle and finalise tasks, each in separate transactions
  between which the others, the scheduler and the client commit, and any of them may be lost at any moment. From tables in order
  with no worker at work, as long as no worker at work has outlived its lease of 300 seconds, no two of them are at work on the same task, and the row of
  every task at work carries the name of its worker and the end of its lease.\<close>

theorem lease_exclusive:
  assumes "(\<lambda>p p'. pool_step env exn_str lib p p' \<and> within_lease p')\<^sup>*\<^sup>* (new_pool now db) p" and "crawl_ok db"
  shows "distinct (map (\<lambda>h. ct_id (ho_task h)) (po_holders p)) \<and>
    list_all (\<lambda>h. case get_task (ct_id (ho_task h)) (po_db p) of
        None \<Rightarrow> False
      | Some r \<Rightarrow> ct_locked_by r = Some (ho_worker h) \<and> ct_locked_until r = Some (ho_now h + 300)) (po_holders p)"
proof -
  have "pool_ok p \<and> within_lease p"
    using assms(1)
  proof (induction rule: rtranclp_induct)
    case base
    show ?case using assms(2) by (simp add: pool_ok_def within_lease_def new_pool_def)
  next
    case (step y z)
    then show ?case using pool_step_ok by blast
  qed
  then show ?thesis unfolding pool_ok_def holds_def [abs_def] LEASE_SECONDS_def by blast
qed

section \<open>A concrete pool\<close>

text \<open>One task; worker 0 claims it, and two minutes later the scheduler has looked, too.\<close>

definition ex_pool :: pool where
  "ex_pool = \<lparr>po_clock = 130, po_db = ex_queue (ex_task 0 (Some (''w-0'', 310))),
     po_holders = [\<lparr>ho_worker = ''w-0'', ho_task = ex_task 0 None, ho_now = 10, ho_result = None\<rparr>]\<rparr>"

lemma ex_pool_reached:
  "(\<lambda>p p'. pool_step env exn_str lib p p' \<and> within_lease p')\<^sup>*\<^sup>* (new_pool 10 (ex_queue (ex_task 0 None))) ex_pool"
proof -
  let ?p0 = "new_pool 10 (ex_queue (ex_task 0 None))"
  let ?p1 = "ex_pool\<lparr>po_clock := 10\<rparr>"
  have "claim_task (\<lambda>_. False) (po_clock ?p0) ''w-0'' (po_db ?p0)
      = (Some (ex_task 0 None), ex_queue (ex_task 0 (Some (''w-0'', 310))))"
    by (simp add: new_pool_def claim_task_def select_task_def ex_queue_def ex_task_def claimable_def update_task_def
        tbl_update_def LEASE_SECONDS_def)
  from pool_step.claim [OF this] have "pool_step env exn_str lib ?p0 ?p1"
    by (simp add: new_pool_def ex_pool_def)
  moreover have "pool_step env exn_str lib ?p1 ex_pool"
    using pool_step.pass [of ?p1 130] by (simp add: ex_pool_def)
  moreover have "within_lease ?p1" "within_lease ex_pool" by (simp_all add: within_lease_def ex_pool_def LEASE_SECONDS_def)
  ultimately show ?thesis by (intro rtranclp.rtrancl_into_rtrancl [OF r_into_rtranclp [of _ _ ?p1]]) simp_all
qed

theorem lease_exclusive_witness:
  "case get_task 1 (po_db ex_pool) of None \<Rightarrow> False
   | Some r \<Rightarrow> ct_locked_by r = Some ''w-0'' \<and> ct_locked_until r = Some 310"
proof -
  have "crawl_ok (ex_queue (ex_task 0 None))"
    by (simp add: crawl_ok_def db_ok_def queue_ok_def distinct_tasks_def stats_ok_def empty_db_def ex_queue_def ex_task_def)
  from lease_exclusive [OF ex_pool_reached this] show ?thesis
    by (simp add: ex_pool_def split: option.splits) (simp add: ex_task_def)
qed

end
