(* ===== verification/Spec2Isabelle.thy ===== *)
theory Spec2Isabelle
  imports RateLimit Backpressure SqlSingle Config Auth Crawler MeritSteps Api InitDb App
    CrawlGraph CrawlerProcess TokenRaces Seed LeaseRaces
begin

text \<open>
  Verification of MeritMolt.

  MeritMolt scores the agents, posts and comments of the MoltBook network. The repository has two programs
  over one PostgreSQL database. The server (\<open>src/meritmolt/\<close>, a FastAPI application) logs agents in with
  their MoltBook identity, lets them follow each other, and answers score and rank queries. The crawler
  (\<open>src/textlake/\<close>) fills the tables of agents, submolts, posts and comments from MoltBook's API. Triggers of
  the database (\<open>src/meritmolt/schema/ddl.py\<close>) turn insertions into and deletions from these tables into edges of the
  MeritRank graph, which the extension \<open>pgmer2\<close> keeps.

  \<^bold>\<open>The model.\<close> Python functions are HOL functions. A call that may raise returns \<open>py_exn + 'a\<close>; one that
  also changes state is an \<^emph>\<open>action\<close>, which returns the state reached when it returned or raised, so that the
  caller keeps it or rolls it back as the code does (theory Prelude). Tables are lists of rows (Tables). A
  transaction is one action: transactions of different tasks follow one another, as under a serialising
  database; where tasks interleave within an operation, there is a step relation (the semaphores) or the operation is cut
  in two (the rotation of refresh tokens) or at its commits (the workers of the queue). Times are rational numbers of
  seconds and floats are exact rationals: bounds on the rate limits are those of exact arithmetic, and what holds at the very moment at
  which a token is refilled need not hold for doubles. Integers are
  unbounded except where the code's width matters (\<open>Api.int8\<close>), JSON is a datatype (PyJson), strings are
  character lists with the string methods that the code uses (PyString, PyIp). Clock readings,
  random bytes and fresh identifiers are arguments. JWT, Argon2, SHA-256, httpx, the driver and \<open>pgmer2\<close> are
  parameters; what the code relies on in them is a named hypothesis of the theorems that need it. For access tokens that is
  \<open>jwt_documented\<close>, with the truncation of times that PyJWT does. How FastAPI and Starlette make responses of what
  endpoints return or raise is modelled as they document it (\<open>endpoint_run\<close>, \<open>handle_exception\<close> in App).

  \<^bold>\<open>The server.\<close>
  \<^item> Config: \<open>config.py\<close> of both programs, with the parsing of keys and the database URLs.
  \<^item> Asgi, RateLimit: \<open>middleware_utils.py\<close> and \<open>ratelimit.py\<close>. A token bucket, the LRU store of buckets per
    route group, the key of a request, the middleware. The locale \<open>limiter\<close> states what a limiter promises; the
    bound on admissions in any window is proved in it and holds for the buckets by interpretation.
  \<^item> Backpressure: \<open>backpressure.py\<close>, as a function of one request, and as the step relation \<open>bp_step\<close> of
    many; permits are the locale \<open>permit_pool\<close>.
  \<^item> Tokens, Auth, JwtLib, Bytes: \<open>auth/\<close>. Refresh tokens with rotation, reuse detection and the cap per agent; access
    tokens, the identity provider, the five requests. A history of token operations keeps what a write law
    of the locale \<open>keyed_table\<close> keeps, which is how a rotated token is refused for ever. TokenRaces cuts the
    rotation between its read and its write and lets two of them overlap.
  \<^item> SqlSplit, SqlSingle: the statement splitter of \<open>database.py\<close>; InitDb: the rest of its start.
  \<^item> MeritGraph, MeritSpec, MeritSteps: the trigger functions, triggers and rebuilding functions of
    \<open>ddl.py\<close>. \<open>mr_db\<close> has the columns that this SQL reads, and the calls made to the extension.
    MeritSpec defines the abstract graph of the tables (\<open>expected\<close>) and shows that each statement changes the
    recorded edges as it changes the abstract graph; MeritSteps has the step relation of the statements with which the
    triggers keep up, the refinement in every database that they reach, the equality of both rebuilding functions with it, and the
    statements that the relation leaves out, after which graph and tables part: moved posts, deleted posts with comments.
  \<^item> Api: the endpoints over the graph, \<open>events/\<close>, \<open>scores/\<close>, \<open>rank/\<close>, \<open>schema/existence.py\<close>,
    \<open>schema/queries.py\<close>. A subscription request is described in every state of the
    database. The locale \<open>ranked_listing\<close> is what the three rank endpoints share.
  \<^item> App: \<open>main.py\<close>. The backpressure around the rate limits around the routes, with the handler of exceptions; every
    request gets one complete response.

  \<^bold>\<open>The crawler.\<close>
  \<^item> Entities, Upsert: the columns and constraints of \<open>models/\<close> and the enrichment upserts of \<open>upsert.py\<close>.
  \<^item> CrawlQueue: \<open>queue/worker.py\<close>, \<open>queue/scheduler.py\<close>, \<open>handlers/enqueue.py\<close>. Claims with leases,
    finalisation, recurring tasks.
  \<^item> Handlers, Comments, CommentsHandler, PostsHandler: the task handlers. The locale \<open>crawl_invariant\<close> is an
    invariant that the handlers' database operations keep; it is interpreted on the constraints of the
    tables and on the kinds of queued tasks.
  \<^item> Retry, Client: \<open>client.py\<close>, with the locale \<open>counted_action\<close> for what is retried.
  \<^item> Crawler: the registry of handlers and the step relation \<open>crawler_step\<close>, which allows more
    than workers and scheduler do and is meant for invariants.
  \<^item> CrawlerLoops: the loops of a worker and of the scheduler with their pauses, their failing transactions and the
    commits of others in between; every run of a loop is a sequence of crawler steps, whose invariants it keeps.
    TaskAttempts: how often a task is tried. LeaseRaces: several workers, each cut at its commits, as a step relation;
    while nobody outlives its lease, nobody else works on its task.
  \<^item> CrawlerProcess: \<open>textlake/database.py\<close>, the life of the client, \<open>__main__.py\<close>: what is opened and closed; a call that
    closes and raises closes nothing.

  \<^bold>\<open>Both together.\<close> CrawlGraph: the crawler's upserts are the statements that fire the triggers of the graph. It
  shows that in every history of upserts the recorded edges are the abstract graph of the crawler's own tables,
  for data that satisfies \<open>graph_safe\<close>; the findings say what happens to other data. Seed:
  \<open>scripts/seed_integration_test_data.py\<close>, whose second run changes no table of the crawler and no edge.

  \<^bold>\<open>Bounds, fuel and termination.\<close> No definition needs fuel. Retries recurse on the number of attempts left, the
  topological sort of comments on the number of edges not yet visited, the splitter on the text not
  yet read. Hanging routes are runs without an end.

  \<^bold>\<open>Choices of the model.\<close> The ticker counters do not overflow. The rows of a bulk load are ordered by
  character codes, not by a collation. A handler reads the clock once per task. Identifiers of new
  tasks are drawn per deduplication key. What the tasks of the crawler do together is a parameter of its process.
  The read endpoints of Api are those of an initialised database; the other requests have the answer 503 of one that is not.

  \<^bold>\<open>Not modelled.\<close> The tests; logging (\<open>log.py\<close>) and the wiring of packages (\<open>__init__.py\<close>,
  \<open>models/base.py\<close>), which have no logic of their own; the texts of \<open>create_all\<close>; the reading of environment variables by pydantic; the table \<open>crawl_state\<close>,
  which nothing uses; the columns \<open>updated_at\<close> set by triggers; the cascade of deleting an agent,
  which no code does.
\<close>

end
